(* ===== verification/Arca_Prelude.thy ===== *)
theory Arca_Prelude
  imports Main "HOL-Library.Option_ord" "HOL-Library.List_Lexorder" "HOL-Library.Char_ord"
begin

section \<open>Shared vocabulary of the Arca development\<close>

text \<open>
  What every component theory uses: the types that stand for Rust's standard types, the part
  of Rust's \<^verbatim>\<open>str\<close>, \<^verbatim>\<open>Option\<close> and \<^verbatim>\<open>HashMap\<close> interfaces the modelled code calls, and
  the lemmas on them.

  A Rust \<^verbatim>\<open>String\<close> is a HOL \<^typ>\<open>string\<close>: the list of its bytes. HOL characters are the
  numbers below 256, ordered numerically, so the lexicographic order of HOL-Library's
  List\_Lexorder is Rust's byte-wise \<^verbatim>\<open>Ord\<close> on \<^verbatim>\<open>str\<close>. Where the code walks over
  \<^verbatim>\<open>chars()\<close> instead of bytes the model is exact on code points below 256.
  A \<^verbatim>\<open>DateTime<Utc>\<close> is an \<^typ>\<open>int\<close>: nanoseconds since the Unix epoch.
  Rust's \<^verbatim>\<open>Option\<close> order (\<^verbatim>\<open>None < Some\<close>) is the order of HOL-Library's Option\_ord.
\<close>

type_synonym timestamp = int

named_theorems rust_str \<open>equations of the modelled part of Rust's str interface\<close>
named_theorems family_simps \<open>equations of the control-plane family plans\<close>
named_theorems invariant_intros \<open>preservation of the component invariants\<close>

subsection \<open>Strings\<close>

definition starts_with :: "'a list \<Rightarrow> 'a list \<Rightarrow> bool" where
  "starts_with s p \<longleftrightarrow> take (length p) s = p"

definition ends_with :: "'a list \<Rightarrow> 'a list \<Rightarrow> bool" where
  "ends_with s p \<longleftrightarrow> length p \<le> length s \<and> drop (length s - length p) s = p"

text \<open>\<^verbatim>\<open>str::contains\<close> with a string needle.\<close>

fun contains :: "'a list \<Rightarrow> 'a list \<Rightarrow> bool" where
  "contains [] p = (p = [])"
| "contains (c # s) p = (starts_with (c # s) p \<or> contains s p)"

text \<open>\<^verbatim>\<open>str::strip_prefix\<close> and \<^verbatim>\<open>str::strip_suffix\<close>.\<close>

definition strip_prefix :: "'a list \<Rightarrow> 'a list \<Rightarrow> 'a list option" where
  "strip_prefix s p = (if starts_with s p then Some (drop (length p) s) else None)"

definition strip_suffix :: "'a list \<Rightarrow> 'a list \<Rightarrow> 'a list option" where
  "strip_suffix s p = (if ends_with s p then Some (take (length s - length p) s) else None)"

text \<open>\<^verbatim>\<open>str::split\<close> on one character: always at least one piece.\<close>

fun split_on :: "'a \<Rightarrow> 'a list \<Rightarrow> 'a list list" where
  "split_on d [] = [[]]"
| "split_on d (c # s) =
     (if c = d then [] # split_on d s
      else (case split_on d s of [] \<Rightarrow> [[c]] | w # ws \<Rightarrow> (c # w) # ws))"

text \<open>
  \<^verbatim>\<open>str::trim\<close> and \<^verbatim>\<open>str::trim_matches\<close>: drop the matching characters of both ends. The
  ASCII white space is what \<^verbatim>\<open>char::is_whitespace\<close> accepts below 128.
\<close>

definition trim_by :: "('a \<Rightarrow> bool) \<Rightarrow> 'a list \<Rightarrow> 'a list" where
  "trim_by P s = rev (dropWhile P (rev (dropWhile P s)))"

definition is_ascii_space :: "char \<Rightarrow> bool" where
  "is_ascii_space c \<longleftrightarrow> of_char c \<in> {9::nat, 10, 11, 12, 13, 32}"

definition trim :: "string \<Rightarrow> string" where
  "trim s = trim_by is_ascii_space s"

definition is_ascii_lowercase :: "char \<Rightarrow> bool" where
  "is_ascii_lowercase c \<longleftrightarrow> 97 \<le> (of_char c :: nat) \<and> of_char c \<le> (122 :: nat)"

definition is_ascii_digit :: "char \<Rightarrow> bool" where
  "is_ascii_digit c \<longleftrightarrow> 48 \<le> (of_char c :: nat) \<and> of_char c \<le> (57 :: nat)"

definition to_ascii_lowercase :: "char \<Rightarrow> char" where
  "to_ascii_lowercase c =
     (if 65 \<le> (of_char c :: nat) \<and> of_char c \<le> (90 :: nat)
      then char_of (of_char c + 32 :: nat) else c)"

definition eq_ignore_ascii_case :: "string \<Rightarrow> string \<Rightarrow> bool" where
  "eq_ignore_ascii_case a b \<longleftrightarrow> map to_ascii_lowercase a = map to_ascii_lowercase b"

text \<open>\<^verbatim>\<open>str::parse\<close> for an unsigned integer of \<open>w\<close> bits: an optional plus sign and decimal digits.\<close>

definition digits_value :: "string \<Rightarrow> nat" where
  "digits_value s = foldl (\<lambda>n c. 10 * n + (of_char c - 48)) 0 s"

definition parse_unsigned :: "nat \<Rightarrow> string \<Rightarrow> nat option" where
  "parse_unsigned w s =
     (let ds = (case s of c # cs \<Rightarrow> if c = CHR ''+'' then cs else s | [] \<Rightarrow> []) in
      if ds = [] \<or> \<not> list_all is_ascii_digit ds \<or> 2 ^ w \<le> digits_value ds then None else Some (digits_value ds))"

text \<open>\<^verbatim>\<open>u64::to_string\<close>: decimal digits, no leading zero.\<close>

fun to_string :: "nat \<Rightarrow> string" where
  "to_string n = (if n < 10 then [char_of (48 + n)]
                  else to_string (n div 10) @ [char_of (48 + n mod 10)])"

declare to_string.simps [simp del]

lemma starts_with_iff [rust_str]: "starts_with s p \<longleftrightarrow> (\<exists>r. s = p @ r)"
  unfolding starts_with_def by (metis append_eq_conv_conj append_take_drop_id)

lemma ends_with_iff [rust_str]: "ends_with s p \<longleftrightarrow> (\<exists>r. s = r @ p)"
proof
  assume "ends_with s p"
  then have "s = take (length s - length p) s @ p"
    unfolding ends_with_def by (metis append_take_drop_id)
  then show "\<exists>r. s = r @ p" ..
next
  assume "\<exists>r. s = r @ p"
  then show "ends_with s p" by (auto simp: ends_with_def)
qed

lemma starts_with_append [simp]: "starts_with (p @ r) p"
  by (auto simp: starts_with_iff)

lemma ends_with_append [simp]: "ends_with (r @ p) p"
  by (auto simp: ends_with_iff)

lemma contains_iff [rust_str]: "contains s p \<longleftrightarrow> (\<exists>a b. s = a @ p @ b)"
proof (induction s)
  case Nil
  then show ?case by auto
next
  case (Cons c s)
  show ?case
  proof
    assume "contains (c # s) p"
    then consider "starts_with (c # s) p" | "contains s p" by auto
    then show "\<exists>a b. c # s = a @ p @ b"
    proof cases
      case 1
      then show ?thesis by (metis append_Nil starts_with_iff)
    next
      case 2
      with Cons.IH obtain a b where "s = a @ p @ b" by blast
      then have "c # s = (c # a) @ p @ b" by simp
      then show ?thesis by blast
    qed
  next
    assume "\<exists>a b. c # s = a @ p @ b"
    then obtain a b where ab: "c # s = a @ p @ b" by blast
    show "contains (c # s) p"
    proof (cases a)
      case Nil
      with ab have "starts_with (c # s) p" by (simp add: starts_with_iff)
      then show ?thesis by simp
    next
      case (Cons x a')
      with ab have "s = a' @ p @ b" by simp
      with Cons.IH show ?thesis by auto
    qed
  qed
qed

lemma strip_suffix_Some [rust_str]: "strip_suffix s p = Some r \<longleftrightarrow> s = r @ p"
  by (auto simp: strip_suffix_def ends_with_iff)

lemma strip_suffix_None [rust_str]: "strip_suffix s p = None \<longleftrightarrow> (\<forall>r. s \<noteq> r @ p)"
  by (auto simp: strip_suffix_def ends_with_iff)

lemma strip_prefix_Some [rust_str]: "strip_prefix s p = Some r \<longleftrightarrow> s = p @ r"
  by (auto simp: strip_prefix_def starts_with_iff)

lemma split_on_not_Nil [simp]: "split_on d s \<noteq> []"
  by (induction s) (auto split: list.splits)

lemma split_on_no_sep: "d \<notin> set s \<Longrightarrow> split_on d s = [s]"
  by (induction s) auto

lemma split_on_append: "d \<notin> set a \<Longrightarrow> split_on d (a @ d # s) = a # split_on d s"
  by (induction a) auto

subsection \<open>Hash maps and optional values\<close>

text \<open>
  Collecting an iterator of pairs into a \<^verbatim>\<open>HashMap\<close>: a later pair replaces an earlier one
  with the same key. The iteration order of a \<^verbatim>\<open>HashMap\<close> or \<^verbatim>\<open>HashSet\<close> is unspecified in
  Rust; the model fixes one order and the theorems speak of the sets of results only.
\<close>

definition collect_map :: "('k \<times> 'v) list \<Rightarrow> ('k \<rightharpoonup> 'v)" where
  "collect_map kvs = map_of (rev kvs)"

lemma dom_collect_map: "dom (collect_map kvs) = fst ` set kvs"
  by (simp add: collect_map_def dom_map_of_conv_image_fst)

lemma collect_map_Some_in: "collect_map kvs k = Some v \<Longrightarrow> (k, v) \<in> set kvs"
  by (auto simp: collect_map_def dest: map_of_SomeD)

lemma collect_map_distinct:
  "distinct (map fst kvs) \<Longrightarrow> collect_map kvs k = Some v \<longleftrightarrow> (k, v) \<in> set kvs"
  by (simp add: collect_map_def rev_map [symmetric])

text \<open>The maximum of optional values, missing ones ignored: \<^verbatim>\<open>[a, b].into_iter().flatten().max()\<close>.\<close>

lemma max_option_None [simp]:
  fixes a :: "'a::linorder option"
  shows "max None a = a" and "max a None = a"
  by (simp_all add: max_def less_eq_option_def split: option.splits)

lemma max_option_Some [simp]:
  fixes a b :: "'a::linorder"
  shows "max (Some a) (Some b) = Some (max a b)"
  by (simp add: max_def)

lemma max_option_eq_None [simp]:
  fixes a b :: "'a::linorder option"
  shows "max a b = None \<longleftrightarrow> a = None \<and> b = None"
  by (cases a; cases b) auto

lemma pair_of_pair: obtains a b c where "x = ((a, b), c)"
  by (cases x) auto

end
