(* ===== verification/Policy.thy ===== *)
theory Policy
  imports Arca_Prelude
begin

section \<open>The policy engine (crates/arca-core/src/policy.rs)\<close>

text \<open>
  IAM-style policy documents, the glob matcher their resources are matched with, the
  deny-overrides evaluation of statements, documents and grant lists, and the validation of a
  document. The locale \<open>deny_overrides\<close> is the contract the document loop and the grant loop
  share; both are interpretations of it.
\<close>

subsection \<open>Actions\<close>

text \<open>The table of known actions, \<^verbatim>\<open>actions::ALL_KNOWN\<close>.\<close>

definition ALL_KNOWN :: "string list" where
  "ALL_KNOWN =
    [''s3:CreateBucket'', ''s3:DeleteBucket'', ''s3:ListBucket'', ''s3:ListAllMyBuckets'',
     ''s3:GetBucketLocation'', ''s3:GetBucketEncryption'', ''s3:PutBucketEncryption'',
     ''s3:DeleteBucketEncryption'', ''s3:GetObject'', ''s3:PutObject'', ''s3:DeleteObject'',
     ''s3:GetBucketObjectLockConfiguration'', ''s3:PutBucketObjectLockConfiguration'',
     ''s3:GetObjectRetention'', ''s3:PutObjectRetention'', ''s3:GetObjectLegalHold'',
     ''s3:PutObjectLegalHold'', ''s3:BypassGovernanceRetention'',
     ''arca:ViewServerInfo'', ''arca:ManageUsers'', ''arca:ManageTeams'', ''arca:ManageGrants'',
     ''arca:ManageCredentials'', ''arca:CreatePresignedUrl'', ''arca:CreateArchive'']"

definition is_valid_action :: "string \<Rightarrow> bool" where
  "is_valid_action action \<longleftrightarrow>
     action = ''*'' \<or> action = ''s3:*'' \<or> action = ''arca:*'' \<or> action \<in> set ALL_KNOWN"

subsection \<open>Documents\<close>

datatype effect = Effect_Allow | Effect_Deny

record Statement =
  sid :: "string option"
  effect :: effect
  action :: "string list"
  resource :: "string list"

record PolicyDocument =
  version :: string
  statement :: "Statement list"

datatype evaluation = Allow | Deny | NoMatch

subsection \<open>Matching\<close>

definition matches_action :: "string \<Rightarrow> string \<Rightarrow> bool" where
  "matches_action pattern act =
     (if pattern = ''*'' then True
      else case strip_suffix pattern ''*'' of
             Some prefix \<Rightarrow> starts_with act prefix
           | None \<Rightarrow> pattern = act)"

text \<open>
  The loop of \<^verbatim>\<open>glob_match\<close>. The pair \<^verbatim>\<open>(star_pi, star_ti)\<close> is \<^const>\<open>None\<close> while
  \<^verbatim>\<open>star_pi == usize::MAX\<close>. The second loop and the final comparison are
  \<open>glob_tail\<close>.
\<close>

function glob_tail :: "string \<Rightarrow> nat \<Rightarrow> bool" where
  "glob_tail pat p =
     (if p < length pat \<and> pat ! p = CHR ''*'' then glob_tail pat (Suc p) else p = length pat)"
  by pat_completeness auto
termination
  by (relation "measure (\<lambda>(pat, p). length pat - p)") auto

declare glob_tail.simps [simp del]

definition star_stale :: "nat \<Rightarrow> nat \<Rightarrow> (nat \<times> nat) option \<Rightarrow> nat" where
  "star_stale p t star =
     (case star of None \<Rightarrow> 0 | Some (sp, st) \<Rightarrow> if sp < p \<and> st \<le> t then 0 else 1)"

text \<open>
  The loop ends from every state: a new star moves \<^verbatim>\<open>star_pi\<close> right, a retry moves
  \<^verbatim>\<open>star_ti\<close> right, a match moves \<^verbatim>\<open>ti\<close> right. A recorded star that is not behind the
  cursors, which the code never produces, is gone after one step.
\<close>

function glob_loop ::
  "string \<Rightarrow> string \<Rightarrow> nat \<Rightarrow> nat \<Rightarrow> (nat \<times> nat) option \<Rightarrow> bool" where
  "glob_loop pat txt p t star =
     (if t < length txt then
        if p < length pat \<and> (pat ! p = CHR ''?'' \<or> pat ! p = txt ! t)
        then glob_loop pat txt (Suc p) (Suc t) star
        else if p < length pat \<and> pat ! p = CHR ''*''
        then glob_loop pat txt (Suc p) t (Some (p, t))
        else (case star of
                Some (sp, st) \<Rightarrow> glob_loop pat txt (Suc sp) (Suc st) (Some (sp, Suc st))
              | None \<Rightarrow> False)
      else glob_tail pat p)"
  by pat_completeness auto
termination
proof (relation "measures
    [\<lambda>(pat, txt, p, t, star). star_stale p t star,
     \<lambda>(pat, txt, p, t, star). case star of None \<Rightarrow> Suc (length pat) | Some (sp, st) \<Rightarrow> length pat - sp,
     \<lambda>(pat, txt, p, t, star). case star of None \<Rightarrow> 0 | Some (sp, st) \<Rightarrow> length txt - st,
     \<lambda>(pat, txt, p, t, star). length txt - t]", goal_cases)
  case 1
  then show ?case by simp
next
  case (2 pt tx p t star)
  then show ?case by (auto simp: star_stale_def split: option.splits)
next
  case (3 pt tx p t star)
  then show ?case by (auto simp: star_stale_def split: option.splits)
next
  case (4 pt tx p t star x2 a b)
  then show ?case by (auto simp: star_stale_def)
qed

declare glob_loop.simps [simp del]

definition glob_match :: "string \<Rightarrow> string \<Rightarrow> bool" where
  "glob_match pattern text = glob_loop pattern text 0 0 None"

definition matches_resource :: "string \<Rightarrow> string \<Rightarrow> bool" where
  "matches_resource pattern res = (if pattern = ''*'' then True else glob_match pattern res)"

subsection \<open>Evaluation\<close>

definition evaluate_statement :: "Statement \<Rightarrow> string \<Rightarrow> string \<Rightarrow> evaluation" where
  "evaluate_statement stmt act res =
     (if \<not> list_ex (\<lambda>p. matches_action p act) (action stmt) then NoMatch
      else if \<not> list_ex (\<lambda>p. matches_resource p res) (resource stmt) then NoMatch
      else case effect stmt of Effect_Allow \<Rightarrow> Allow | Effect_Deny \<Rightarrow> Deny)"

fun evaluate_policy_loop :: "Statement list \<Rightarrow> string \<Rightarrow> string \<Rightarrow> bool \<Rightarrow> evaluation" where
  "evaluate_policy_loop [] act res found_allow = (if found_allow then Allow else NoMatch)"
| "evaluate_policy_loop (stmt # stmts) act res found_allow =
     (case evaluate_statement stmt act res of
        Deny \<Rightarrow> Deny
      | Allow \<Rightarrow> evaluate_policy_loop stmts act res True
      | NoMatch \<Rightarrow> evaluate_policy_loop stmts act res found_allow)"

definition evaluate_policy :: "PolicyDocument \<Rightarrow> string \<Rightarrow> string \<Rightarrow> evaluation" where
  "evaluate_policy doc act res = evaluate_policy_loop (statement doc) act res False"

fun evaluate_grants_loop :: "PolicyDocument list \<Rightarrow> string \<Rightarrow> string \<Rightarrow> bool \<Rightarrow> evaluation" where
  "evaluate_grants_loop [] act res found_allow = (if found_allow then Allow else NoMatch)"
| "evaluate_grants_loop (doc # docs) act res found_allow =
     (case evaluate_policy doc act res of
        Deny \<Rightarrow> Deny
      | Allow \<Rightarrow> evaluate_grants_loop docs act res True
      | NoMatch \<Rightarrow> evaluate_grants_loop docs act res found_allow)"

definition evaluate_grants :: "PolicyDocument list \<Rightarrow> string \<Rightarrow> string \<Rightarrow> evaluation" where
  "evaluate_grants grants act res = evaluate_grants_loop grants act res False"

subsection \<open>Validation\<close>

definition is_valid_resource :: "string \<Rightarrow> bool" where
  "is_valid_resource res = (if res = ''*'' then True else starts_with res ''arn:aws:s3:::'')"

text \<open>
  A validation error, with the label of the statement it is about: the statement's
  \<^verbatim>\<open>sid\<close>, or its index when it has none. The code renders each as one message.
\<close>

datatype label = Sid string | Index nat

datatype policy_error =
    UnsupportedVersion string
  | NoStatement
  | EmptyAction label
  | UnknownAction label string
  | EmptyResource label
  | InvalidResource label string

definition statement_label :: "nat \<Rightarrow> Statement \<Rightarrow> label" where
  "statement_label i stmt = (case sid stmt of Some s \<Rightarrow> Sid s | None \<Rightarrow> Index i)"

definition validate_statement :: "nat \<Rightarrow> Statement \<Rightarrow> policy_error list" where
  "validate_statement i stmt =
     (let label = statement_label i stmt in
        (if action stmt = [] then [EmptyAction label] else []) @
        map (UnknownAction label) (filter (\<lambda>a. \<not> is_valid_action a) (action stmt)) @
        (if resource stmt = [] then [EmptyResource label] else []) @
        map (InvalidResource label) (filter (\<lambda>r. \<not> is_valid_resource r) (resource stmt)))"

fun validate_statements :: "nat \<Rightarrow> Statement list \<Rightarrow> policy_error list" where
  "validate_statements i [] = []"
| "validate_statements i (stmt # stmts) =
     validate_statement i stmt @ validate_statements (Suc i) stmts"

definition validate_policy_document :: "PolicyDocument \<Rightarrow> policy_error list" where
  "validate_policy_document doc =
     (if version doc \<noteq> ''2012-10-17'' then [UnsupportedVersion (version doc)] else []) @
     (if statement doc = [] then [NoStatement] else []) @
     validate_statements 0 (statement doc)"

subsection \<open>What the glob matcher computes\<close>

text \<open>
  The reference semantics of a glob pattern: a star stands for any sequence, a question mark
  for one character, everything else for itself.
\<close>

fun glob_spec :: "string \<Rightarrow> string \<Rightarrow> bool" where
  "glob_spec [] t = (t = [])"
| "glob_spec (x # p) t =
     (if x = CHR ''*''
      then glob_spec p t \<or> (case t of [] \<Rightarrow> False | c # t' \<Rightarrow> glob_spec (x # p) t')
      else (case t of [] \<Rightarrow> False | c # t' \<Rightarrow> (x = CHR ''?'' \<or> x = c) \<and> glob_spec p t'))"

declare glob_spec.simps(2) [simp del]

lemma glob_spec_char [simp]:
  "x \<noteq> CHR ''*'' \<Longrightarrow> glob_spec (x # p) (c # t) \<longleftrightarrow> (x = CHR ''?'' \<or> x = c) \<and> glob_spec p t"
  "x \<noteq> CHR ''*'' \<Longrightarrow> \<not> glob_spec (x # p) []"
  by (simp_all add: glob_spec.simps(2))

lemma glob_spec_star:
  "glob_spec (CHR ''*'' # p) t \<longleftrightarrow> (\<exists>k \<le> length t. glob_spec p (drop k t))"
proof (induction t)
  case Nil
  then show ?case by (simp add: glob_spec.simps(2))
next
  case (Cons c t)
  have "glob_spec (CHR ''*'' # p) (c # t) \<longleftrightarrow>
      glob_spec p (c # t) \<or> (\<exists>k \<le> length t. glob_spec p (drop (Suc k) (c # t)))"
    using Cons.IH by (simp add: glob_spec.simps(2))
  also have "\<dots> \<longleftrightarrow> (\<exists>k \<le> length (c # t). glob_spec p (drop k (c # t)))"
    by (metis Suc_le_mono drop_0 le0 length_Cons not0_implies_Suc)
  finally show ?case .
qed

lemma glob_spec_segment:
  "CHR ''*'' \<notin> set seg \<Longrightarrow> glob_spec (seg @ p) t \<Longrightarrow>
     length seg \<le> length t \<and> glob_spec p (drop (length seg) t)"
proof (induction seg arbitrary: t)
  case Nil
  then show ?case by simp
next
  case (Cons x seg)
  then show ?case by (cases t) auto
qed

lemma glob_tail_spec: "p \<le> length pat \<Longrightarrow> glob_tail pat p \<longleftrightarrow> glob_spec (drop p pat) []"
proof (induction pat p rule: glob_tail.induct)
  case (1 pat p)
  show ?case
  proof (cases "p < length pat")
    case True
    then have "drop p pat = pat ! p # drop (Suc p) pat" by (simp add: Cons_nth_drop_Suc)
    with 1 True show ?thesis
      by (cases "pat ! p = CHR ''*''") (auto simp: glob_tail.simps [of pat p] glob_spec_star)
  next
    case False
    with "1.prems" show ?thesis by (subst glob_tail.simps) simp
  qed
qed

text \<open>
  The state of the search: what lies between the last star and the pattern cursor is star-free
  and has been matched against as many characters.
\<close>

definition star_ok :: "string \<Rightarrow> nat \<Rightarrow> nat \<Rightarrow> (nat \<times> nat) option \<Rightarrow> bool" where
  "star_ok pat p t star \<longleftrightarrow>
     (case star of None \<Rightarrow> True
      | Some (sp, st) \<Rightarrow> sp < p \<and> st \<le> t \<and> p - Suc sp = t - st \<and>
          CHR ''*'' \<notin> set (take (p - Suc sp) (drop (Suc sp) pat)))"

definition star_retry :: "string \<Rightarrow> string \<Rightarrow> (nat \<times> nat) option \<Rightarrow> bool" where
  "star_retry pat tx star \<longleftrightarrow>
     (case star of None \<Rightarrow> False
      | Some (sp, st) \<Rightarrow> \<exists>k. st < k \<and> k \<le> length tx \<and> glob_spec (drop (Suc sp) pat) (drop k tx))"

lemma star_retry_None [simp]: "\<not> star_retry pat tx None"
  by (simp add: star_retry_def)

lemma star_retry_absorbed:
  assumes ok: "star_ok pat p t star" and p: "p \<le> length pat" and retry: "star_retry pat tx star"
  shows "\<exists>k. t < k \<and> k \<le> length tx \<and> glob_spec (drop p pat) (drop k tx)"
proof -
  from retry obtain sp st k where star: "star = Some (sp, st)" and k: "st < k" "k \<le> length tx"
    and spec: "glob_spec (drop (Suc sp) pat) (drop k tx)"
    by (auto simp: star_retry_def split: option.splits)
  define seg where "seg = take (p - Suc sp) (drop (Suc sp) pat)"
  from ok star have sp: "sp < p" and st: "st \<le> t" and len: "p - Suc sp = t - st"
    and nostar: "CHR ''*'' \<notin> set seg"
    by (auto simp: star_ok_def seg_def)
  have split: "drop (Suc sp) pat = seg @ drop p pat"
    using sp by (simp add: seg_def) (metis Suc_leI append_take_drop_id drop_drop le_add_diff_inverse2)
  have seglen: "length seg = t - st" using p len by (simp add: seg_def)
  from glob_spec_segment [OF nostar, of "drop p pat" "drop k tx"] spec split
  have "length seg \<le> length tx - k" "glob_spec (drop p pat) (drop (k + length seg) tx)"
    by (simp_all add: add.commute)
  then show ?thesis using k st seglen
    by (intro exI [of _ "k + length seg"]) auto
qed

lemma star_retry_step:
  "st < length tx \<Longrightarrow> star_retry pat tx (Some (sp, st)) \<longleftrightarrow>
     glob_spec (drop (Suc sp) pat) (drop (Suc st) tx) \<or> star_retry pat tx (Some (sp, Suc st))"
  unfolding star_retry_def by simp (metis Suc_leI Suc_lessD less_antisym not_less_eq)

lemma star_ok_advance:
  assumes "star_ok pat p t star" "p < length pat" "pat ! p \<noteq> CHR ''*''"
  shows "star_ok pat (Suc p) (Suc t) star"
proof (cases star)
  case None
  then show ?thesis by (simp add: star_ok_def)
next
  case (Some pr)
  obtain sp st where pr: "pr = (sp, st)" by (cases pr)
  from assms(1) Some pr have *: "sp < p" "st \<le> t" "p - Suc sp = t - st"
    "CHR ''*'' \<notin> set (take (p - Suc sp) (drop (Suc sp) pat))"
    by (auto simp: star_ok_def)
  have sp: "Suc p - Suc sp = Suc (p - Suc sp)" "Suc sp + (p - Suc sp) = p" using * by simp_all
  have "take (Suc p - Suc sp) (drop (Suc sp) pat) =
      take (p - Suc sp) (drop (Suc sp) pat) @ [pat ! p]"
    unfolding sp(1) using sp(2) assms(2) by (subst take_Suc_conv_app_nth) auto
  with * assms(3) Some pr show ?thesis by (auto simp: star_ok_def)
qed

lemma glob_spec_star_drop:
  assumes "p < length pat" and "pat ! p = CHR ''*''" and "t \<le> length tx"
  shows "glob_spec (drop p pat) (drop t tx) \<longleftrightarrow>
    (\<exists>k. t \<le> k \<and> k \<le> length tx \<and> glob_spec (drop (Suc p) pat) (drop k tx))"
proof -
  have dp: "drop p pat = CHR ''*'' # drop (Suc p) pat" using assms by (metis Cons_nth_drop_Suc)
  show ?thesis
  proof
    assume "glob_spec (drop p pat) (drop t tx)"
    then obtain k where "k \<le> length tx - t" "glob_spec (drop (Suc p) pat) (drop (t + k) tx)"
      unfolding dp glob_spec_star by (auto simp: add.commute)
    then show "\<exists>k. t \<le> k \<and> k \<le> length tx \<and> glob_spec (drop (Suc p) pat) (drop k tx)"
      using assms(3) by (intro exI [of _ "t + k"]) auto
  next
    assume "\<exists>k. t \<le> k \<and> k \<le> length tx \<and> glob_spec (drop (Suc p) pat) (drop k tx)"
    then obtain k where "t \<le> k" "k \<le> length tx" "glob_spec (drop (Suc p) pat) (drop k tx)" by blast
    then show "glob_spec (drop p pat) (drop t tx)"
      unfolding dp glob_spec_star by (intro exI [of _ "k - t"]) auto
  qed
qed

lemma glob_spec_mismatch:
  assumes "t < length tx" and "\<not> (p < length pat \<and> (pat ! p = CHR ''?'' \<or> pat ! p = tx ! t))"
    and "\<not> (p < length pat \<and> pat ! p = CHR ''*'')"
  shows "\<not> glob_spec (drop p pat) (drop t tx)"
proof -
  have dt: "drop t tx = tx ! t # drop (Suc t) tx" using assms(1) by (simp add: Cons_nth_drop_Suc)
  show ?thesis
  proof (cases "p < length pat")
    case True
    then have "drop p pat = pat ! p # drop (Suc p) pat" by (simp add: Cons_nth_drop_Suc)
    with True assms dt show ?thesis by simp
  qed (simp add: dt)
qed

text \<open>One lemma per branch of the loop body.\<close>

lemma glob_loop_at_star:
  assumes "t < length tx" and "p < length pat" and "pat ! p = CHR ''*''" and "tx ! t \<noteq> CHR ''*''"
    and ok: "star_ok pat p t star"
    and IH: "glob_loop pat tx (Suc p) t (Some (p, t)) \<longleftrightarrow>
      glob_spec (drop (Suc p) pat) (drop t tx) \<or> star_retry pat tx (Some (p, t))"
  shows "glob_loop pat tx p t star \<longleftrightarrow> glob_spec (drop p pat) (drop t tx) \<or> star_retry pat tx star"
proof -
  have "glob_loop pat tx p t star = glob_loop pat tx (Suc p) t (Some (p, t))"
    using assms(1-4) by (subst glob_loop.simps) auto
  also have "\<dots> \<longleftrightarrow> glob_spec (drop p pat) (drop t tx)"
    unfolding IH using assms(1-3) by (auto simp: glob_spec_star_drop star_retry_def le_less)
  finally have loop: "glob_loop pat tx p t star \<longleftrightarrow> glob_spec (drop p pat) (drop t tx)" .
  have "glob_spec (drop p pat) (drop t tx)" if retry: "star_retry pat tx star"
  proof -
    from star_retry_absorbed [OF ok _ retry] assms(2) obtain k where
      k: "t < k" "k \<le> length tx" "glob_spec (drop p pat) (drop k tx)" by auto
    then obtain j where "k \<le> j" "j \<le> length tx" "glob_spec (drop (Suc p) pat) (drop j tx)"
      using glob_spec_star_drop [OF assms(2,3) k(2)] by blast
    with k(1) assms(1-3) show ?thesis by (auto simp: glob_spec_star_drop intro: exI [of _ j])
  qed
  with loop show ?thesis by blast
qed

lemma glob_loop_at_mismatch:
  assumes "t < length tx" and mismatch: "\<not> (p < length pat \<and> (pat ! p = CHR ''?'' \<or> pat ! p = tx ! t))"
    "\<not> (p < length pat \<and> pat ! p = CHR ''*'')"
    and ok: "star_ok pat p t star"
    and IH: "\<And>sp st. star = Some (sp, st) \<Longrightarrow> glob_loop pat tx (Suc sp) (Suc st) (Some (sp, Suc st)) \<longleftrightarrow>
      glob_spec (drop (Suc sp) pat) (drop (Suc st) tx) \<or> star_retry pat tx (Some (sp, Suc st))"
  shows "glob_loop pat tx p t star \<longleftrightarrow> glob_spec (drop p pat) (drop t tx) \<or> star_retry pat tx star"
proof (cases star)
  case None
  with assms(1) mismatch glob_spec_mismatch [OF assms(1) mismatch] show ?thesis
    by (subst glob_loop.simps) auto
next
  case (Some pr)
  then obtain sp st where star: "star = Some (sp, st)" by (cases pr) auto
  with ok assms(1) have "st < length tx" by (auto simp: star_ok_def)
  moreover have "glob_loop pat tx p t star = glob_loop pat tx (Suc sp) (Suc st) (Some (sp, Suc st))"
    using assms(1) mismatch star by (subst glob_loop.simps) auto
  ultimately show ?thesis
    using IH [OF star] glob_spec_mismatch [OF assms(1) mismatch] star_retry_step [of st tx pat sp] star
    by simp
qed

lemma glob_loop_spec:
  assumes "CHR ''*'' \<notin> set tx"
  shows "p \<le> length pat \<Longrightarrow> t \<le> length tx \<Longrightarrow> star_ok pat p t star \<Longrightarrow>
    glob_loop pat tx p t star \<longleftrightarrow> glob_spec (drop p pat) (drop t tx) \<or> star_retry pat tx star"
  using assms
proof (induction pat tx p t star rule: glob_loop.induct)
  case (1 pat tx p t star)
  note ok = "1.prems"(3)
  show ?case
  proof (cases "t < length tx")
    case False
    then have t: "t = length tx" using "1.prems" by simp
    then have "\<not> star_retry pat tx star"
      using star_retry_absorbed [OF ok "1.prems"(1), of tx] by auto
    with False t "1.prems" show ?thesis
      by (subst glob_loop.simps) (simp add: glob_tail_spec)
  next
    case tlen: True
    then have tstar: "tx ! t \<noteq> CHR ''*''" using "1.prems"(4) by (metis nth_mem)
    consider (match) "p < length pat" "pat ! p = CHR ''?'' \<or> pat ! p = tx ! t"
      | (star) "p < length pat" "\<not> (pat ! p = CHR ''?'' \<or> pat ! p = tx ! t)" "pat ! p = CHR ''*''"
      | (fail) "\<not> (p < length pat \<and> (pat ! p = CHR ''?'' \<or> pat ! p = tx ! t))"
          "\<not> (p < length pat \<and> pat ! p = CHR ''*'')"
      by blast
    then show ?thesis
    proof cases
      case match
      then have ns: "pat ! p \<noteq> CHR ''*''" using tstar by auto
      have dp: "drop p pat = pat ! p # drop (Suc p) pat" using match by (simp add: Cons_nth_drop_Suc)
      have dt: "drop t tx = tx ! t # drop (Suc t) tx" using tlen by (simp add: Cons_nth_drop_Suc)
      have "glob_loop pat tx p t star = glob_loop pat tx (Suc p) (Suc t) star"
        using tlen match by (simp add: glob_loop.simps [of pat tx p t star])
      also have "\<dots> \<longleftrightarrow> glob_spec (drop (Suc p) pat) (drop (Suc t) tx) \<or> star_retry pat tx star"
        using "1.IH"(1) tlen match "1.prems" star_ok_advance [OF ok match(1) ns] by simp
      finally show ?thesis using dp dt ns match by auto
    next
      case star
      have "glob_loop pat tx (Suc p) t (Some (p, t)) \<longleftrightarrow>
          glob_spec (drop (Suc p) pat) (drop t tx) \<or> star_retry pat tx (Some (p, t))"
        using "1.IH"(2) tlen star "1.prems" by (simp add: star_ok_def)
      then show ?thesis by (rule glob_loop_at_star [OF tlen star(1,3) tstar ok])
    next
      case fail
      have "glob_loop pat tx (Suc sp) (Suc st) (Some (sp, Suc st)) \<longleftrightarrow>
          glob_spec (drop (Suc sp) pat) (drop (Suc st) tx) \<or> star_retry pat tx (Some (sp, Suc st))"
        if "star = Some (sp, st)" for sp st
        using "1.IH"(3) [OF tlen fail that refl] ok that tlen "1.prems" by (simp add: star_ok_def)
      then show ?thesis by (rule glob_loop_at_mismatch [OF tlen fail ok])
    qed
  qed
qed

text \<open>
  C5: on every text without a literal star, the backtracking matcher that only remembers the
  last star decides exactly the glob semantics.
\<close>

theorem glob_match_correct:
  assumes "CHR ''*'' \<notin> set txt"
  shows "glob_match pattern txt \<longleftrightarrow> glob_spec pattern txt"
  using glob_loop_spec [OF assms, of 0 pattern 0 None]
  by (simp add: glob_match_def star_ok_def)

theorem glob_match_correct_witness:
  "CHR ''*'' \<notin> set ''b/xaby'' \<and> glob_match ''b/*ab?'' ''b/xaby''"
proof -
  have h: "CHR ''*'' \<notin> set ''b/xaby''" by simp
  have "glob_spec ''b/*ab?'' ''b/xaby''" by code_simp
  with glob_match_correct [OF h, of "''b/*ab?''"] h show ?thesis by blast
qed

lemma glob_loop_common_prefix:
  "i \<le> length pre \<Longrightarrow>
     glob_loop (pre @ p) (pre @ t) 0 0 None = glob_loop (pre @ p) (pre @ t) i i None"
proof (induction i)
  case 0
  then show ?case by simp
next
  case (Suc i)
  then have "glob_loop (pre @ p) (pre @ t) i i None = glob_loop (pre @ p) (pre @ t) (Suc i) (Suc i) None"
    by (subst glob_loop.simps) (simp add: nth_append)
  with Suc show ?case by simp
qed

lemma glob_match_literal_star: "\<not> glob_match (pre @ ''*'') (pre @ CHR ''*'' # c # r)"
proof -
  let ?p = "pre @ ''*''" and ?t = "pre @ CHR ''*'' # c # r" and ?n = "length pre"
  have "glob_match ?p ?t = glob_loop ?p ?t ?n ?n None"
    unfolding glob_match_def by (rule glob_loop_common_prefix) simp
  also have "\<dots> = glob_loop ?p ?t (Suc ?n) (Suc ?n) None"
    by (subst glob_loop.simps) (simp add: nth_append)
  also have "\<not> \<dots>" by (subst glob_loop.simps) (simp add: nth_append)
  finally show ?thesis by simp
qed

subsection \<open>Deny overrides\<close>

text \<open>
  The contract of an evaluation loop: it folds the verdicts of its elements with a flag that
  remembers an allow and returns at the first deny.
\<close>

locale deny_overrides =
  fixes eval :: "'d \<Rightarrow> evaluation"
    and combine :: "'d list \<Rightarrow> bool \<Rightarrow> evaluation"
  assumes combine_Nil: "combine [] b = (if b then Allow else NoMatch)"
    and combine_Cons: "combine (d # ds) b =
      (case eval d of Deny \<Rightarrow> Deny | Allow \<Rightarrow> combine ds True | NoMatch \<Rightarrow> combine ds b)"
begin

lemma combine_eq:
  "combine ds b =
     (if \<exists>d \<in> set ds. eval d = Deny then Deny
      else if b \<or> (\<exists>d \<in> set ds. eval d = Allow) then Allow else NoMatch)"
  by (induction ds arbitrary: b) (auto simp: combine_Nil combine_Cons split: evaluation.splits)

lemma combine_Deny_iff: "combine ds b = Deny \<longleftrightarrow> (\<exists>d \<in> set ds. eval d = Deny)"
  by (simp add: combine_eq)

lemma combine_Allow_iff:
  "combine ds b = Allow \<longleftrightarrow>
     (\<forall>d \<in> set ds. eval d \<noteq> Deny) \<and> (b \<or> (\<exists>d \<in> set ds. eval d = Allow))"
  by (auto simp: combine_eq)

lemma combine_set_cong: "set ds = set ds' \<Longrightarrow> combine ds b = combine ds' b"
  by (simp add: combine_eq)

end

interpretation stmts: deny_overrides
  "\<lambda>stmt. evaluate_statement stmt act res" "\<lambda>ss. evaluate_policy_loop ss act res" for act res
  by unfold_locales simp_all

interpretation docs: deny_overrides
  "\<lambda>doc. evaluate_policy doc act res" "\<lambda>ds. evaluate_grants_loop ds act res" for act res
  by unfold_locales simp_all

lemmas evaluate_policy_iff =
  stmts.combine_Deny_iff [of _ _ _ False, folded evaluate_policy_def]
  stmts.combine_Allow_iff [of _ _ _ False, folded evaluate_policy_def]

lemmas evaluate_grants_iff =
  docs.combine_Deny_iff [of _ _ _ False, folded evaluate_grants_def]
  docs.combine_Allow_iff [of _ _ _ False, folded evaluate_grants_def]

definition all_statements :: "PolicyDocument list \<Rightarrow> Statement list" where
  "all_statements grants = concat (map statement grants)"

text \<open>
  C10: the verdict of a grant list is the deny-overrides verdict of all its statements together:
  denied exactly when some statement of some document denies, allowed exactly when none denies
  and some allows, and otherwise an implicit deny.
\<close>

theorem evaluate_grants_deny_overrides:
  "evaluate_grants grants act res =
     (if \<exists>stmt \<in> set (all_statements grants). evaluate_statement stmt act res = Deny then Deny
      else if \<exists>stmt \<in> set (all_statements grants). evaluate_statement stmt act res = Allow then Allow
      else NoMatch)"
proof -
  have deny: "evaluate_grants grants act res = Deny \<longleftrightarrow>
      (\<exists>stmt \<in> set (all_statements grants). evaluate_statement stmt act res = Deny)"
    by (auto simp: evaluate_grants_iff(1) evaluate_policy_iff(1) [unfolded evaluate_policy_def]
        evaluate_policy_def all_statements_def)
  have allow: "evaluate_grants grants act res = Allow \<longleftrightarrow>
      (\<forall>stmt \<in> set (all_statements grants). evaluate_statement stmt act res \<noteq> Deny) \<and>
      (\<exists>stmt \<in> set (all_statements grants). evaluate_statement stmt act res = Allow)"
    by (auto simp: evaluate_grants_def docs.combine_eq evaluate_policy_def stmts.combine_eq
        all_statements_def split: if_splits)
  show ?thesis
    using deny allow by (cases "evaluate_grants grants act res") auto
qed

text \<open>
  neither the order nor the repetition of grant documents can change a verdict, so a policy
  reached directly and through several teams counts once.
\<close>

theorem evaluate_grants_set:
  assumes "set grants = set grants'"
  shows "evaluate_grants grants act res = evaluate_grants grants' act res"
  unfolding evaluate_grants_def using assms by (rule docs.combine_set_cong)

definition allow_all :: PolicyDocument where
  "allow_all = \<lparr>version = ''2012-10-17'',
     statement = [\<lparr>sid = None, effect = Effect_Allow, action = [''*''], resource = [''*'']\<rparr>]\<rparr>"

definition deny_resource :: "string \<Rightarrow> PolicyDocument" where
  "deny_resource r = \<lparr>version = ''2012-10-17'',
     statement = [\<lparr>sid = None, effect = Effect_Deny, action = [''*''], resource = [r]\<rparr>]\<rparr>"

theorem evaluate_grants_set_witness:
  "evaluate_grants [allow_all, deny_resource ''x'', allow_all] ''s3:GetObject'' ''x'' =
   evaluate_grants [deny_resource ''x'', allow_all] ''s3:GetObject'' ''x''"
proof -
  have "set [allow_all, deny_resource ''x'', allow_all] = set [deny_resource ''x'', allow_all]" by auto
  then show ?thesis by (rule evaluate_grants_set)
qed

lemma glob_spec_prefix_star: "glob_spec (pre @ ''*'') (pre @ t)"
proof (induction pre)
  case Nil
  show ?case using glob_spec_star [of "[]" t] by auto
next
  case (Cons x pre)
  show ?case
  proof (cases "x = CHR ''*''")
    case True
    have "\<exists>k \<le> length ((x # pre) @ t). glob_spec (pre @ ''*'') (drop k ((x # pre) @ t))"
      using Cons.IH by (intro exI [of _ 1]) simp
    with True show ?thesis by (simp add: glob_spec_star)
  next
    case False
    with Cons.IH show ?thesis by simp
  qed
qed

text \<open>
  C20: a deny on every key below a prefix does not apply to a key that goes on with a literal
  star, although the pattern's glob semantics covers it: the matcher takes the pattern's star
  for an ordinary character, and a user with an otherwise unrestricted grant is allowed.
\<close>

theorem literal_star_escapes_deny:
  assumes "pre \<noteq> []"
  shows "glob_spec (pre @ ''*'') (pre @ CHR ''*'' # c # r) \<and>
    evaluate_grants [allow_all, deny_resource (pre @ ''*'')] act (pre @ CHR ''*'' # c # r) = Allow"
proof
  show "glob_spec (pre @ ''*'') (pre @ CHR ''*'' # c # r)" by (rule glob_spec_prefix_star)
  show "evaluate_grants [allow_all, deny_resource (pre @ ''*'')] act (pre @ CHR ''*'' # c # r) = Allow"
    using assms glob_match_literal_star [of pre c r]
    by (simp add: evaluate_grants_def evaluate_policy_def evaluate_statement_def allow_all_def
        deny_resource_def matches_action_def matches_resource_def)
qed

theorem literal_star_escapes_deny_witness:
  "evaluate_grants [allow_all, deny_resource ''arn:aws:s3:::vault/*''] ''s3:DeleteObject''
     ''arn:aws:s3:::vault/*secret'' = Allow"
  using literal_star_escapes_deny [of "''arn:aws:s3:::vault/''" "CHR ''s''" "''ecret''" "''s3:DeleteObject''"]
  by simp

subsection \<open>Validation\<close>

definition valid_statement :: "Statement \<Rightarrow> bool" where
  "valid_statement stmt \<longleftrightarrow> action stmt \<noteq> [] \<and> list_all is_valid_action (action stmt) \<and>
     resource stmt \<noteq> [] \<and> list_all is_valid_resource (resource stmt)"

lemma validate_statement_Nil: "validate_statement i stmt = [] \<longleftrightarrow> valid_statement stmt"
  by (auto simp: validate_statement_def valid_statement_def Let_def filter_empty_conv list_all_iff)

lemma validate_statements_Nil: "validate_statements i stmts = [] \<longleftrightarrow> list_all valid_statement stmts"
  by (induction stmts arbitrary: i) (auto simp: validate_statement_Nil)

text \<open>
  a document passes validation exactly when it has the supported version and at least one
  statement, and every statement names at least one action and one resource, all of them known
  actions (or the three wildcards) and S3 ARNs (or the wildcard).
\<close>

theorem validate_policy_document_iff:
  "validate_policy_document doc = [] \<longleftrightarrow>
     version doc = ''2012-10-17'' \<and> statement doc \<noteq> [] \<and> list_all valid_statement (statement doc)"
  by (auto simp: validate_policy_document_def validate_statements_Nil)

end
