(* ===== verification/Control_Types.thy ===== *)
theory Control_Types
  imports Policy "HOL-Library.Finite_Map"
begin

section \<open>Control-plane entities and snapshots (types.rs, cluster.rs, store/control_tombstone.rs)\<close>

text \<open>
  The rows of the control plane, the tombstones of deleted ones, the full snapshot two nodes
  exchange, and the plan of local writes computed from two snapshots. A field that several
  structs share carries its struct's initials.
\<close>

record Credential =
  access_key_id :: string
  secret_access_key :: string
  c_description :: string
  c_created_at :: timestamp
  active :: bool
  c_user_id :: string

record User =
  user_id :: string
  username :: string
  u_description :: string
  is_root :: bool
  u_created_at :: timestamp

record Team =
  team_id :: string
  t_name :: string
  t_description :: string
  t_created_at :: timestamp

record Grant =
  grant_id :: string
  g_name :: string
  g_description :: string
  document :: PolicyDocument
  g_created_at :: timestamp
  g_updated_at :: timestamp

record BucketInfo =
  b_name :: string
  b_created_at :: timestamp
  b_owner :: string

record MultipartUploadRecord =
  upload_id :: string
  mu_bucket :: string
  mu_key :: string
  mu_content_type :: "string option"
  initiated_at :: timestamp
  mu_metadata :: "(string, string) fmap"
  mu_checksum_algorithm :: "string option"
  mu_checksum_type :: "string option"
  initiator :: string

record PartRecord =
  p_upload_id :: string
  p_part_number :: nat
  p_blob_id :: string
  p_size :: nat
  p_etag :: string
  p_checksum_value :: "string option"
  p_last_modified :: "timestamp option"

record ControlTombstone =
  entity_type :: string
  entity_key :: string
  deleted_at :: timestamp

text \<open>The entity-type discriminators.\<close>

definition TOMBSTONE_CREDENTIAL :: string where "TOMBSTONE_CREDENTIAL = ''credential''"
definition TOMBSTONE_USER :: string where "TOMBSTONE_USER = ''user''"
definition TOMBSTONE_TEAM :: string where "TOMBSTONE_TEAM = ''team''"
definition TOMBSTONE_GRANT :: string where "TOMBSTONE_GRANT = ''grant''"
definition TOMBSTONE_BUCKET :: string where "TOMBSTONE_BUCKET = ''bucket''"
definition TOMBSTONE_USER_GRANT :: string where "TOMBSTONE_USER_GRANT = ''user_grant''"
definition TOMBSTONE_TEAM_GRANT :: string where "TOMBSTONE_TEAM_GRANT = ''team_grant''"
definition TOMBSTONE_TEAM_MEMBER :: string where "TOMBSTONE_TEAM_MEMBER = ''team_member''"
definition TOMBSTONE_BUCKET_CONFIG :: string where "TOMBSTONE_BUCKET_CONFIG = ''bucket_config''"
definition TOMBSTONE_BUCKET_TAGS :: string where "TOMBSTONE_BUCKET_TAGS = ''bucket_tags''"
definition TOMBSTONE_SERVER_CONFIG :: string where "TOMBSTONE_SERVER_CONFIG = ''server_config''"
definition TOMBSTONE_MULTIPART :: string where "TOMBSTONE_MULTIPART = ''multipart''"

lemmas tombstone_types =
  TOMBSTONE_CREDENTIAL_def TOMBSTONE_USER_def TOMBSTONE_TEAM_def TOMBSTONE_GRANT_def
  TOMBSTONE_BUCKET_def TOMBSTONE_USER_GRANT_def TOMBSTONE_TEAM_GRANT_def
  TOMBSTONE_TEAM_MEMBER_def TOMBSTONE_BUCKET_CONFIG_def TOMBSTONE_BUCKET_TAGS_def
  TOMBSTONE_SERVER_CONFIG_def TOMBSTONE_MULTIPART_def

record TimestampedCredential =
  credential :: Credential
  tc_updated_at :: timestamp

record TimestampedUser =
  user :: User
  tu_updated_at :: timestamp

record TimestampedTeam =
  team :: Team
  tt_updated_at :: timestamp

record TimestampedUserGrant =
  ug_user_id :: string
  ug_grant_id :: string
  ug_updated_at :: timestamp

record TimestampedTeamGrant =
  tg_team_id :: string
  tg_grant_id :: string
  tg_updated_at :: timestamp

record TimestampedTeamMember =
  tm_team_id :: string
  tm_user_id :: string
  tm_updated_at :: timestamp

record TimestampedBucketConfig =
  bc_bucket :: string
  bc_key :: string
  bc_value :: string
  bc_updated_at :: timestamp

record TimestampedBucketTags =
  bt_bucket :: string
  bt_tags :: "(string \<times> string) list"
  bt_updated_at :: timestamp

record TimestampedServerConfig =
  sc_key :: string
  sc_value :: string
  sc_updated_at :: timestamp

record ControlSnapshot =
  credentials :: "TimestampedCredential list"
  users :: "TimestampedUser list"
  teams :: "TimestampedTeam list"
  grants :: "Grant list"
  buckets :: "BucketInfo list"
  tombstones :: "ControlTombstone list"
  user_grants :: "TimestampedUserGrant list"
  team_grants :: "TimestampedTeamGrant list"
  team_members :: "TimestampedTeamMember list"
  bucket_configs :: "TimestampedBucketConfig list"
  bucket_tags :: "TimestampedBucketTags list"
  server_configs :: "TimestampedServerConfig list"
  multipart_uploads :: "MultipartUploadRecord list"
  cs_parts :: "PartRecord list"

record ControlMergePlan =
  upsert_credentials :: "TimestampedCredential list"
  upsert_users :: "TimestampedUser list"
  upsert_teams :: "TimestampedTeam list"
  upsert_grants :: "Grant list"
  upsert_buckets :: "BucketInfo list"
  delete_credentials :: "string list"
  delete_users :: "string list"
  delete_teams :: "string list"
  delete_grants :: "string list"
  delete_buckets :: "string list"
  upsert_user_grants :: "TimestampedUserGrant list"
  upsert_team_grants :: "TimestampedTeamGrant list"
  upsert_team_members :: "TimestampedTeamMember list"
  upsert_bucket_configs :: "TimestampedBucketConfig list"
  upsert_bucket_tags :: "TimestampedBucketTags list"
  upsert_server_configs :: "TimestampedServerConfig list"
  upsert_multipart_uploads :: "MultipartUploadRecord list"
  upsert_parts :: "PartRecord list"
  delete_user_grants :: "(string \<times> string) list"
  delete_team_grants :: "(string \<times> string) list"
  delete_team_members :: "(string \<times> string) list"
  delete_bucket_configs :: "(string \<times> string) list"
  plan_delete_bucket_tags :: "string list"
  delete_server_configs :: "string list"
  delete_multipart_uploads :: "string list"
  adopt_tombstones :: "ControlTombstone list"
  clear_tombstones :: "ControlTombstone list"

definition plan_is_empty :: "ControlMergePlan \<Rightarrow> bool" where
  "plan_is_empty p \<longleftrightarrow>
     upsert_credentials p = [] \<and> upsert_users p = [] \<and> upsert_teams p = [] \<and>
     upsert_grants p = [] \<and> upsert_buckets p = [] \<and> upsert_user_grants p = [] \<and>
     upsert_team_grants p = [] \<and> upsert_team_members p = [] \<and> upsert_bucket_configs p = [] \<and>
     upsert_bucket_tags p = [] \<and> upsert_server_configs p = [] \<and>
     upsert_multipart_uploads p = [] \<and> upsert_parts p = [] \<and> delete_credentials p = [] \<and>
     delete_users p = [] \<and> delete_teams p = [] \<and> delete_grants p = [] \<and>
     delete_buckets p = [] \<and> delete_user_grants p = [] \<and> delete_team_grants p = [] \<and>
     delete_team_members p = [] \<and> delete_bucket_configs p = [] \<and> plan_delete_bucket_tags p = [] \<and>
     delete_server_configs p = [] \<and> delete_multipart_uploads p = [] \<and>
     adopt_tombstones p = [] \<and> clear_tombstones p = []"

text \<open>
  \<^verbatim>\<open>DateTime::<Utc>::MIN_UTC\<close> of chrono, the first instant of the year -262143, in nanoseconds.
\<close>

definition MIN_UTC :: timestamp where
  "MIN_UTC = - 8334601228800 * 1000000000"

end
