(* ===== verification/Keyed_Table.thy ===== *)
theory Keyed_Table
  imports Arca_Prelude
begin

section \<open>Tables with a primary key\<close>

text \<open>
  The stores keep their rows in SQL tables. A table is the list of its rows; \<open>upsert_row\<close> is
  \<^verbatim>\<open>INSERT .. ON CONFLICT(pk) DO UPDATE\<close> over all columns and \<open>remove_key\<close> is \<^verbatim>\<open>DELETE .. WHERE pk = ?\<close>. What the
  clients rely on (a row is found after its upsert, gone after its removal, every other row
  is untouched) is the locale \<open>keyed_table\<close>, interpreted on these lists for every key.
\<close>

text \<open>The rows by key, as the \<^verbatim>\<open>HashMap\<close> collected from them.\<close>

definition keyed :: "('e \<Rightarrow> 'k) \<Rightarrow> 'e list \<Rightarrow> ('k \<times> 'e) list" where
  "keyed kf es = map (\<lambda>x. (kf x, x)) es"

definition entity_map :: "('e \<Rightarrow> 'k) \<Rightarrow> 'e list \<Rightarrow> ('k \<rightharpoonup> 'e)" where
  "entity_map kf es = collect_map (keyed kf es)"

definition has_key :: "('e \<Rightarrow> 'k) \<Rightarrow> 'k \<Rightarrow> 'e list \<Rightarrow> bool" where
  "has_key kf k rows = list_ex (\<lambda>y. kf y = k) rows"

definition upsert_row :: "('e \<Rightarrow> 'k) \<Rightarrow> 'e \<Rightarrow> 'e list \<Rightarrow> 'e list" where
  "upsert_row kf x rows =
     (if has_key kf (kf x) rows then map (\<lambda>y. if kf y = kf x then x else y) rows else rows @ [x])"

definition remove_key :: "('e \<Rightarrow> 'k) \<Rightarrow> 'k \<Rightarrow> 'e list \<Rightarrow> 'e list" where
  "remove_key kf k rows = filter (\<lambda>y. kf y \<noteq> k) rows"

lemma set_map_filter: "y \<in> set (List.map_filter f ks) \<longleftrightarrow> (\<exists>k. k \<in> set ks \<and> f k = Some y)"
  by (induction ks) (auto simp: map_filter_simps split: option.splits)

lemma map_fst_keyed [simp]: "map fst (keyed kf es) = map kf es"
  by (simp add: keyed_def)

lemma entity_map_Nil [simp]: "entity_map kf [] = Map.empty"
  by (simp add: entity_map_def collect_map_def keyed_def)

lemma entity_map_snoc: "entity_map kf (rows @ [x]) = (entity_map kf rows)(kf x \<mapsto> x)"
  by (simp add: entity_map_def collect_map_def keyed_def)

lemma entity_map_Cons: "entity_map kf (x # rows) = [kf x \<mapsto> x] ++ entity_map kf rows"
  by (simp add: entity_map_def collect_map_def keyed_def map_add_def fun_eq_iff split: option.splits)

lemma entity_map_SomeD: "entity_map kf rows k = Some x \<Longrightarrow> x \<in> set rows \<and> kf x = k"
  by (auto simp: entity_map_def keyed_def dest: collect_map_Some_in)

lemma entity_map_None_iff: "entity_map kf rows k = None \<longleftrightarrow> k \<notin> kf ` set rows"
proof -
  have "dom (entity_map kf rows) = kf ` set rows"
    by (simp add: entity_map_def dom_collect_map keyed_def image_image)
  then show ?thesis by auto
qed

lemma has_key_iff: "has_key kf k rows \<longleftrightarrow> k \<in> kf ` set rows"
  by (auto simp: has_key_def list_ex_iff)

lemma has_key_entity_map: "has_key kf k rows \<longleftrightarrow> entity_map kf rows k \<noteq> None"
  by (simp add: has_key_iff entity_map_None_iff)

lemma entity_map_in:
  "distinct (map kf rows) \<Longrightarrow> x \<in> set rows \<Longrightarrow> entity_map kf rows (kf x) = Some x"
  by (simp add: entity_map_def keyed_def collect_map_distinct o_def)

lemma entity_map_filter_key:
  "entity_map kf (filter (\<lambda>y. P (kf y)) rows) k = (if P k then entity_map kf rows k else None)"
  by (induction rows rule: rev_induct) (auto simp: entity_map_snoc)

lemma entity_map_remove: "entity_map kf (remove_key kf k rows) = (entity_map kf rows)(k := None)"
  by (auto simp: remove_key_def entity_map_filter_key [where P = "\<lambda>k'. k' \<noteq> k"])

lemma entity_map_replace:
  "entity_map kf (map (\<lambda>y. if kf y = kf x then x else y) rows) k =
     (if k = kf x \<and> has_key kf k rows then Some x else entity_map kf rows k)"
  by (induction rows rule: rev_induct) (auto simp: entity_map_snoc has_key_def)

lemma entity_map_upsert: "entity_map kf (upsert_row kf x rows) = (entity_map kf rows)(kf x \<mapsto> x)"
  by (auto simp: upsert_row_def entity_map_replace entity_map_snoc)

lemma distinct_upsert:
  "distinct (map kf rows) \<Longrightarrow> distinct (map kf (upsert_row kf x rows))"
  by (auto simp: upsert_row_def has_key_iff o_def if_distrib cong: map_cong)

lemma distinct_filter_rows: "distinct (map kf rows) \<Longrightarrow> distinct (map kf (filter P rows))"
  by (simp add: distinct_map_filter)

lemma set_upsert_subset: "set (upsert_row kf x rows) \<subseteq> insert x (set rows)"
  by (auto simp: upsert_row_def)

subsection \<open>The interface\<close>

locale keyed_table =
  fixes kf :: "'e \<Rightarrow> 'k"
    and get :: "'t \<Rightarrow> 'k \<Rightarrow> 'e option"
    and put :: "'e \<Rightarrow> 't \<Rightarrow> 't"
    and del :: "'k \<Rightarrow> 't \<Rightarrow> 't"
  assumes get_put: "get (put x t) k = (if k = kf x then Some x else get t k)"
    and get_del: "get (del k' t) k = (if k = k' then None else get t k)"
begin

lemma get_fold_put_other: "k \<notin> kf ` set xs \<Longrightarrow> get (fold put xs t) k = get t k"
  by (induction xs arbitrary: t) (auto simp: get_put)

lemma get_fold_put:
  "distinct (map kf xs) \<Longrightarrow> x \<in> set xs \<Longrightarrow> get (fold put xs t) (kf x) = Some x"
proof (induction xs arbitrary: t)
  case (Cons y ys)
  then show ?case by (cases "x = y") (auto simp: get_fold_put_other get_put)
qed simp

lemma get_fold_del: "get (fold del ks t) k = (if k \<in> set ks then None else get t k)"
  by (induction ks arbitrary: t) (auto simp: get_del)

text \<open>A batch of upserts followed by a batch of removals, the shape of a merge plan.\<close>

lemma get_batch:
  assumes "distinct (map kf xs)"
  shows "get (fold del ks (fold put xs t)) k =
    (if k \<in> set ks then None
     else case find (\<lambda>x. kf x = k) xs of Some x \<Rightarrow> Some x | None \<Rightarrow> get t k)"
proof (cases "find (\<lambda>x. kf x = k) xs")
  case None
  moreover from None have "k \<notin> kf ` set xs" by (auto simp: find_None_iff)
  ultimately show ?thesis by (simp add: get_fold_del get_fold_put_other)
next
  case (Some x)
  then have "x \<in> set xs" and "kf x = k" by (auto simp: find_Some_iff)
  with assms Some show ?thesis by (auto simp: get_fold_del get_fold_put)
qed

end

interpretation tbl: keyed_table kf "entity_map kf" "upsert_row kf" "remove_key kf"
  for kf :: "'e \<Rightarrow> 'k"
  by unfold_locales (simp_all add: entity_map_upsert entity_map_remove)

end
