(* ===== verification/Control_Db.thy ===== *)
theory Control_Db
  imports Control_Types Keyed_Table "HOL-Library.Product_Lexorder"
begin

section \<open>The control-plane tables of the SQLite store (arca-storage/src/sqlite)\<close>

text \<open>
  The identity stores (credential.rs, user.rs, team.rs, grant.rs), server_config.rs,
  control_tombstone.rs, and the bucket, bucket-configuration, bucket-tag and multipart
  operations of metadata.rs, over one record of tables. A statement that violates a \<^verbatim>\<open>UNIQUE\<close> or
  \<^verbatim>\<open>REFERENCES\<close> clause of migrations.rs is an error value and leaves the tables unchanged. Whether the
  SQLite library enforces \<^verbatim>\<open>REFERENCES\<close> is the parameter \<open>fk\<close> (a compile-time default of the bundled
  library); the clock of \<^verbatim>\<open>Utc::now()\<close> is the parameter \<open>now\<close>. \<^verbatim>\<open>JSON\<close> and \<^verbatim>\<open>RFC 3339\<close> columns hold the value
  they encode.
\<close>

datatype store_error = UniqueViolation string | ForeignKeyViolation string | BucketAlreadyOwnedByYou

record tag_row =
  tr_bucket :: string
  tr_key :: string
  tr_value :: string
  tr_updated_at :: timestamp

record object_tag_row =
  ot_bucket :: string
  ot_key :: string
  ot_version_id :: string
  ot_tag_key :: string
  ot_tag_value :: string

record control_db =
  db_credentials :: "TimestampedCredential list"
  db_users :: "TimestampedUser list"
  db_teams :: "TimestampedTeam list"
  db_grants :: "Grant list"
  db_user_grants :: "TimestampedUserGrant list"
  db_team_grants :: "TimestampedTeamGrant list"
  db_team_members :: "TimestampedTeamMember list"
  db_server_config :: "TimestampedServerConfig list"
  db_tombstones :: "ControlTombstone list"
  db_buckets :: "BucketInfo list"
  db_bucket_config :: "TimestampedBucketConfig list"
  db_bucket_tags :: "tag_row list"
  db_object_tags :: "object_tag_row list"
  db_uploads :: "MultipartUploadRecord list"
  db_parts :: "PartRecord list"

text \<open>The primary keys.\<close>

abbreviation cred_pk :: "TimestampedCredential \<Rightarrow> string" where
  "cred_pk \<equiv> access_key_id \<circ> credential"

abbreviation user_pk :: "TimestampedUser \<Rightarrow> string" where
  "user_pk \<equiv> user_id \<circ> user"

abbreviation team_pk :: "TimestampedTeam \<Rightarrow> string" where
  "team_pk \<equiv> team_id \<circ> team"

abbreviation ug_pk :: "TimestampedUserGrant \<Rightarrow> string \<times> string" where
  "ug_pk x \<equiv> (ug_user_id x, ug_grant_id x)"

abbreviation tg_pk :: "TimestampedTeamGrant \<Rightarrow> string \<times> string" where
  "tg_pk x \<equiv> (tg_team_id x, tg_grant_id x)"

abbreviation tm_pk :: "TimestampedTeamMember \<Rightarrow> string \<times> string" where
  "tm_pk x \<equiv> (tm_team_id x, tm_user_id x)"

abbreviation bc_pk :: "TimestampedBucketConfig \<Rightarrow> string \<times> string" where
  "bc_pk x \<equiv> (bc_bucket x, bc_key x)"

abbreviation tomb_pk :: "ControlTombstone \<Rightarrow> string \<times> string" where
  "tomb_pk t \<equiv> (entity_type t, entity_key t)"

abbreviation part_pk :: "PartRecord \<Rightarrow> string \<times> nat" where
  "part_pk p \<equiv> (p_upload_id p, p_part_number p)"

subsection \<open>Credentials\<close>

definition put_credential :: "Credential \<Rightarrow> control_db \<Rightarrow> store_error + control_db" where
  "put_credential c db =
     (if has_key cred_pk (access_key_id c) (db_credentials db)
      then Inl (UniqueViolation ''credentials.access_key_id'')
      else Inr (db\<lparr>db_credentials := db_credentials db @
                   [\<lparr>credential = c, tc_updated_at = c_created_at c\<rparr>]\<rparr>))"

definition get_credential :: "string \<Rightarrow> control_db \<Rightarrow> Credential option" where
  "get_credential k db = map_option credential (entity_map cred_pk (db_credentials db) k)"

definition list_credentials :: "control_db \<Rightarrow> Credential list" where
  "list_credentials db = sort_key c_created_at (map credential (db_credentials db))"

definition delete_credential :: "string \<Rightarrow> control_db \<Rightarrow> bool \<times> control_db" where
  "delete_credential k db =
     (has_key cred_pk k (db_credentials db),
      db\<lparr>db_credentials := remove_key cred_pk k (db_credentials db)\<rparr>)"

definition update_credential ::
  "timestamp \<Rightarrow> string \<Rightarrow> bool option \<Rightarrow> string option \<Rightarrow> control_db \<Rightarrow> bool \<times> control_db" where
  "update_credential now k act descr db =
     (has_key cred_pk k (db_credentials db),
      if act = None \<and> descr = None then db
      else db\<lparr>db_credentials := map (\<lambda>x. if cred_pk x = k
          then \<lparr>credential = (credential x)\<lparr>
                  active := (case act of None \<Rightarrow> active (credential x) | Some a \<Rightarrow> a),
                  c_description := (case descr of None \<Rightarrow> c_description (credential x) | Some d \<Rightarrow> d)\<rparr>,
                tc_updated_at = now\<rparr>
          else x) (db_credentials db)\<rparr>)"

definition count_active_credentials :: "control_db \<Rightarrow> nat" where
  "count_active_credentials db = length (filter (active \<circ> credential) (db_credentials db))"

definition apply_credential_at :: "Credential \<Rightarrow> timestamp \<Rightarrow> control_db \<Rightarrow> control_db" where
  "apply_credential_at c ts db =
     db\<lparr>db_credentials := upsert_row cred_pk \<lparr>credential = c, tc_updated_at = ts\<rparr> (db_credentials db)\<rparr>"

definition apply_remote_credential :: "timestamp \<Rightarrow> Credential \<Rightarrow> control_db \<Rightarrow> control_db" where
  "apply_remote_credential now c db =
     db\<lparr>db_credentials := upsert_row cred_pk \<lparr>credential = c, tc_updated_at = now\<rparr> (db_credentials db)\<rparr>"

subsection \<open>Users\<close>

text \<open>Another row already has the name.\<close>

definition username_taken :: "string \<Rightarrow> string \<Rightarrow> control_db \<Rightarrow> bool" where
  "username_taken uid name db =
     list_ex (\<lambda>y. username (user y) = name \<and> user_id (user y) \<noteq> uid) (db_users db)"

definition put_user :: "User \<Rightarrow> control_db \<Rightarrow> store_error + control_db" where
  "put_user u db =
     (if has_key user_pk (user_id u) (db_users db) then Inl (UniqueViolation ''users.user_id'')
      else if username_taken (user_id u) (username u) db then Inl (UniqueViolation ''users.username'')
      else Inr (db\<lparr>db_users := db_users db @ [\<lparr>user = u, tu_updated_at = u_created_at u\<rparr>]\<rparr>))"

definition get_user :: "string \<Rightarrow> control_db \<Rightarrow> User option" where
  "get_user k db = map_option user (entity_map user_pk (db_users db) k)"

definition get_user_by_username :: "string \<Rightarrow> control_db \<Rightarrow> User option" where
  "get_user_by_username n db = map_option user (find (\<lambda>x. username (user x) = n) (db_users db))"

definition list_users :: "control_db \<Rightarrow> User list" where
  "list_users db = sort_key u_created_at (map user (db_users db))"

definition update_user ::
  "timestamp \<Rightarrow> string \<Rightarrow> string option \<Rightarrow> string option \<Rightarrow> control_db \<Rightarrow> store_error + (bool \<times> control_db)" where
  "update_user now k name descr db =
     (if name = None \<and> descr = None then Inr (has_key user_pk k (db_users db), db)
      else if has_key user_pk k (db_users db) \<and>
              (case name of None \<Rightarrow> False | Some n \<Rightarrow> username_taken k n db)
      then Inl (UniqueViolation ''users.username'')
      else Inr (has_key user_pk k (db_users db),
        db\<lparr>db_users := map (\<lambda>x. if user_pk x = k
          then \<lparr>user = (user x)\<lparr>
                  username := (case name of None \<Rightarrow> username (user x) | Some n \<Rightarrow> n),
                  u_description := (case descr of None \<Rightarrow> u_description (user x) | Some d \<Rightarrow> d)\<rparr>,
                tu_updated_at = now\<rparr>
          else x) (db_users db)\<rparr>))"

definition delete_user :: "string \<Rightarrow> control_db \<Rightarrow> bool \<times> control_db" where
  "delete_user k db =
     (has_key user_pk k (db_users db),
      db\<lparr>db_team_members := filter (\<lambda>x. tm_user_id x \<noteq> k) (db_team_members db),
         db_user_grants := filter (\<lambda>x. ug_user_id x \<noteq> k) (db_user_grants db),
         db_credentials := filter (\<lambda>x. c_user_id (credential x) \<noteq> k) (db_credentials db),
         db_users := remove_key user_pk k (db_users db)\<rparr>)"

definition apply_user_at :: "User \<Rightarrow> timestamp \<Rightarrow> control_db \<Rightarrow> store_error + control_db" where
  "apply_user_at u ts db =
     (if username_taken (user_id u) (username u) db then Inl (UniqueViolation ''users.username'')
      else Inr (db\<lparr>db_users := upsert_row user_pk \<lparr>user = u, tu_updated_at = ts\<rparr> (db_users db)\<rparr>))"

definition apply_remote_user :: "timestamp \<Rightarrow> User \<Rightarrow> control_db \<Rightarrow> store_error + control_db" where
  "apply_remote_user now u db = apply_user_at u now db"

subsection \<open>Teams and memberships\<close>

definition team_name_taken :: "string \<Rightarrow> string \<Rightarrow> control_db \<Rightarrow> bool" where
  "team_name_taken tid name db =
     list_ex (\<lambda>y. t_name (team y) = name \<and> team_id (team y) \<noteq> tid) (db_teams db)"

definition put_team :: "Team \<Rightarrow> control_db \<Rightarrow> store_error + control_db" where
  "put_team t db =
     (if has_key team_pk (team_id t) (db_teams db) then Inl (UniqueViolation ''teams.team_id'')
      else if team_name_taken (team_id t) (t_name t) db then Inl (UniqueViolation ''teams.name'')
      else Inr (db\<lparr>db_teams := db_teams db @ [\<lparr>team = t, tt_updated_at = t_created_at t\<rparr>]\<rparr>))"

definition get_team :: "string \<Rightarrow> control_db \<Rightarrow> Team option" where
  "get_team k db = map_option team (entity_map team_pk (db_teams db) k)"

definition list_teams :: "control_db \<Rightarrow> Team list" where
  "list_teams db = sort_key t_created_at (map team (db_teams db))"

definition update_team ::
  "timestamp \<Rightarrow> string \<Rightarrow> string option \<Rightarrow> string option \<Rightarrow> control_db \<Rightarrow> store_error + (bool \<times> control_db)" where
  "update_team now k name descr db =
     (if name = None \<and> descr = None then Inr (has_key team_pk k (db_teams db), db)
      else if has_key team_pk k (db_teams db) \<and>
              (case name of None \<Rightarrow> False | Some n \<Rightarrow> team_name_taken k n db)
      then Inl (UniqueViolation ''teams.name'')
      else Inr (has_key team_pk k (db_teams db),
        db\<lparr>db_teams := map (\<lambda>x. if team_pk x = k
          then \<lparr>team = (team x)\<lparr>
                  t_name := (case name of None \<Rightarrow> t_name (team x) | Some n \<Rightarrow> n),
                  t_description := (case descr of None \<Rightarrow> t_description (team x) | Some d \<Rightarrow> d)\<rparr>,
                tt_updated_at = now\<rparr>
          else x) (db_teams db)\<rparr>))"

definition delete_team :: "string \<Rightarrow> control_db \<Rightarrow> bool \<times> control_db" where
  "delete_team k db =
     (has_key team_pk k (db_teams db),
      db\<lparr>db_team_members := filter (\<lambda>x. tm_team_id x \<noteq> k) (db_team_members db),
         db_team_grants := filter (\<lambda>x. tg_team_id x \<noteq> k) (db_team_grants db),
         db_teams := remove_key team_pk k (db_teams db)\<rparr>)"

definition apply_team_at :: "Team \<Rightarrow> timestamp \<Rightarrow> control_db \<Rightarrow> store_error + control_db" where
  "apply_team_at t ts db =
     (if team_name_taken (team_id t) (t_name t) db then Inl (UniqueViolation ''teams.name'')
      else Inr (db\<lparr>db_teams := upsert_row team_pk \<lparr>team = t, tt_updated_at = ts\<rparr> (db_teams db)\<rparr>))"

definition apply_remote_team :: "timestamp \<Rightarrow> Team \<Rightarrow> control_db \<Rightarrow> store_error + control_db" where
  "apply_remote_team now t db = apply_team_at t now db"

definition apply_team_member_at ::
  "bool \<Rightarrow> string \<Rightarrow> string \<Rightarrow> timestamp \<Rightarrow> control_db \<Rightarrow> store_error + control_db" where
  "apply_team_member_at fk tid uid ts db =
     (if fk \<and> \<not> (has_key team_pk tid (db_teams db) \<and> has_key user_pk uid (db_users db))
      then Inl (ForeignKeyViolation ''team_members'')
      else Inr (db\<lparr>db_team_members := upsert_row tm_pk
        \<lparr>tm_team_id = tid, tm_user_id = uid, tm_updated_at = ts\<rparr> (db_team_members db)\<rparr>))"

definition add_member ::
  "bool \<Rightarrow> timestamp \<Rightarrow> string \<Rightarrow> string \<Rightarrow> control_db \<Rightarrow> store_error + control_db" where
  "add_member fk now tid uid db = apply_team_member_at fk tid uid now db"

definition remove_member :: "string \<Rightarrow> string \<Rightarrow> control_db \<Rightarrow> bool \<times> control_db" where
  "remove_member tid uid db =
     (has_key tm_pk (tid, uid) (db_team_members db),
      db\<lparr>db_team_members := remove_key tm_pk (tid, uid) (db_team_members db)\<rparr>)"

definition list_members :: "string \<Rightarrow> control_db \<Rightarrow> User list" where
  "list_members tid db =
     sort_key username (concat (map (\<lambda>u. map (\<lambda>_. user u)
       (filter (\<lambda>tm. tm_user_id tm = user_pk u \<and> tm_team_id tm = tid) (db_team_members db))) (db_users db)))"

definition list_user_teams :: "string \<Rightarrow> control_db \<Rightarrow> Team list" where
  "list_user_teams uid db =
     sort_key t_name (concat (map (\<lambda>t. map (\<lambda>_. team t)
       (filter (\<lambda>tm. tm_team_id tm = team_pk t \<and> tm_user_id tm = uid) (db_team_members db))) (db_teams db)))"

subsection \<open>Grants and attachments\<close>

definition grant_name_taken :: "string \<Rightarrow> string \<Rightarrow> control_db \<Rightarrow> bool" where
  "grant_name_taken gid name db =
     list_ex (\<lambda>y. g_name y = name \<and> grant_id y \<noteq> gid) (db_grants db)"

definition put_grant :: "Grant \<Rightarrow> control_db \<Rightarrow> store_error + control_db" where
  "put_grant g db =
     (if has_key grant_id (grant_id g) (db_grants db) then Inl (UniqueViolation ''grants.grant_id'')
      else if grant_name_taken (grant_id g) (g_name g) db then Inl (UniqueViolation ''grants.name'')
      else Inr (db\<lparr>db_grants := db_grants db @ [g]\<rparr>))"

definition get_grant :: "string \<Rightarrow> control_db \<Rightarrow> Grant option" where
  "get_grant k db = entity_map grant_id (db_grants db) k"

definition get_grant_by_name :: "string \<Rightarrow> control_db \<Rightarrow> Grant option" where
  "get_grant_by_name n db = find (\<lambda>g. g_name g = n) (db_grants db)"

definition list_grants :: "control_db \<Rightarrow> Grant list" where
  "list_grants db = sort_key g_created_at (db_grants db)"

definition update_grant ::
  "timestamp \<Rightarrow> string \<Rightarrow> string option \<Rightarrow> string option \<Rightarrow> PolicyDocument option \<Rightarrow> control_db
   \<Rightarrow> store_error + (bool \<times> control_db)" where
  "update_grant now k name descr doc db =
     (if has_key grant_id k (db_grants db) \<and>
         (case name of None \<Rightarrow> False | Some n \<Rightarrow> grant_name_taken k n db)
      then Inl (UniqueViolation ''grants.name'')
      else Inr (has_key grant_id k (db_grants db),
        db\<lparr>db_grants := map (\<lambda>g. if grant_id g = k
          then g\<lparr>g_updated_at := now,
                 g_name := (case name of None \<Rightarrow> g_name g | Some n \<Rightarrow> n),
                 g_description := (case descr of None \<Rightarrow> g_description g | Some d \<Rightarrow> d),
                 document := (case doc of None \<Rightarrow> document g | Some d \<Rightarrow> d)\<rparr>
          else g) (db_grants db)\<rparr>))"

definition delete_grant :: "string \<Rightarrow> control_db \<Rightarrow> bool \<times> control_db" where
  "delete_grant k db =
     (has_key grant_id k (db_grants db),
      db\<lparr>db_user_grants := filter (\<lambda>x. ug_grant_id x \<noteq> k) (db_user_grants db),
         db_team_grants := filter (\<lambda>x. tg_grant_id x \<noteq> k) (db_team_grants db),
         db_grants := remove_key grant_id k (db_grants db)\<rparr>)"

definition apply_remote_grant :: "Grant \<Rightarrow> control_db \<Rightarrow> store_error + control_db" where
  "apply_remote_grant g db =
     (if grant_name_taken (grant_id g) (g_name g) db then Inl (UniqueViolation ''grants.name'')
      else Inr (db\<lparr>db_grants := upsert_row grant_id g (db_grants db)\<rparr>))"

definition apply_user_grant_at ::
  "bool \<Rightarrow> string \<Rightarrow> string \<Rightarrow> timestamp \<Rightarrow> control_db \<Rightarrow> store_error + control_db" where
  "apply_user_grant_at fk uid gid ts db =
     (if fk \<and> \<not> (has_key user_pk uid (db_users db) \<and> has_key grant_id gid (db_grants db))
      then Inl (ForeignKeyViolation ''user_grants'')
      else Inr (db\<lparr>db_user_grants := upsert_row ug_pk
        \<lparr>ug_user_id = uid, ug_grant_id = gid, ug_updated_at = ts\<rparr> (db_user_grants db)\<rparr>))"

definition attach_to_user ::
  "bool \<Rightarrow> timestamp \<Rightarrow> string \<Rightarrow> string \<Rightarrow> control_db \<Rightarrow> store_error + control_db" where
  "attach_to_user fk now uid gid db = apply_user_grant_at fk uid gid now db"

definition detach_from_user :: "string \<Rightarrow> string \<Rightarrow> control_db \<Rightarrow> bool \<times> control_db" where
  "detach_from_user uid gid db =
     (has_key ug_pk (uid, gid) (db_user_grants db),
      db\<lparr>db_user_grants := remove_key ug_pk (uid, gid) (db_user_grants db)\<rparr>)"

definition apply_team_grant_at ::
  "bool \<Rightarrow> string \<Rightarrow> string \<Rightarrow> timestamp \<Rightarrow> control_db \<Rightarrow> store_error + control_db" where
  "apply_team_grant_at fk tid gid ts db =
     (if fk \<and> \<not> (has_key team_pk tid (db_teams db) \<and> has_key grant_id gid (db_grants db))
      then Inl (ForeignKeyViolation ''team_grants'')
      else Inr (db\<lparr>db_team_grants := upsert_row tg_pk
        \<lparr>tg_team_id = tid, tg_grant_id = gid, tg_updated_at = ts\<rparr> (db_team_grants db)\<rparr>))"

definition attach_to_team ::
  "bool \<Rightarrow> timestamp \<Rightarrow> string \<Rightarrow> string \<Rightarrow> control_db \<Rightarrow> store_error + control_db" where
  "attach_to_team fk now tid gid db = apply_team_grant_at fk tid gid now db"

definition detach_from_team :: "string \<Rightarrow> string \<Rightarrow> control_db \<Rightarrow> bool \<times> control_db" where
  "detach_from_team tid gid db =
     (has_key tg_pk (tid, gid) (db_team_grants db),
      db\<lparr>db_team_grants := remove_key tg_pk (tid, gid) (db_team_grants db)\<rparr>)"

definition list_user_grants :: "string \<Rightarrow> control_db \<Rightarrow> Grant list" where
  "list_user_grants uid db =
     sort_key g_name (concat (map (\<lambda>g. map (\<lambda>_. g)
       (filter (\<lambda>x. ug_grant_id x = grant_id g \<and> ug_user_id x = uid) (db_user_grants db))) (db_grants db)))"

definition list_team_grants :: "string \<Rightarrow> control_db \<Rightarrow> Grant list" where
  "list_team_grants tid db =
     sort_key g_name (concat (map (\<lambda>g. map (\<lambda>_. g)
       (filter (\<lambda>x. tg_grant_id x = grant_id g \<and> tg_team_id x = tid) (db_team_grants db))) (db_grants db)))"

text \<open>The grant ids of the sub-select: attached to the user, or to a team the user is a member of.\<close>

definition effective_grant_ids :: "string \<Rightarrow> control_db \<Rightarrow> string list" where
  "effective_grant_ids uid db =
     map ug_grant_id (filter (\<lambda>x. ug_user_id x = uid) (db_user_grants db)) @
     map tg_grant_id (filter (\<lambda>tg. list_ex (\<lambda>tm. tm_team_id tm = tg_team_id tg \<and> tm_user_id tm = uid)
                                     (db_team_members db)) (db_team_grants db))"

definition get_effective_policies :: "string \<Rightarrow> control_db \<Rightarrow> PolicyDocument list" where
  "get_effective_policies uid db =
     map document (filter (\<lambda>g. List.member (effective_grant_ids uid db) (grant_id g)) (db_grants db))"

subsection \<open>Server configuration and tombstones\<close>

definition get_server_config :: "string \<Rightarrow> control_db \<Rightarrow> string option" where
  "get_server_config k db = map_option sc_value (entity_map sc_key (db_server_config db) k)"

definition apply_server_config_at :: "string \<Rightarrow> string \<Rightarrow> timestamp \<Rightarrow> control_db \<Rightarrow> control_db" where
  "apply_server_config_at k v ts db =
     db\<lparr>db_server_config := upsert_row sc_key \<lparr>sc_key = k, sc_value = v, sc_updated_at = ts\<rparr> (db_server_config db)\<rparr>"

definition set_server_config :: "timestamp \<Rightarrow> string \<Rightarrow> string \<Rightarrow> control_db \<Rightarrow> control_db" where
  "set_server_config now k v db = apply_server_config_at k v now db"

definition delete_server_config :: "string \<Rightarrow> control_db \<Rightarrow> bool \<times> control_db" where
  "delete_server_config k db =
     (has_key sc_key k (db_server_config db),
      db\<lparr>db_server_config := remove_key sc_key k (db_server_config db)\<rparr>)"

definition list_server_config :: "control_db \<Rightarrow> (string \<times> string) list" where
  "list_server_config db = map (\<lambda>x. (sc_key x, sc_value x)) (sort_key sc_key (db_server_config db))"

definition record_control_tombstone :: "timestamp \<Rightarrow> string \<Rightarrow> string \<Rightarrow> control_db \<Rightarrow> control_db" where
  "record_control_tombstone now etype ekey db =
     db\<lparr>db_tombstones := upsert_row tomb_pk
       \<lparr>entity_type = etype, entity_key = ekey, deleted_at = now\<rparr> (db_tombstones db)\<rparr>"

definition apply_control_tombstone :: "ControlTombstone \<Rightarrow> control_db \<Rightarrow> control_db" where
  "apply_control_tombstone t db =
     db\<lparr>db_tombstones := upsert_row tomb_pk
       (case entity_map tomb_pk (db_tombstones db) (tomb_pk t) of
          None \<Rightarrow> t
        | Some old \<Rightarrow> t\<lparr>deleted_at := max (deleted_at old) (deleted_at t)\<rparr>) (db_tombstones db)\<rparr>"

definition delete_control_tombstone :: "string \<Rightarrow> string \<Rightarrow> control_db \<Rightarrow> bool \<times> control_db" where
  "delete_control_tombstone etype ekey db =
     (has_key tomb_pk (etype, ekey) (db_tombstones db),
      db\<lparr>db_tombstones := remove_key tomb_pk (etype, ekey) (db_tombstones db)\<rparr>)"

definition purge_control_tombstones :: "timestamp \<Rightarrow> control_db \<Rightarrow> nat \<times> control_db" where
  "purge_control_tombstones before db =
     (length (filter (\<lambda>t. deleted_at t < before) (db_tombstones db)),
      db\<lparr>db_tombstones := filter (\<lambda>t. \<not> deleted_at t < before) (db_tombstones db)\<rparr>)"

subsection \<open>Buckets, their configuration and tags\<close>

definition list_buckets :: "control_db \<Rightarrow> BucketInfo list" where
  "list_buckets db = sort_key b_name (db_buckets db)"

definition create_bucket_owned ::
  "timestamp \<Rightarrow> string \<Rightarrow> string \<Rightarrow> control_db \<Rightarrow> store_error + control_db" where
  "create_bucket_owned now name own db =
     (if has_key b_name name (db_buckets db) then Inl BucketAlreadyOwnedByYou
      else Inr (db\<lparr>db_buckets := db_buckets db @ [\<lparr>b_name = name, b_created_at = now, b_owner = own\<rparr>]\<rparr>))"

definition head_bucket :: "string \<Rightarrow> control_db \<Rightarrow> BucketInfo option" where
  "head_bucket name db = entity_map b_name (db_buckets db) name"

definition delete_bucket :: "string \<Rightarrow> control_db \<Rightarrow> bool \<times> control_db" where
  "delete_bucket name db =
     (has_key b_name name (db_buckets db),
      db\<lparr>db_bucket_tags := filter (\<lambda>x. tr_bucket x \<noteq> name) (db_bucket_tags db),
         db_object_tags := filter (\<lambda>x. ot_bucket x \<noteq> name) (db_object_tags db),
         db_buckets := remove_key b_name name (db_buckets db)\<rparr>)"

definition apply_remote_bucket :: "BucketInfo \<Rightarrow> control_db \<Rightarrow> control_db" where
  "apply_remote_bucket info db = db\<lparr>db_buckets := upsert_row b_name info (db_buckets db)\<rparr>"

definition get_bucket_config :: "string \<Rightarrow> string \<Rightarrow> control_db \<Rightarrow> string option" where
  "get_bucket_config b k db = map_option bc_value (entity_map bc_pk (db_bucket_config db) (b, k))"

definition apply_bucket_config_at ::
  "string \<Rightarrow> string \<Rightarrow> string \<Rightarrow> timestamp \<Rightarrow> control_db \<Rightarrow> control_db" where
  "apply_bucket_config_at b k v ts db =
     db\<lparr>db_bucket_config := upsert_row bc_pk
       \<lparr>bc_bucket = b, bc_key = k, bc_value = v, bc_updated_at = ts\<rparr> (db_bucket_config db)\<rparr>"

definition set_bucket_config :: "timestamp \<Rightarrow> string \<Rightarrow> string \<Rightarrow> string \<Rightarrow> control_db \<Rightarrow> control_db" where
  "set_bucket_config now b k v db = apply_bucket_config_at b k v now db"

definition delete_bucket_config :: "string \<Rightarrow> string \<Rightarrow> control_db \<Rightarrow> bool \<times> control_db" where
  "delete_bucket_config b k db =
     (has_key bc_pk (b, k) (db_bucket_config db),
      db\<lparr>db_bucket_config := remove_key bc_pk (b, k) (db_bucket_config db)\<rparr>)"

definition get_bucket_tags :: "string \<Rightarrow> control_db \<Rightarrow> (string \<times> string) list" where
  "get_bucket_tags b db =
     map (\<lambda>x. (tr_key x, tr_value x)) (sort_key tr_key (filter (\<lambda>x. tr_bucket x = b) (db_bucket_tags db)))"

text \<open>
  Replaces the whole tag set in one transaction; a tag key that occurs twice violates the
  primary key \<^verbatim>\<open>(bucket, tag_key)\<close> and rolls the transaction back.
\<close>

definition apply_bucket_tags_at ::
  "string \<Rightarrow> (string \<times> string) list \<Rightarrow> timestamp \<Rightarrow> control_db \<Rightarrow> store_error + control_db" where
  "apply_bucket_tags_at b tags ts db =
     (if distinct (map fst tags)
      then Inr (db\<lparr>db_bucket_tags := filter (\<lambda>x. tr_bucket x \<noteq> b) (db_bucket_tags db) @
             map (\<lambda>(k, v). \<lparr>tr_bucket = b, tr_key = k, tr_value = v, tr_updated_at = ts\<rparr>) tags\<rparr>)
      else Inl (UniqueViolation ''bucket_tags''))"

definition put_bucket_tags ::
  "timestamp \<Rightarrow> string \<Rightarrow> (string \<times> string) list \<Rightarrow> control_db \<Rightarrow> store_error + control_db" where
  "put_bucket_tags now b tags db = apply_bucket_tags_at b tags now db"

definition delete_bucket_tags :: "string \<Rightarrow> control_db \<Rightarrow> bool \<times> control_db" where
  "delete_bucket_tags b db =
     (list_ex (\<lambda>x. tr_bucket x = b) (db_bucket_tags db),
      db\<lparr>db_bucket_tags := filter (\<lambda>x. tr_bucket x \<noteq> b) (db_bucket_tags db)\<rparr>)"

subsection \<open>Multipart uploads\<close>

definition create_multipart_upload :: "MultipartUploadRecord \<Rightarrow> control_db \<Rightarrow> store_error + control_db" where
  "create_multipart_upload r db =
     (if has_key upload_id (upload_id r) (db_uploads db)
      then Inl (UniqueViolation ''multipart_uploads.upload_id'')
      else Inr (db\<lparr>db_uploads := db_uploads db @ [r]\<rparr>))"

definition get_multipart_upload :: "string \<Rightarrow> control_db \<Rightarrow> MultipartUploadRecord option" where
  "get_multipart_upload u db = entity_map upload_id (db_uploads db) u"

definition apply_remote_multipart_upload :: "MultipartUploadRecord \<Rightarrow> control_db \<Rightarrow> control_db" where
  "apply_remote_multipart_upload r db =
     (if has_key upload_id (upload_id r) (db_uploads db) then db
      else db\<lparr>db_uploads := db_uploads db @ [r]\<rparr>)"

definition put_part :: "PartRecord \<Rightarrow> control_db \<Rightarrow> PartRecord option \<times> control_db" where
  "put_part p db =
     (entity_map part_pk (db_parts db) (part_pk p),
      db\<lparr>db_parts := remove_key part_pk (part_pk p) (db_parts db) @ [p]\<rparr>)"

definition list_parts :: "string \<Rightarrow> control_db \<Rightarrow> PartRecord list" where
  "list_parts u db = sort_key p_part_number (filter (\<lambda>p. p_upload_id p = u) (db_parts db))"

definition take_upload :: "string \<Rightarrow> control_db \<Rightarrow> PartRecord list \<times> control_db" where
  "take_upload u db =
     (filter (\<lambda>p. p_upload_id p = u) (db_parts db),
      db\<lparr>db_parts := filter (\<lambda>p. p_upload_id p \<noteq> u) (db_parts db),
         db_uploads := remove_key upload_id u (db_uploads db)\<rparr>)"

definition delete_multipart_upload :: "string \<Rightarrow> control_db \<Rightarrow> PartRecord list \<times> control_db" where
  "delete_multipart_upload u db = take_upload u db"

end
