(* ===== verification/S3_Error.thy ===== *)
theory S3_Error
  imports Arca_Prelude
begin

section \<open>S3 error codes (crates/arca-core/src/error.rs)\<close>

text \<open>
  The error codes of the S3 interface with their HTTP status and wire name. \<^verbatim>\<open>S3Error\<close> itself adds
  a message, the resource and a request id to a code; the models return the code alone.
\<close>

datatype S3ErrorCode =
    AccessDenied | BadDigest | BucketAlreadyExists | BucketAlreadyOwnedByYou | BucketNotEmpty
    | EntityTooLarge | EntityTooSmall | InternalError | InvalidAccessKeyId | InvalidArgument
    | InvalidBucketName | InvalidDigest | InvalidPart | InvalidPartOrder | InvalidRange
    | InvalidRequest | MethodNotAllowed | NotModified | NoSuchBucket | NoSuchKey | NoSuchVersion
    | MalformedXML | PreconditionFailed | NoSuchLifecycleConfiguration
    | NoSuchObjectLockConfiguration | NoSuchTagSet | ObjectLocked | NoSuchUpload
    | NotImplemented | InvalidTag | ServerSideEncryptionConfigurationNotFoundError
    | SignatureDoesNotMatch | SlowDown | XAmzContentSHA256Mismatch | InvalidRetentionPeriod
    | InvalidBucketState | ReplicationConfigurationNotFoundError | ServiceUnavailable
    | InsufficientStorage

primrec http_status :: "S3ErrorCode \<Rightarrow> nat" where
  "http_status AccessDenied = 403"
| "http_status BadDigest = 400"
| "http_status BucketAlreadyExists = 409"
| "http_status BucketAlreadyOwnedByYou = 200"
| "http_status BucketNotEmpty = 409"
| "http_status EntityTooLarge = 400"
| "http_status EntityTooSmall = 400"
| "http_status InternalError = 500"
| "http_status InvalidAccessKeyId = 403"
| "http_status InvalidArgument = 400"
| "http_status InvalidBucketName = 400"
| "http_status InvalidDigest = 400"
| "http_status InvalidPart = 400"
| "http_status InvalidPartOrder = 400"
| "http_status InvalidRange = 416"
| "http_status InvalidRequest = 400"
| "http_status MethodNotAllowed = 405"
| "http_status NotModified = 304"
| "http_status NoSuchBucket = 404"
| "http_status NoSuchKey = 404"
| "http_status NoSuchVersion = 404"
| "http_status MalformedXML = 400"
| "http_status PreconditionFailed = 412"
| "http_status NoSuchLifecycleConfiguration = 404"
| "http_status NoSuchObjectLockConfiguration = 404"
| "http_status NoSuchTagSet = 404"
| "http_status ObjectLocked = 403"
| "http_status NoSuchUpload = 404"
| "http_status NotImplemented = 501"
| "http_status InvalidTag = 400"
| "http_status ServerSideEncryptionConfigurationNotFoundError = 400"
| "http_status SignatureDoesNotMatch = 403"
| "http_status SlowDown = 503"
| "http_status XAmzContentSHA256Mismatch = 400"
| "http_status InvalidRetentionPeriod = 400"
| "http_status InvalidBucketState = 409"
| "http_status ReplicationConfigurationNotFoundError = 404"
| "http_status ServiceUnavailable = 503"
| "http_status InsufficientStorage = 507"

primrec as_str :: "S3ErrorCode \<Rightarrow> string" where
  "as_str AccessDenied = ''AccessDenied''"
| "as_str BadDigest = ''BadDigest''"
| "as_str BucketAlreadyExists = ''BucketAlreadyExists''"
| "as_str BucketAlreadyOwnedByYou = ''BucketAlreadyOwnedByYou''"
| "as_str BucketNotEmpty = ''BucketNotEmpty''"
| "as_str EntityTooLarge = ''EntityTooLarge''"
| "as_str EntityTooSmall = ''EntityTooSmall''"
| "as_str InternalError = ''InternalError''"
| "as_str InvalidAccessKeyId = ''InvalidAccessKeyId''"
| "as_str InvalidArgument = ''InvalidArgument''"
| "as_str InvalidBucketName = ''InvalidBucketName''"
| "as_str InvalidDigest = ''InvalidDigest''"
| "as_str InvalidPart = ''InvalidPart''"
| "as_str InvalidPartOrder = ''InvalidPartOrder''"
| "as_str InvalidRange = ''InvalidRange''"
| "as_str InvalidRequest = ''InvalidRequest''"
| "as_str MethodNotAllowed = ''MethodNotAllowed''"
| "as_str NotModified = ''NotModified''"
| "as_str NoSuchBucket = ''NoSuchBucket''"
| "as_str NoSuchKey = ''NoSuchKey''"
| "as_str NoSuchVersion = ''NoSuchVersion''"
| "as_str MalformedXML = ''MalformedXML''"
| "as_str PreconditionFailed = ''PreconditionFailed''"
| "as_str NoSuchLifecycleConfiguration = ''NoSuchLifecycleConfiguration''"
| "as_str NoSuchObjectLockConfiguration = ''ObjectLockConfigurationNotFoundError''"
| "as_str NoSuchTagSet = ''NoSuchTagSet''"
| "as_str ObjectLocked = ''AccessDenied''"
| "as_str NoSuchUpload = ''NoSuchUpload''"
| "as_str NotImplemented = ''NotImplemented''"
| "as_str InvalidTag = ''InvalidTag''"
| "as_str ServerSideEncryptionConfigurationNotFoundError = ''ServerSideEncryptionConfigurationNotFoundError''"
| "as_str SignatureDoesNotMatch = ''SignatureDoesNotMatch''"
| "as_str SlowDown = ''SlowDown''"
| "as_str XAmzContentSHA256Mismatch = ''XAmzContentSHA256Mismatch''"
| "as_str InvalidRetentionPeriod = ''InvalidRetentionPeriod''"
| "as_str InvalidBucketState = ''InvalidBucketState''"
| "as_str ReplicationConfigurationNotFoundError = ''ReplicationConfigurationNotFoundError''"
| "as_str ServiceUnavailable = ''ServiceUnavailable''"
| "as_str InsufficientStorage = ''InsufficientStorage''"

end
