(* ===== verification/Replicated_Register.thy ===== *)
theory Replicated_Register
  imports Arca_Prelude
begin

section \<open>The interface of a last-writer-wins register\<close>

text \<open>
  Object rows and control-plane entities reach a node more than once and in any order: through
  the real-time fan-out, and again on every anti-entropy pass. What the receiving code relies
  on is stated here once. \<open>deliver x l\<close> is what a node holding \<open>l\<close> holds after it received
  \<open>x\<close>; \<open>below x l\<close> says that \<open>l\<close> already covers \<open>x\<close>; \<open>compat\<close> excludes pairs the order does
  not relate; \<open>settled\<close> is the form every delivery leaves behind.
\<close>

locale lww_register =
  fixes deliver :: "'r \<Rightarrow> 'r \<Rightarrow> 'r"
    and below :: "'r \<Rightarrow> 'r \<Rightarrow> bool"
    and compat :: "'r \<Rightarrow> 'r \<Rightarrow> bool"
    and settled :: "'r \<Rightarrow> bool"
  assumes below_refl: "below x x"
    and below_trans: "below x y \<Longrightarrow> below y z \<Longrightarrow> below x z"
    and covers_incoming: "compat x l \<Longrightarrow> below x (deliver x l)"
    and covers_local: "compat x l \<Longrightarrow> below l (deliver x l)"
    and compat_deliver: "compat x l \<Longrightarrow> compat y x \<Longrightarrow> compat y l \<Longrightarrow> compat y (deliver x l)"
    and deliver_settled: "settled (deliver x l)"
    and deliver_below: "compat x l \<Longrightarrow> settled l \<Longrightarrow> below x l \<Longrightarrow> deliver x l = l"
begin

lemma fold_compat:
  assumes "\<And>x. x \<in> set xs \<Longrightarrow> compat y x" and "compat y l"
    and "\<And>x. x \<in> set xs \<Longrightarrow> compat x l"
    and "\<And>x x'. x \<in> set xs \<Longrightarrow> x' \<in> set xs \<Longrightarrow> compat x x'"
  shows "compat y (fold deliver xs l)"
  using assms
proof (induction xs arbitrary: l)
  case Nil
  then show ?case by simp
next
  case (Cons x xs)
  have "compat y (deliver x l)" using Cons.prems by (intro compat_deliver) auto
  moreover have "compat x' (deliver x l)" if "x' \<in> set xs" for x'
    using Cons.prems that by (intro compat_deliver) auto
  ultimately show ?case using Cons.prems by (auto intro: Cons.IH)
qed

lemma fold_covers:
  assumes "\<And>x. x \<in> set xs \<Longrightarrow> compat x l"
    and "\<And>x x'. x \<in> set xs \<Longrightarrow> x' \<in> set xs \<Longrightarrow> compat x x'"
  shows "below l (fold deliver xs l) \<and> (\<forall>x \<in> set xs. below x (fold deliver xs l))"
  using assms
proof (induction xs arbitrary: l)
  case Nil
  then show ?case by (simp add: below_refl)
next
  case (Cons x xs)
  have "compat x' (deliver x l)" if "x' \<in> set xs" for x'
    using Cons.prems that by (intro compat_deliver) auto
  then have IH: "below (deliver x l) (fold deliver xs (deliver x l))"
    "\<forall>x' \<in> set xs. below x' (fold deliver xs (deliver x l))"
    using Cons.IH Cons.prems(2) by auto
  moreover have "below x (deliver x l)" "below l (deliver x l)"
    using Cons.prems by (auto intro: covers_incoming covers_local)
  ultimately show ?case by (auto intro: below_trans)
qed

lemma fold_settled: "xs \<noteq> [] \<Longrightarrow> settled (fold deliver xs l)"
proof (induction xs rule: rev_induct)
  case (snoc x xs)
  then show ?case by (simp add: deliver_settled)
qed simp

text \<open>A value whose every delivery is already covered does not move any more.\<close>

lemma fold_stable:
  assumes "settled m" and "\<And>x. x \<in> set xs \<Longrightarrow> compat x m \<and> below x m"
  shows "fold deliver xs m = m"
  using assms by (induction xs) (auto simp: deliver_below)

text \<open>Delivering the same values again, in any order and any number of times, changes nothing.\<close>

lemma redelivery_stable:
  assumes "\<And>x. x \<in> set xs \<Longrightarrow> compat x l"
    and "\<And>x x'. x \<in> set xs \<Longrightarrow> x' \<in> set xs \<Longrightarrow> compat x x'"
    and "set ys \<subseteq> set xs"
  shows "fold deliver ys (fold deliver xs l) = fold deliver xs l"
proof (cases "xs = []")
  case True
  with assms(3) show ?thesis by simp
next
  case False
  have "compat y (fold deliver xs l)" if "y \<in> set ys" for y
    using assms that by (intro fold_compat) auto
  moreover have "below y (fold deliver xs l)" if "y \<in> set ys" for y
    using fold_covers [OF assms(1,2)] assms(3) that by blast
  ultimately show ?thesis
    using fold_settled [OF False] by (intro fold_stable) auto
qed

end

end
