(* ===== verification/Object_Record.thy ===== *)
theory Object_Record
  imports Replicated_Register "HOL-Library.Finite_Map"
begin

section \<open>Object rows and their replication (crates/arca-core/src/types.rs)\<close>

text \<open>
  The row of one object version and the rule by which a node merges a replicated copy of a row
  with its own: \<^verbatim>\<open>last_modified\<close> decides, and on a tie of one content lineage the Object Lock
  columns and the content columns are merged as two separate registers. A blob id is its string.
\<close>

record ObjectPart =
  part_number :: nat
  op_size :: nat
  checksum :: "string option"

record ObjectRecord =
  bucket :: string
  key :: string
  blob_id :: string
  size :: nat
  etag :: string
  content_type :: "string option"
  last_modified :: timestamp
  metadata :: "(string, string) fmap"
  encryption_algorithm :: "string option"
  encryption_key_id :: "string option"
  owner :: string
  version_id :: "string option"
  is_latest :: bool
  is_delete_marker :: bool
  is_tombstone :: bool
  retention_mode :: "string option"
  retain_until_date :: "timestamp option"
  legal_hold_status :: "string option"
  storage_class :: string
  checksum_algorithm :: "string option"
  checksum_value :: "string option"
  parts :: "ObjectPart list option"
  replication_status :: "string option"
  lock_updated_at :: "timestamp option"
  content_updated_at :: "timestamp option"

datatype VersioningState = Unversioned | Enabled | Suspended

definition same_replicated_content :: "ObjectRecord \<Rightarrow> ObjectRecord \<Rightarrow> bool" where
  "same_replicated_content a b \<longleftrightarrow> a\<lparr>is_latest := False\<rparr> = b\<lparr>is_latest := False\<rparr>"

text \<open>The two in-place registers, each taken over only when strictly newer.\<close>

definition merge_lock :: "ObjectRecord \<Rightarrow> ObjectRecord \<Rightarrow> ObjectRecord" where
  "merge_lock self merged =
     (if lock_updated_at merged < lock_updated_at self
      then merged\<lparr>retention_mode := retention_mode self,
             retain_until_date := retain_until_date self,
             legal_hold_status := legal_hold_status self,
             lock_updated_at := lock_updated_at self\<rparr>
      else merged)"

definition merge_content :: "ObjectRecord \<Rightarrow> ObjectRecord \<Rightarrow> ObjectRecord" where
  "merge_content self merged =
     (if content_updated_at merged < content_updated_at self
      then merged\<lparr>blob_id := blob_id self,
             encryption_algorithm := encryption_algorithm self,
             encryption_key_id := encryption_key_id self,
             content_updated_at := content_updated_at self\<rparr>
      else merged)"

definition resolve_replicated :: "ObjectRecord \<Rightarrow> ObjectRecord \<Rightarrow> ObjectRecord option" where
  "resolve_replicated self local =
     (if last_modified local < last_modified self then Some self
      else if last_modified self < last_modified local then None
      else if etag self \<noteq> etag local
      then (if blob_id local < blob_id self then Some self else None)
      else (let merged = merge_content self (merge_lock self local) in
            if same_replicated_content merged local then None else Some merged))"

text \<open>What the node holds afterwards: \<^const>\<open>None\<close> keeps the local row.\<close>

definition deliver :: "ObjectRecord \<Rightarrow> ObjectRecord \<Rightarrow> ObjectRecord" where
  "deliver self local = (case resolve_replicated self local of None \<Rightarrow> local | Some r \<Rightarrow> r)"

subsection \<open>Delivery as a last-writer-wins register\<close>

lemma merge_fields [simp]:
  "last_modified (merge_lock x l) = last_modified l" "etag (merge_lock x l) = etag l"
  "last_modified (merge_content x l) = last_modified l" "etag (merge_content x l) = etag l"
  "is_latest (merge_lock x l) = is_latest l" "is_latest (merge_content x l) = is_latest l"
  "content_updated_at (merge_lock x l) = content_updated_at l"
  "lock_updated_at (merge_content x l) = lock_updated_at l"
  "lock_updated_at (merge_lock x l) = max (lock_updated_at x) (lock_updated_at l)"
  "content_updated_at (merge_content x l) = max (content_updated_at x) (content_updated_at l)"
  by (auto simp: merge_lock_def merge_content_def max_def)

lemma merge_not_newer:
  "lock_updated_at x \<le> lock_updated_at l \<Longrightarrow> merge_lock x l = l"
  "content_updated_at x \<le> content_updated_at l \<Longrightarrow> merge_content x l = l"
  by (simp_all add: merge_lock_def merge_content_def not_less)

lemma same_replicated_content_eq:
  assumes "is_latest a = is_latest b"
  shows "same_replicated_content a b \<longleftrightarrow> a = b"
proof
  assume same: "same_replicated_content a b"
  have "a = a\<lparr>is_latest := False\<rparr>\<lparr>is_latest := is_latest a\<rparr>" by simp
  also have "\<dots> = b\<lparr>is_latest := False\<rparr>\<lparr>is_latest := is_latest b\<rparr>"
    using same assms by (simp only: same_replicated_content_def)
  also have "\<dots> = b" by simp
  finally show "a = b" .
qed (simp add: same_replicated_content_def)

lemma deliver_newer: "last_modified l < last_modified x \<Longrightarrow> deliver x l = x"
  by (simp add: deliver_def resolve_replicated_def)

lemma deliver_older: "last_modified x < last_modified l \<Longrightarrow> deliver x l = l"
  by (simp add: deliver_def resolve_replicated_def)

lemma deliver_overwrite:
  "last_modified x = last_modified l \<Longrightarrow> etag x \<noteq> etag l \<Longrightarrow>
     deliver x l = (if blob_id l < blob_id x then x else l)"
  by (simp add: deliver_def resolve_replicated_def)

lemma deliver_tie:
  "last_modified x = last_modified l \<Longrightarrow> etag x = etag l \<Longrightarrow>
     deliver x l = merge_content x (merge_lock x l)"
  by (simp add: deliver_def resolve_replicated_def Let_def same_replicated_content_eq)

lemmas deliver_cases = deliver_newer deliver_older deliver_overwrite deliver_tie

text \<open>A row covers another when it is newer, or of the same age with both registers as new.\<close>

definition row_below :: "ObjectRecord \<Rightarrow> ObjectRecord \<Rightarrow> bool" where
  "row_below x l \<longleftrightarrow> last_modified x < last_modified l \<or>
     last_modified x = last_modified l \<and> lock_updated_at x \<le> lock_updated_at l \<and>
     content_updated_at x \<le> content_updated_at l"

text \<open>No concurrent overwrite at the same instant: equal clocks mean one content lineage.\<close>

definition row_compat :: "ObjectRecord \<Rightarrow> ObjectRecord \<Rightarrow> bool" where
  "row_compat x l \<longleftrightarrow> (last_modified x = last_modified l \<longrightarrow> etag x = etag l)"

lemma deliver_stamp:
  "last_modified (deliver x l) = max (last_modified x) (last_modified l) \<and>
   ((last_modified (deliver x l), etag (deliver x l)) = (last_modified x, etag x) \<or>
    (last_modified (deliver x l), etag (deliver x l)) = (last_modified l, etag l))"
  by (cases "last_modified x" "last_modified l" rule: linorder_cases; cases "etag x = etag l")
    (auto simp: deliver_cases)

lemma row_below_deliver:
  assumes "row_compat x l"
  shows "row_below x (deliver x l)" and "row_below l (deliver x l)"
proof -
  consider "last_modified x < last_modified l" | "last_modified l < last_modified x"
    | (tie) "last_modified x = last_modified l" "etag x = etag l"
    using assms unfolding row_compat_def by (metis linorder_less_linear)
  then have "row_below x (deliver x l) \<and> row_below l (deliver x l)"
  proof cases
    case tie
    then show ?thesis by (simp add: row_below_def deliver_tie)
  qed (simp_all add: row_below_def deliver_newer deliver_older)
  then show "row_below x (deliver x l)" and "row_below l (deliver x l)" by simp_all
qed

lemma deliver_covered:
  assumes "row_compat x l" and "row_below x l"
  shows "deliver x l = l"
proof (cases "last_modified x < last_modified l")
  case True
  then show ?thesis by (rule deliver_older)
next
  case False
  then have "last_modified x = last_modified l" "lock_updated_at x \<le> lock_updated_at l"
    "content_updated_at x \<le> content_updated_at l"
    using assms(2) by (auto simp: row_below_def)
  with assms(1) show ?thesis by (simp add: row_compat_def deliver_tie merge_not_newer)
qed

interpretation obj: lww_register deliver row_below row_compat "\<lambda>_. True"
proof unfold_locales
  fix x y z :: ObjectRecord
  show "row_below x x" by (simp add: row_below_def)
  show "row_below x y \<Longrightarrow> row_below y z \<Longrightarrow> row_below x z"
    by (auto simp: row_below_def)
  show "row_compat x y \<Longrightarrow> row_compat z x \<Longrightarrow> row_compat z y \<Longrightarrow> row_compat z (deliver x y)"
    using deliver_stamp [of x y] by (auto simp: row_compat_def)
  show "row_compat x y \<Longrightarrow> row_below x (deliver x y)" by (rule row_below_deliver)
  show "row_compat x y \<Longrightarrow> row_below y (deliver x y)" by (rule row_below_deliver)
  show "row_compat x y \<Longrightarrow> True \<Longrightarrow> row_below x y \<Longrightarrow> deliver x y = y" by (rule deliver_covered)
qed simp

text \<open>
  once a node has received the rows \<open>xs\<close> of a version, receiving any of them again, in any
  order and any number of times, leaves its row as it is (so two caught-up nodes do not rewrite
  each other's tables forever), unless two writes of different content share one timestamp.
\<close>

theorem redelivery_is_noop:
  assumes "\<forall>x \<in> insert l (set xs). \<forall>y \<in> insert l (set xs).
      last_modified x = last_modified y \<longrightarrow> etag x = etag y"
    and "set ys \<subseteq> set xs"
  shows "fold deliver ys (fold deliver xs l) = fold deliver xs l"
proof (rule obj.redelivery_stable [OF _ _ assms(2)])
  fix x y
  assume "x \<in> set xs" and "y \<in> set xs"
  with assms(1) show "row_compat x l" and "row_compat x y" unfolding row_compat_def by blast+
qed

text \<open>A row to evaluate the definitions on.\<close>

definition sample_row :: "timestamp \<Rightarrow> string \<Rightarrow> string \<Rightarrow> ObjectRecord" where
  "sample_row lm e b =
     \<lparr>bucket = ''b'', key = ''k'', blob_id = b, size = 1, etag = e, content_type = None,
      last_modified = lm, metadata = fmempty, encryption_algorithm = None,
      encryption_key_id = None, owner = ''o'', version_id = None, is_latest = True,
      is_delete_marker = False, is_tombstone = False, retention_mode = None,
      retain_until_date = None, legal_hold_status = None, storage_class = ''STANDARD'',
      checksum_algorithm = None, checksum_value = None, parts = None,
      replication_status = None, lock_updated_at = None, content_updated_at = None\<rparr>"

definition held_row :: ObjectRecord where
  "held_row = (sample_row 7 ''e'' ''b1'')\<lparr>legal_hold_status := Some ''ON'', lock_updated_at := Some 9\<rparr>"

definition recrypted_row :: ObjectRecord where
  "recrypted_row = (sample_row 7 ''e'' ''b2'')\<lparr>encryption_algorithm := Some ''AES256'',
     content_updated_at := Some 20\<rparr>"

theorem redelivery_is_noop_witness:
  "fold deliver [held_row] (fold deliver [held_row, recrypted_row] (sample_row 7 ''e'' ''b1'')) =
   fold deliver [held_row, recrypted_row] (sample_row 7 ''e'' ''b1'')"
  by (rule redelivery_is_noop) (simp_all add: held_row_def recrypted_row_def sample_row_def)

text \<open>The columns of the two registers.\<close>

definition lock_columns :: "ObjectRecord \<Rightarrow> string option \<times> timestamp option \<times> string option" where
  "lock_columns r = (retention_mode r, retain_until_date r, legal_hold_status r)"

definition content_columns :: "ObjectRecord \<Rightarrow> string \<times> string option \<times> string option" where
  "content_columns r = (blob_id r, encryption_algorithm r, encryption_key_id r)"

lemma deliver_tie_registers:
  assumes "last_modified x = last_modified l" "etag x = etag l"
  shows "lock_columns (deliver x l) =
      lock_columns (if lock_updated_at l < lock_updated_at x then x else l)"
    and "content_columns (deliver x l) =
      content_columns (if content_updated_at l < content_updated_at x then x else l)"
    and "lock_updated_at (deliver x l) = max (lock_updated_at x) (lock_updated_at l)"
    and "content_updated_at (deliver x l) = max (content_updated_at x) (content_updated_at l)"
  by (simp_all add: deliver_tie [OF assms])
    (simp_all add: merge_lock_def merge_content_def lock_columns_def content_columns_def)

text \<open>
  when two copies of one content lineage meet, the lock columns of the result are those of
  the copy whose lock state changed last and the content columns those of the copy whose content
  was rewritten last, independently: a re-encryption can neither drop a legal hold set elsewhere
  nor be reverted by one.
\<close>

theorem registers_merge_independently:
  assumes "last_modified x = last_modified l" and "etag x = etag l"
  shows "lock_columns (deliver x l) =
      lock_columns (if lock_updated_at l < lock_updated_at x then x else l) \<and>
    lock_updated_at (deliver x l) = max (lock_updated_at x) (lock_updated_at l) \<and>
    content_columns (deliver x l) =
      content_columns (if content_updated_at l < content_updated_at x then x else l) \<and>
    content_updated_at (deliver x l) = max (content_updated_at x) (content_updated_at l)"
  using deliver_tie_registers [OF assms] by blast

theorem registers_merge_independently_witness:
  "lock_columns (deliver recrypted_row held_row) = (None, None, Some ''ON'') \<and>
   content_columns (deliver recrypted_row held_row) = (''b2'', Some ''AES256'', None)"
proof -
  have h: "last_modified recrypted_row = last_modified held_row" "etag recrypted_row = etag held_row"
    by (simp_all add: held_row_def recrypted_row_def sample_row_def)
  from registers_merge_independently [OF h] show ?thesis
    by (simp add: lock_columns_def content_columns_def held_row_def recrypted_row_def sample_row_def)
qed

subsection \<open>Convergence of two nodes\<close>

text \<open>
  Two copies of a version row as the system writes them: an equal clock means one lineage (the
  rows agree outside the two registers, and equal stamps of a register mean equal columns) or an
  overwrite with another blob.
\<close>

definition outside_registers :: "ObjectRecord \<Rightarrow> ObjectRecord" where
  "outside_registers r = r\<lparr>is_latest := False, retention_mode := None, retain_until_date := None,
     legal_hold_status := None, lock_updated_at := None, blob_id := [],
     encryption_algorithm := None, encryption_key_id := None, content_updated_at := None\<rparr>"

definition one_lineage :: "ObjectRecord \<Rightarrow> ObjectRecord \<Rightarrow> bool" where
  "one_lineage a b \<longleftrightarrow> (last_modified a = last_modified b \<longrightarrow>
     (if etag a = etag b
      then outside_registers a = outside_registers b \<and>
        (lock_updated_at a = lock_updated_at b \<longrightarrow> lock_columns a = lock_columns b) \<and>
        (content_updated_at a = content_updated_at b \<longrightarrow> content_columns a = content_columns b)
      else blob_id a \<noteq> blob_id b))"

lemma same_replicated_content_iff:
  "same_replicated_content a b \<longleftrightarrow> outside_registers a = outside_registers b \<and>
     lock_columns a = lock_columns b \<and> lock_updated_at a = lock_updated_at b \<and>
     content_columns a = content_columns b \<and> content_updated_at a = content_updated_at b"
  by (cases a; cases b)
    (auto simp: same_replicated_content_def outside_registers_def lock_columns_def content_columns_def)

lemma outside_registers_deliver_tie:
  assumes "last_modified x = last_modified l" "etag x = etag l"
  shows "outside_registers (deliver x l) = outside_registers l"
  by (simp add: deliver_tie [OF assms] merge_lock_def merge_content_def outside_registers_def)

lemma register_symmetric:
  assumes "stamp a = stamp b \<Longrightarrow> cols a = cols b"
  shows "cols (if stamp b < stamp a then a else b) = cols (if stamp a < (stamp b :: 'a::linorder) then b else a)"
  using assms by (cases "stamp a" "stamp b" rule: linorder_cases) auto

text \<open>
  two nodes that exchange their copies of a version row end up with the same replicated
  content, whichever of them holds which copy.
\<close>

theorem two_nodes_converge:
  assumes "one_lineage a b"
  shows "same_replicated_content (deliver a b) (deliver b a)"
proof -
  consider (lt) "last_modified a < last_modified b" | (gt) "last_modified b < last_modified a"
    | (tie) "last_modified a = last_modified b" "etag a = etag b"
    | (overwrite) "last_modified a = last_modified b" "etag a \<noteq> etag b"
    by (metis linorder_less_linear)
  then show ?thesis
  proof cases
    case lt
    then show ?thesis by (simp add: deliver_newer deliver_older same_replicated_content_def)
  next
    case gt
    then show ?thesis by (simp add: deliver_newer deliver_older same_replicated_content_def)
  next
    case tie
    then have tie': "last_modified b = last_modified a" "etag b = etag a" by simp_all
    from assms tie have base: "outside_registers a = outside_registers b"
      and lock: "lock_updated_at a = lock_updated_at b \<Longrightarrow> lock_columns a = lock_columns b"
      and content: "content_updated_at a = content_updated_at b \<Longrightarrow> content_columns a = content_columns b"
      by (auto simp: one_lineage_def)
    show ?thesis
      unfolding same_replicated_content_iff deliver_tie_registers [OF tie] deliver_tie_registers [OF tie']
        outside_registers_deliver_tie [OF tie] outside_registers_deliver_tie [OF tie']
      using base register_symmetric [of lock_updated_at a b lock_columns, OF lock]
        register_symmetric [of content_updated_at a b content_columns, OF content]
      by (simp add: max.commute)
  next
    case overwrite
    then have "blob_id a \<noteq> blob_id b" using assms by (simp add: one_lineage_def)
    then have "blob_id a < blob_id b \<or> blob_id b < blob_id a" by (simp only: neq_iff)
    with overwrite show ?thesis by (auto simp: deliver_overwrite same_replicated_content_def)
  qed
qed

theorem two_nodes_converge_witness:
  "same_replicated_content (deliver held_row recrypted_row) (deliver recrypted_row held_row)"
  by (rule two_nodes_converge)
    (simp add: one_lineage_def held_row_def recrypted_row_def sample_row_def outside_registers_def)

end
