(* ===== verification/Preconditions.thy ===== *)
theory Preconditions
  imports S3_Error Object_Record
begin

section \<open>Conditional requests (arca-core/src/s3/etag.rs, arca-core/src/store/metadata.rs)\<close>

text \<open>
  ETag comparison and the compare-and-swap preconditions of a write and of a delete. The store
  evaluates them inside the transaction that makes the change (theory \<^verbatim>\<open>Object_Store\<close>). An instant is in
  nanoseconds, so \<^verbatim>\<open>timestamp()\<close> is its floor in seconds.
\<close>

text \<open>\<^verbatim>\<open>str::trim_matches\<close> with one character.\<close>

definition trim_matches :: "char \<Rightarrow> string \<Rightarrow> string" where
  "trim_matches c s = trim_by (\<lambda>d. d = c) s"

definition quote :: char where
  "quote = CHR 0x22"

definition etag_matches :: "string \<Rightarrow> string \<Rightarrow> bool" where
  "etag_matches header_val e =
     (let trimmed = trim header_val in
      if trimmed = ''*'' then True
      else list_ex (\<lambda>v. trim_matches quote (trim v) = trim_matches quote e)
             (split_on (CHR 0x2C) trimmed))"

definition quoted_etag :: "ObjectRecord \<Rightarrow> string" where
  "quoted_etag obj = [quote] @ etag obj @ [quote]"

record WritePrecondition =
  w_if_match :: "string option"
  w_if_none_match :: "string option"

definition write_pre_is_empty :: "WritePrecondition \<Rightarrow> bool" where
  "write_pre_is_empty p \<longleftrightarrow> w_if_match p = None \<and> w_if_none_match p = None"

definition evaluate_if_match :: "string option \<Rightarrow> ObjectRecord option \<Rightarrow> S3ErrorCode option" where
  "evaluate_if_match h current =
     (case h of
        None \<Rightarrow> None
      | Some expected \<Rightarrow>
          (case current of
             Some obj \<Rightarrow> if etag_matches expected (quoted_etag obj) then None else Some PreconditionFailed
           | None \<Rightarrow> Some NoSuchKey))"

definition evaluate_if_none_match :: "string option \<Rightarrow> ObjectRecord option \<Rightarrow> S3ErrorCode option" where
  "evaluate_if_none_match h current =
     (case (h, current) of
        (Some expected, Some obj) \<Rightarrow>
          if etag_matches expected (quoted_etag obj) then Some PreconditionFailed else None
      | _ \<Rightarrow> None)"

text \<open>\<^const>\<open>None\<close> is \<^verbatim>\<open>Ok(())\<close>; the first condition that fails decides the error.\<close>

definition evaluate_write :: "WritePrecondition \<Rightarrow> ObjectRecord option \<Rightarrow> S3ErrorCode option" where
  "evaluate_write p current =
     (case evaluate_if_match (w_if_match p) current of
        Some code \<Rightarrow> Some code
      | None \<Rightarrow> evaluate_if_none_match (w_if_none_match p) current)"

record DeletePrecondition =
  d_if_match :: "string option"
  d_if_match_last_modified :: "timestamp option"
  d_if_match_size :: "nat option"
  d_if_match_blob_id :: "string option"

definition delete_pre_is_empty :: "DeletePrecondition \<Rightarrow> bool" where
  "delete_pre_is_empty p \<longleftrightarrow>
     d_if_match p = None \<and> d_if_match_last_modified p = None \<and>
     d_if_match_size p = None \<and> d_if_match_blob_id p = None"

definition unix_seconds :: "timestamp \<Rightarrow> int" where
  "unix_seconds t = t div 1000000000"

definition evaluate_delete :: "DeletePrecondition \<Rightarrow> ObjectRecord option \<Rightarrow> S3ErrorCode option" where
  "evaluate_delete p current =
     (case current of
        None \<Rightarrow> None
      | Some obj \<Rightarrow>
          if (\<exists>e \<in> set_option (d_if_match p). \<not> etag_matches e (quoted_etag obj)) then Some PreconditionFailed
          else if (\<exists>t \<in> set_option (d_if_match_last_modified p).
                     unix_seconds (last_modified obj) \<noteq> unix_seconds t) then Some PreconditionFailed
          else if (\<exists>n \<in> set_option (d_if_match_size p). size obj \<noteq> n) then Some PreconditionFailed
          else if (\<exists>b \<in> set_option (d_if_match_blob_id p). blob_id obj \<noteq> b) then Some PreconditionFailed
          else None)"

record BatchDeleteEntry =
  be_key :: string
  be_version_id :: "string option"
  be_pre :: DeletePrecondition

subsection \<open>What the conditions mean\<close>

lemma dropWhile_none: "\<forall>x \<in> set s. \<not> P x \<Longrightarrow> dropWhile P s = s"
  by (cases s) auto

lemma trim_by_all: "\<forall>x \<in> set s. \<not> P x \<Longrightarrow> trim_by P s = s"
  by (simp add: trim_by_def dropWhile_none)

lemma trim_by_surrounded:
  assumes none: "\<forall>x \<in> set s. \<not> P x" and c: "P c"
  shows "trim_by P (c # s @ [c]) = s"
proof (cases s)
  case Nil
  with c show ?thesis by (simp add: trim_by_def)
next
  case (Cons a t)
  with none have "\<not> P a" by simp
  then have "trim_by P (c # s @ [c]) = rev (dropWhile P (rev s))"
    using Cons c by (simp add: trim_by_def)
  then show ?thesis using none by (simp add: dropWhile_none)
qed

lemma etag_matches_star [simp]: "etag_matches ''*'' e"
  by (simp add: etag_matches_def trim_def trim_by_def is_ascii_space_def)

text \<open>An ETag the store makes: no quote, comma, star or white space.\<close>

definition plain_etag :: "string \<Rightarrow> bool" where
  "plain_etag s \<longleftrightarrow> (\<forall>c \<in> set s. c \<noteq> quote \<and> c \<noteq> CHR 0x2C \<and> c \<noteq> CHR 0x2A \<and> \<not> is_ascii_space c)"

lemma plain_etag_trim: "plain_etag s \<Longrightarrow> trim s = s"
  unfolding trim_def plain_etag_def by (rule trim_by_all) blast

lemma plain_etag_unquoted: "plain_etag s \<Longrightarrow> trim_matches quote s = s"
  unfolding trim_matches_def plain_etag_def by (rule trim_by_all) blast

lemma plain_etag_quoted: "plain_etag s \<Longrightarrow> trim_matches quote (quote # s @ [quote]) = s"
  unfolding trim_matches_def plain_etag_def by (rule trim_by_surrounded) blast+

lemma plain_etag_no_sep: "plain_etag s \<Longrightarrow> CHR 0x2C \<notin> set s"
  unfolding plain_etag_def by blast

lemma plain_etag_not_star:
  assumes "plain_etag s"
  shows "s \<noteq> ''*''"
proof
  assume "s = ''*''"
  then have "CHR 0x2A \<in> set s" by simp
  with assms show False unfolding plain_etag_def by blast
qed

lemmas plain_etagD = plain_etag_trim plain_etag_unquoted plain_etag_quoted plain_etag_no_sep
  plain_etag_not_star

lemma etag_matches_plain:
  assumes "plain_etag h" "plain_etag (etag obj)"
  shows "etag_matches h (quoted_etag obj) \<longleftrightarrow> h = etag obj"
  using plain_etagD [OF assms(1)] plain_etagD [OF assms(2)]
  by (simp add: etag_matches_def Let_def split_on_no_sep quoted_etag_def)

lemma evaluate_write_ok_iff:
  "evaluate_write p current = None \<longleftrightarrow>
     (case current of
        None \<Rightarrow> w_if_match p = None
      | Some obj \<Rightarrow>
          (\<forall>e. w_if_match p = Some e \<longrightarrow> etag_matches e (quoted_etag obj)) \<and>
          (\<forall>e. w_if_none_match p = Some e \<longrightarrow> \<not> etag_matches e (quoted_etag obj)))"
  by (auto simp: evaluate_write_def evaluate_if_match_def evaluate_if_none_match_def
      split: option.splits)

lemma evaluate_write_empty: "write_pre_is_empty p \<Longrightarrow> evaluate_write p current = None"
  by (simp add: evaluate_write_ok_iff write_pre_is_empty_def split: option.splits)

lemma evaluate_delete_missing [simp]: "evaluate_delete p None = None"
  by (simp add: evaluate_delete_def)

lemma evaluate_delete_error: "evaluate_delete p current = Some code \<Longrightarrow> code = PreconditionFailed"
  by (auto simp: evaluate_delete_def split: option.splits if_splits)

end
