(* ===== verification/Object_Store.thy ===== *)
theory Object_Store
  imports Control_Db Preconditions
begin

section \<open>The object tables of the SQLite store (arca-storage/src/sqlite/metadata.rs)\<close>

text \<open>
  The rows of the \<^verbatim>\<open>objects\<close> table with their \<^verbatim>\<open>rowid\<close> and change sequence number, next to the control
  tables of theory \<^verbatim>\<open>Control_Db\<close>. Every write operation of the metadata store on objects is one
  function from tables to tables; a transaction that is rolled back is an error value. The clock of
  \<^verbatim>\<open>Utc::now()\<close> and the ids of \<^verbatim>\<open>Uuid::new_v4()\<close> are parameters (\<open>now\<close>, \<open>vid\<close>), and so is \<open>cluster\<close>, the
  \<^verbatim>\<open>cluster_mode\<close> flag of the store. Instants are stored as \<^verbatim>\<open>RFC 3339\<close> text in UTC, whose byte order is the
  order of the instants.
\<close>

record stored_row =
  rowid :: nat
  obj :: ObjectRecord
  seq :: nat

record object_db =
  tables :: control_db
  objects :: "stored_row list"
  object_seq :: nat

datatype CasError = Precondition S3ErrorCode | Store store_error

definition get_versioning_state :: "object_db \<Rightarrow> string \<Rightarrow> VersioningState" where
  "get_versioning_state db b =
     (case get_bucket_config b ''versioning'' (tables db) of
        Some v \<Rightarrow> if v = ''Enabled'' then Enabled else if v = ''Suspended'' then Suspended else Unversioned
      | None \<Rightarrow> Unversioned)"

subsection \<open>Selecting rows\<close>

definition of_key :: "string \<Rightarrow> string \<Rightarrow> stored_row \<Rightarrow> bool" where
  "of_key b k x \<longleftrightarrow> bucket (obj x) = b \<and> key (obj x) = k"

text \<open>The S3 version id \<^verbatim>\<open>null\<close> names the row without a version id.\<close>

definition named_version :: "string \<Rightarrow> stored_row \<Rightarrow> bool" where
  "named_version v x \<longleftrightarrow> version_id (obj x) = (if v = ''null'' then None else Some v)"

text \<open>The column list of the queries that serve requests leaves out the part layout.\<close>

definition object_columns :: "ObjectRecord \<Rightarrow> ObjectRecord" where
  "object_columns r = r\<lparr>parts := None\<rparr>"

definition query_row :: "(stored_row \<Rightarrow> bool) \<Rightarrow> object_db \<Rightarrow> ObjectRecord option" where
  "query_row P db = map_option (object_columns \<circ> obj) (find P (objects db))"

definition fetch_latest_object :: "string \<Rightarrow> string \<Rightarrow> object_db \<Rightarrow> ObjectRecord option" where
  "fetch_latest_object b k db = query_row (\<lambda>x. of_key b k x \<and> is_latest (obj x)) db"

definition fetch_current_object :: "string \<Rightarrow> string \<Rightarrow> object_db \<Rightarrow> ObjectRecord option" where
  "fetch_current_object b k db =
     query_row (\<lambda>x. of_key b k x \<and> is_latest (obj x) \<and> \<not> is_delete_marker (obj x)) db"

definition fetch_null_version :: "string \<Rightarrow> string \<Rightarrow> object_db \<Rightarrow> ObjectRecord option" where
  "fetch_null_version b k db =
     query_row (\<lambda>x. of_key b k x \<and> version_id (obj x) = None \<and> \<not> is_tombstone (obj x)) db"

definition get_object :: "string \<Rightarrow> string \<Rightarrow> object_db \<Rightarrow> ObjectRecord option" where
  "get_object b k db =
     query_row (\<lambda>x. of_key b k x \<and> is_latest (obj x) \<and> \<not> is_delete_marker (obj x)) db"

definition get_latest_object :: "string \<Rightarrow> string \<Rightarrow> object_db \<Rightarrow> ObjectRecord option" where
  "get_latest_object b k db = query_row (\<lambda>x. of_key b k x \<and> is_latest (obj x)) db"

definition get_object_version :: "string \<Rightarrow> string \<Rightarrow> string \<Rightarrow> object_db \<Rightarrow> ObjectRecord option" where
  "get_object_version b k v db =
     query_row (\<lambda>x. of_key b k x \<and> named_version v x \<and> \<not> is_tombstone (obj x)) db"

definition get_object_parts ::
  "string \<Rightarrow> string \<Rightarrow> string option \<Rightarrow> object_db \<Rightarrow> ObjectPart list option" where
  "get_object_parts b k v db =
     Option.bind (find (\<lambda>x. of_key b k x \<and> version_id (obj x) = v \<and> \<not> is_tombstone (obj x)) (objects db))
       (\<lambda>x. parts (obj x))"

definition tag_vid :: "ObjectRecord \<Rightarrow> string" where
  "tag_vid r = (case version_id r of None \<Rightarrow> [] | Some v \<Rightarrow> v)"

definition tag_count :: "object_db \<Rightarrow> ObjectRecord \<Rightarrow> nat" where
  "tag_count db r = length (filter (\<lambda>t. ot_bucket t = bucket r \<and> ot_key t = key r \<and>
     ot_version_id t = tag_vid r) (db_object_tags (tables db)))"

definition get_object_with_tag_count ::
  "string \<Rightarrow> string \<Rightarrow> object_db \<Rightarrow> (ObjectRecord \<times> nat) option" where
  "get_object_with_tag_count b k db = map_option (\<lambda>r. (r, tag_count db r)) (get_object b k db)"

definition get_object_version_with_tag_count ::
  "string \<Rightarrow> string \<Rightarrow> string \<Rightarrow> object_db \<Rightarrow> (ObjectRecord \<times> nat) option" where
  "get_object_version_with_tag_count b k v db =
     map_option (\<lambda>r. (r, tag_count db r)) (get_object_version b k v db)"

definition bucket_is_empty :: "string \<Rightarrow> object_db \<Rightarrow> bool" where
  "bucket_is_empty b db \<longleftrightarrow> \<not> list_ex (\<lambda>x. bucket (obj x) = b) (objects db)"

definition get_stats :: "object_db \<Rightarrow> nat \<times> nat \<times> nat" where
  "get_stats db =
     (let current = filter (\<lambda>x. is_latest (obj x) \<and> \<not> is_delete_marker (obj x)) (objects db) in
      (length (db_buckets (tables db)), length current, sum_list (map (size \<circ> obj) current)))"

subsection \<open>Row statements\<close>

definition update_where ::
  "(stored_row \<Rightarrow> bool) \<Rightarrow> (stored_row \<Rightarrow> stored_row) \<Rightarrow> object_db \<Rightarrow> object_db" where
  "update_where P f db = db\<lparr>objects := map (\<lambda>x. if P x then f x else x) (objects db)\<rparr>"

definition delete_where :: "(stored_row \<Rightarrow> bool) \<Rightarrow> object_db \<Rightarrow> object_db" where
  "delete_where P db = db\<lparr>objects := filter (\<lambda>x. \<not> P x) (objects db)\<rparr>"

definition delete_tags_where :: "(object_tag_row \<Rightarrow> bool) \<Rightarrow> object_db \<Rightarrow> object_db" where
  "delete_tags_where P db =
     db\<lparr>tables := (tables db)\<lparr>db_object_tags := filter (\<lambda>t. \<not> P t) (db_object_tags (tables db))\<rparr>\<rparr>"

definition tag_of :: "string \<Rightarrow> string \<Rightarrow> object_tag_row \<Rightarrow> bool" where
  "tag_of b k t \<longleftrightarrow> ot_bucket t = b \<and> ot_key t = k"

definition tag_of_version :: "string \<Rightarrow> string \<Rightarrow> string \<Rightarrow> object_tag_row \<Rightarrow> bool" where
  "tag_of_version b k v t \<longleftrightarrow> tag_of b k t \<and> ot_version_id t = v"

definition next_object_seq :: "object_db \<Rightarrow> nat \<times> object_db" where
  "next_object_seq db = (let s = Suc (object_seq db) in (s, db\<lparr>object_seq := s\<rparr>))"

text \<open>A new row gets a rowid above every other and a fresh sequence number.\<close>

definition next_rowid :: "stored_row list \<Rightarrow> nat" where
  "next_rowid rows = Suc (foldr (max \<circ> rowid) rows 0)"

definition append_row :: "ObjectRecord \<Rightarrow> object_db \<Rightarrow> object_db" where
  "append_row r db =
     (case next_object_seq db of
        (s, db1) \<Rightarrow> db1\<lparr>objects := objects db1 @
          [\<lparr>rowid = next_rowid (objects db1), obj = r, seq = s\<rparr>]\<rparr>)"

text \<open>
  The unique index \<^verbatim>\<open>idx_objects_latest\<close> admits one latest row per key. \<^verbatim>\<open>insert_object_row\<close> does not
  write \<^verbatim>\<open>replication_status\<close>; \<^verbatim>\<open>insert_replicated_row\<close> does, and never inserts a latest row.
\<close>

definition insert_row :: "ObjectRecord \<Rightarrow> object_db \<Rightarrow> store_error + object_db" where
  "insert_row r db =
     (if is_latest r \<and> list_ex (\<lambda>x. of_key (bucket r) (key r) x \<and> is_latest (obj x)) (objects db)
      then Inl (UniqueViolation ''idx_objects_latest'')
      else Inr (append_row r db))"

definition insert_object_row :: "ObjectRecord \<Rightarrow> object_db \<Rightarrow> store_error + object_db" where
  "insert_object_row r db = insert_row (r\<lparr>replication_status := None\<rparr>) db"

definition insert_replicated_row :: "ObjectRecord \<Rightarrow> object_db \<Rightarrow> object_db" where
  "insert_replicated_row r db = append_row (r\<lparr>is_latest := False\<rparr>) db"

definition set_latest :: "bool \<Rightarrow> stored_row \<Rightarrow> stored_row" where
  "set_latest v x = x\<lparr>obj := (obj x)\<lparr>is_latest := v\<rparr>\<rparr>"

definition clear_latest :: "string \<Rightarrow> string \<Rightarrow> object_db \<Rightarrow> object_db" where
  "clear_latest b k db = update_where (\<lambda>x. of_key b k x \<and> is_latest (obj x)) (set_latest False) db"

text \<open>\<^verbatim>\<open>ORDER BY last_modified DESC, version_id DESC, blob_id DESC LIMIT 1\<close>, a missing version id lowest.\<close>

definition rank :: "ObjectRecord \<Rightarrow> timestamp \<times> string option \<times> string" where
  "rank r = (last_modified r, version_id r, blob_id r)"

fun winner :: "stored_row list \<Rightarrow> stored_row option" where
  "winner [] = None"
| "winner (x # xs) =
     (case winner xs of
        None \<Rightarrow> Some x
      | Some y \<Rightarrow> if rank (obj x) < rank (obj y) then Some y else Some x)"

definition live_of_key :: "string \<Rightarrow> string \<Rightarrow> stored_row \<Rightarrow> bool" where
  "live_of_key b k x \<longleftrightarrow> of_key b k x \<and> \<not> is_tombstone (obj x)"

definition recompute_is_latest :: "string \<Rightarrow> string \<Rightarrow> object_db \<Rightarrow> object_db" where
  "recompute_is_latest b k db =
     (let db1 = clear_latest b k db in
      case winner (filter (live_of_key b k) (objects db1)) of
        None \<Rightarrow> db1
      | Some w \<Rightarrow> update_where (\<lambda>x. rowid x = rowid w) (set_latest True) db1)"

text \<open>\<^verbatim>\<open>SET is_tombstone = 1, is_delete_marker = 0, blob_id = '', size = 0, last_modified = now, seq = s\<close>.\<close>

definition entomb :: "timestamp \<Rightarrow> nat \<Rightarrow> stored_row \<Rightarrow> stored_row" where
  "entomb now s x =
     x\<lparr>obj := (obj x)\<lparr>is_tombstone := True, is_delete_marker := False, blob_id := [], size := 0,
                   last_modified := now\<rparr>, seq := s\<rparr>"

subsection \<open>Object tags\<close>

fun insert_tags ::
  "string \<Rightarrow> string \<Rightarrow> string \<Rightarrow> (string \<times> string) list \<Rightarrow> object_db \<Rightarrow> store_error + object_db" where
  "insert_tags b k v [] db = Inr db"
| "insert_tags b k v ((tk, tv) # ts) db =
     (if list_ex (\<lambda>t. tag_of_version b k v t \<and> ot_tag_key t = tk) (db_object_tags (tables db))
      then Inl (UniqueViolation ''object_tags'')
      else insert_tags b k v ts
        (db\<lparr>tables := (tables db)\<lparr>db_object_tags := db_object_tags (tables db) @
           [\<lparr>ot_bucket = b, ot_key = k, ot_version_id = v, ot_tag_key = tk, ot_tag_value = tv\<rparr>]\<rparr>\<rparr>))"

definition write_object_tags ::
  "string \<Rightarrow> string \<Rightarrow> string \<Rightarrow> (string \<times> string) list \<Rightarrow> object_db \<Rightarrow> store_error + object_db" where
  "write_object_tags b k v tags db =
     insert_tags b k v tags (delete_tags_where (tag_of_version b k v) db)"

definition get_object_tags ::
  "string \<Rightarrow> string \<Rightarrow> string \<Rightarrow> object_db \<Rightarrow> (string \<times> string) list" where
  "get_object_tags b k v db =
     map (\<lambda>t. (ot_tag_key t, ot_tag_value t))
       (sort_key ot_tag_key (filter (tag_of_version b k v) (db_object_tags (tables db))))"

definition put_object_tags ::
  "string \<Rightarrow> string \<Rightarrow> string \<Rightarrow> (string \<times> string) list \<Rightarrow> object_db \<Rightarrow> store_error + object_db" where
  "put_object_tags b k v tags db = write_object_tags b k v tags db"

definition delete_object_tags :: "string \<Rightarrow> string \<Rightarrow> string \<Rightarrow> object_db \<Rightarrow> bool \<times> object_db" where
  "delete_object_tags b k v db =
     (list_ex (tag_of_version b k v) (db_object_tags (tables db)),
      delete_tags_where (tag_of_version b k v) db)"

subsection \<open>Installing a version\<close>

definition current_version :: "string option \<Rightarrow> ObjectRecord \<Rightarrow> ObjectRecord" where
  "current_version v r = r\<lparr>version_id := v, is_latest := True, is_delete_marker := False\<rparr>"

definition install_unversioned ::
  "ObjectRecord \<Rightarrow> object_db \<Rightarrow> store_error + (ObjectRecord option \<times> ObjectRecord \<times> object_db)" where
  "install_unversioned r db =
     (let b = bucket r; k = key r; old = fetch_latest_object b k db;
          db1 = delete_tags_where (tag_of b k) (delete_where (of_key b k) db);
          r1 = current_version None r in
      case insert_object_row r1 db1 of
        Inl e \<Rightarrow> Inl e
      | Inr db2 \<Rightarrow> Inr (old, r1, if is_tombstone r1 then recompute_is_latest b k db2 else db2))"

definition install_enabled ::
  "string \<Rightarrow> ObjectRecord \<Rightarrow> object_db \<Rightarrow> store_error + (ObjectRecord option \<times> ObjectRecord \<times> object_db)" where
  "install_enabled vid r db =
     (let b = bucket r; k = key r; r1 = current_version (Some vid) r in
      case insert_object_row r1 (clear_latest b k db) of
        Inl e \<Rightarrow> Inl e
      | Inr db2 \<Rightarrow> Inr (None, r1, recompute_is_latest b k db2))"

definition drop_null_version :: "string \<Rightarrow> string \<Rightarrow> object_db \<Rightarrow> object_db" where
  "drop_null_version b k db =
     clear_latest b k (delete_tags_where (tag_of_version b k [])
       (delete_where (\<lambda>x. of_key b k x \<and> version_id (obj x) = None) db))"

definition install_suspended ::
  "ObjectRecord \<Rightarrow> object_db \<Rightarrow> store_error + (ObjectRecord option \<times> ObjectRecord \<times> object_db)" where
  "install_suspended r db =
     (let b = bucket r; k = key r; old_null = fetch_null_version b k db; r1 = current_version None r in
      case insert_object_row r1 (drop_null_version b k db) of
        Inl e \<Rightarrow> Inl e
      | Inr db2 \<Rightarrow> Inr (old_null, r1, recompute_is_latest b k db2))"

definition install_object ::
  "string \<Rightarrow> ObjectRecord \<Rightarrow> WritePrecondition \<Rightarrow> object_db
     \<Rightarrow> CasError + (ObjectRecord option \<times> ObjectRecord \<times> object_db)" where
  "install_object vid r pre db =
     (case (if write_pre_is_empty pre then None
            else evaluate_write pre (fetch_current_object (bucket r) (key r) db)) of
        Some code \<Rightarrow> Inl (Precondition code)
      | None \<Rightarrow>
          map_sum Store id
            (case get_versioning_state db (bucket r) of
               Unversioned \<Rightarrow> install_unversioned r db
             | Enabled \<Rightarrow> install_enabled vid r db
             | Suspended \<Rightarrow> install_suspended r db))"

definition put_object_tagged_if ::
  "string \<Rightarrow> ObjectRecord \<Rightarrow> WritePrecondition \<Rightarrow> (string \<times> string) list \<Rightarrow> object_db
     \<Rightarrow> CasError + ((ObjectRecord option \<times> string option) \<times> object_db)" where
  "put_object_tagged_if vid r pre tags db =
     (case install_object vid r pre db of
        Inl e \<Rightarrow> Inl e
      | Inr (old, r1, db1) \<Rightarrow>
          (case (if tags = [] then Inr db1
                 else write_object_tags (bucket r1) (key r1) (tag_vid r1) tags db1) of
             Inl e \<Rightarrow> Inl (Store e)
           | Inr db2 \<Rightarrow> Inr ((old, version_id r1), db2)))"

definition put_object_if ::
  "string \<Rightarrow> ObjectRecord \<Rightarrow> WritePrecondition \<Rightarrow> object_db
     \<Rightarrow> CasError + ((ObjectRecord option \<times> string option) \<times> object_db)" where
  "put_object_if vid r pre db = put_object_tagged_if vid r pre [] db"

record CompletedUpload =
  cu_old :: "ObjectRecord option"
  cu_version_id :: "string option"
  cu_parts :: "PartRecord list"

definition complete_multipart_object_tagged ::
  "string \<Rightarrow> string \<Rightarrow> ObjectRecord \<Rightarrow> WritePrecondition \<Rightarrow> (string \<times> string) list \<Rightarrow> object_db
     \<Rightarrow> CasError + (CompletedUpload \<times> object_db)" where
  "complete_multipart_object_tagged vid u r pre tags db =
     (if \<not> has_key upload_id u (db_uploads (tables db)) then Inl (Precondition NoSuchUpload)
      else case put_object_tagged_if vid r pre tags db of
        Inl e \<Rightarrow> Inl e
      | Inr ((old, v), db1) \<Rightarrow>
          (case take_upload u (tables db1) of
             (ps, ct) \<Rightarrow> Inr (\<lparr>cu_old = old, cu_version_id = v, cu_parts = ps\<rparr>, db1\<lparr>tables := ct\<rparr>)))"

subsection \<open>Deleting\<close>

definition delete_marker :: "string \<Rightarrow> string \<Rightarrow> timestamp \<Rightarrow> string \<Rightarrow> string option \<Rightarrow> ObjectRecord" where
  "delete_marker b k now marker_owner v =
     \<lparr>bucket = b, key = k, blob_id = [], size = 0, etag = [], content_type = None, last_modified = now,
      metadata = fmempty, encryption_algorithm = None, encryption_key_id = None, owner = marker_owner,
      version_id = v, is_latest = True, is_delete_marker = True, is_tombstone = False,
      retention_mode = None, retain_until_date = None, legal_hold_status = None,
      storage_class = ''STANDARD'', checksum_algorithm = None, checksum_value = None, parts = None,
      replication_status = None, lock_updated_at = None, content_updated_at = None\<rparr>"

definition delete_unversioned ::
  "timestamp \<Rightarrow> string \<Rightarrow> string \<Rightarrow> bool \<Rightarrow> object_db \<Rightarrow> ObjectRecord option \<times> object_db" where
  "delete_unversioned now b k cluster db =
     (let old = fetch_latest_object b k db in
      (old,
       if old = None then db
       else if cluster then
         (case next_object_seq db of
            (s, db1) \<Rightarrow> recompute_is_latest b k
              (delete_tags_where (tag_of b k) (update_where (of_key b k) (entomb now s) db1)))
       else delete_tags_where (tag_of b k) (delete_where (of_key b k) db)))"

definition delete_latest_in_tx ::
  "string \<Rightarrow> timestamp \<Rightarrow> string \<Rightarrow> string \<Rightarrow> DeletePrecondition \<Rightarrow> string \<Rightarrow> bool \<Rightarrow> object_db
     \<Rightarrow> CasError + (ObjectRecord option \<times> object_db)" where
  "delete_latest_in_tx vid now b k pre marker_owner cluster db =
     (case (if delete_pre_is_empty pre then None
            else evaluate_delete pre (fetch_latest_object b k db)) of
        Some code \<Rightarrow> Inl (Precondition code)
      | None \<Rightarrow>
          (case get_versioning_state db b of
             Unversioned \<Rightarrow> Inr (delete_unversioned now b k cluster db)
           | Enabled \<Rightarrow>
               (let mk = delete_marker b k now marker_owner (Some vid) in
                map_sum Store (\<lambda>db1. (Some mk, db1)) (insert_row mk (clear_latest b k db)))
           | Suspended \<Rightarrow>
               (let old_null = fetch_null_version b k db;
                    mk = delete_marker b k now marker_owner None in
                map_sum Store (\<lambda>db1. (old_null, db1)) (insert_row mk (drop_null_version b k db)))))"

definition delete_object_if ::
  "string \<Rightarrow> timestamp \<Rightarrow> string \<Rightarrow> string \<Rightarrow> DeletePrecondition \<Rightarrow> string \<Rightarrow> bool \<Rightarrow> object_db
     \<Rightarrow> CasError + (ObjectRecord option \<times> object_db)" where
  "delete_object_if vid now b k pre marker_owner cluster db =
     delete_latest_in_tx vid now b k pre marker_owner cluster db"

definition version_tag_vid :: "string \<Rightarrow> string" where
  "version_tag_vid v = (if v = ''null'' then [] else v)"

definition remove_version ::
  "timestamp \<Rightarrow> string \<Rightarrow> string \<Rightarrow> string \<Rightarrow> bool \<Rightarrow> object_db \<Rightarrow> object_db" where
  "remove_version now b k v cluster db =
     (let P = (\<lambda>x. of_key b k x \<and> named_version v x);
          db1 = (if cluster then
                   (case next_object_seq db of (s, db0) \<Rightarrow> update_where P (entomb now s) db0)
                 else delete_where P db) in
      recompute_is_latest b k (delete_tags_where (tag_of_version b k (version_tag_vid v)) db1))"

definition delete_version_in_tx ::
  "timestamp \<Rightarrow> string \<Rightarrow> string \<Rightarrow> string \<Rightarrow> DeletePrecondition \<Rightarrow> bool \<Rightarrow> object_db
     \<Rightarrow> CasError + (ObjectRecord option \<times> object_db)" where
  "delete_version_in_tx now b k v pre cluster db =
     (let deleted = get_object_version b k v db;
          applies = (case deleted of Some r \<Rightarrow> \<not> is_delete_marker r | None \<Rightarrow> True) in
      case (if \<not> delete_pre_is_empty pre \<and> applies then evaluate_delete pre deleted else None) of
        Some code \<Rightarrow> Inl (Precondition code)
      | None \<Rightarrow> Inr (deleted, if deleted = None then db else remove_version now b k v cluster db))"

definition delete_object_version_if ::
  "timestamp \<Rightarrow> string \<Rightarrow> string \<Rightarrow> string \<Rightarrow> DeletePrecondition \<Rightarrow> bool \<Rightarrow> object_db
     \<Rightarrow> CasError + (ObjectRecord option \<times> object_db)" where
  "delete_object_version_if now b k v pre cluster db = delete_version_in_tx now b k v pre cluster db"

text \<open>
  A batch runs every entry under its own savepoint: an entry that fails is rolled back alone. Each
  entry comes with the id and the instant its delete draws.
\<close>

definition delete_entry ::
  "string \<Rightarrow> string \<Rightarrow> bool \<Rightarrow> BatchDeleteEntry \<times> string \<times> timestamp \<Rightarrow> object_db
     \<Rightarrow> CasError + (ObjectRecord option \<times> object_db)" where
  "delete_entry b marker_owner cluster e db =
     (case e of (entry, vid, now) \<Rightarrow>
        (case be_version_id entry of
           Some v \<Rightarrow> delete_version_in_tx now b (be_key entry) v (be_pre entry) cluster db
         | None \<Rightarrow> delete_latest_in_tx vid now b (be_key entry) (be_pre entry) marker_owner cluster db))"

fun delete_objects_if ::
  "string \<Rightarrow> string \<Rightarrow> bool \<Rightarrow> (BatchDeleteEntry \<times> string \<times> timestamp) list \<Rightarrow> object_db
     \<Rightarrow> (CasError + ObjectRecord option) list \<times> object_db" where
  "delete_objects_if b marker_owner cluster [] db = ([], db)"
| "delete_objects_if b marker_owner cluster (e # es) db =
     (case delete_entry b marker_owner cluster e db of
        Inl err \<Rightarrow> apfst ((#) (Inl err)) (delete_objects_if b marker_owner cluster es db)
      | Inr (old, db1) \<Rightarrow> apfst ((#) (Inr old)) (delete_objects_if b marker_owner cluster es db1))"

subsection \<open>Rows from peers\<close>

definition same_version :: "ObjectRecord \<Rightarrow> stored_row \<Rightarrow> bool" where
  "same_version r x \<longleftrightarrow> of_key (bucket r) (key r) x \<and> version_id (obj x) = version_id r"

definition apply_remote_object :: "ObjectRecord \<Rightarrow> object_db \<Rightarrow> object_db" where
  "apply_remote_object r db =
     (let to_write = (case find (same_version r) (objects db) of
                        None \<Rightarrow> Some r
                      | Some ex \<Rightarrow> resolve_replicated r (obj ex)) in
      recompute_is_latest (bucket r) (key r)
        (case to_write of
           None \<Rightarrow> db
         | Some row \<Rightarrow> insert_replicated_row row (delete_where (same_version r) db)))"

definition apply_remote_version_delete ::
  "timestamp \<Rightarrow> string \<Rightarrow> string \<Rightarrow> string \<Rightarrow> object_db \<Rightarrow> object_db" where
  "apply_remote_version_delete now b k v db =
     (case next_object_seq db of
        (s, db1) \<Rightarrow> recompute_is_latest b k (delete_tags_where (tag_of_version b k (version_tag_vid v))
          (update_where (\<lambda>x. of_key b k x \<and> named_version v x \<and> \<not> is_tombstone (obj x)) (entomb now s) db1)))"

definition list_rows_changed_since :: "nat \<Rightarrow> nat \<Rightarrow> object_db \<Rightarrow> (nat \<times> ObjectRecord) list" where
  "list_rows_changed_since since limit db =
     map (\<lambda>x. (seq x, obj x)) (take limit (sort_key seq (filter (\<lambda>x. since < seq x) (objects db))))"

definition purge_tombstones :: "timestamp \<Rightarrow> object_db \<Rightarrow> nat \<times> object_db" where
  "purge_tombstones before db =
     (let P = (\<lambda>x. is_tombstone (obj x) \<and> last_modified (obj x) < before) in
      (length (filter P (objects db)), delete_where P db))"

definition current_object_seq :: "object_db \<Rightarrow> nat" where
  "current_object_seq db = object_seq db"

definition seed_object_seq_to_max :: "object_db \<Rightarrow> nat \<times> object_db" where
  "seed_object_seq_to_max db =
     (let max_seq = foldr (max \<circ> seq) (objects db) 0;
          v = (if object_seq db < max_seq then max_seq else object_seq db) in
      (v, db\<lparr>object_seq := v\<rparr>))"

definition list_referenced_blob_ids :: "object_db \<Rightarrow> string list" where
  "list_referenced_blob_ids db =
     remdups (map (blob_id \<circ> obj)
                (filter (\<lambda>x. \<not> is_tombstone (obj x) \<and> blob_id (obj x) \<noteq> []) (objects db)) @
              map p_blob_id (db_parts (tables db)))"

subsection \<open>In-place changes\<close>

text \<open>
  Lock and encryption changes address a version by its id, or the latest row when none is given,
  and stamp the row with a fresh sequence number. They report whether a row matched.
\<close>

definition addressed :: "string \<Rightarrow> string \<Rightarrow> string option \<Rightarrow> stored_row \<Rightarrow> bool" where
  "addressed b k v x \<longleftrightarrow> of_key b k x \<and>
     (case v of Some w \<Rightarrow> version_id (obj x) = Some w | None \<Rightarrow> is_latest (obj x))"

definition update_in_place ::
  "(stored_row \<Rightarrow> bool) \<Rightarrow> (ObjectRecord \<Rightarrow> ObjectRecord) \<Rightarrow> object_db \<Rightarrow> bool \<times> object_db" where
  "update_in_place P f db =
     (case next_object_seq db of
        (s, db1) \<Rightarrow> (list_ex P (objects db1),
                     update_where P (\<lambda>x. x\<lparr>obj := f (obj x), seq := s\<rparr>) db1))"

definition set_object_retention ::
  "timestamp \<Rightarrow> string \<Rightarrow> string \<Rightarrow> string option \<Rightarrow> string option \<Rightarrow> timestamp option \<Rightarrow> object_db
     \<Rightarrow> bool \<times> object_db" where
  "set_object_retention now b k v mode until db =
     update_in_place (addressed b k v)
       (\<lambda>r. r\<lparr>retention_mode := mode, retain_until_date := until, lock_updated_at := Some now\<rparr>) db"

definition set_object_legal_hold ::
  "timestamp \<Rightarrow> string \<Rightarrow> string \<Rightarrow> string option \<Rightarrow> string option \<Rightarrow> object_db \<Rightarrow> bool \<times> object_db" where
  "set_object_legal_hold now b k v status db =
     update_in_place (addressed b k v)
       (\<lambda>r. r\<lparr>legal_hold_status := status, lock_updated_at := Some now\<rparr>) db"

definition update_object_encryption ::
  "timestamp \<Rightarrow> string \<Rightarrow> string \<Rightarrow> string option \<Rightarrow> string option \<Rightarrow> string option \<Rightarrow> object_db
     \<Rightarrow> bool \<times> object_db" where
  "update_object_encryption now b k v algorithm key_id db =
     update_in_place (addressed b k v)
       (\<lambda>r. r\<lparr>encryption_algorithm := algorithm, encryption_key_id := key_id,
             content_updated_at := Some now\<rparr>) db"

definition update_object_encryption_cas ::
  "timestamp \<Rightarrow> string \<Rightarrow> string \<Rightarrow> string option \<Rightarrow> string \<Rightarrow> string \<Rightarrow> string option \<Rightarrow> string option
     \<Rightarrow> object_db \<Rightarrow> bool \<times> object_db" where
  "update_object_encryption_cas now b k v old_blob new_blob algorithm key_id db =
     update_in_place (\<lambda>x. addressed b k v x \<and> blob_id (obj x) = old_blob)
       (\<lambda>r. r\<lparr>blob_id := new_blob, encryption_algorithm := algorithm, encryption_key_id := key_id,
             content_updated_at := Some now\<rparr>) db"

end
