(* ===== verification/Object_Rows.thy ===== *)
theory Object_Rows
  imports Object_Store
begin

section \<open>The rows of one key\<close>

text \<open>
  Every object operation touches the rows of one key. This theory gives the rows of a key after
  each row statement, the row that \<^verbatim>\<open>recompute_is_latest\<close> marks, and from them the rows of a key
  after each operation; every query for a key reads only these rows.
\<close>

definition rows_of :: "string \<Rightarrow> string \<Rightarrow> object_db \<Rightarrow> stored_row list" where
  "rows_of b k db = filter (of_key b k) (objects db)"

named_theorems rows_simps \<open>the rows of a key after a statement\<close>

lemma of_key_set_latest [simp]: "of_key b k (set_latest v x) = of_key b k x"
  by (simp add: of_key_def set_latest_def)

lemma of_key_entomb [simp]: "of_key b k (entomb now s x) = of_key b k x"
  by (simp add: of_key_def entomb_def)

lemma set_latest_simps [simp]:
  "rowid (set_latest v x) = rowid x" "seq (set_latest v x) = seq x"
  "obj (set_latest v x) = (obj x)\<lparr>is_latest := v\<rparr>" "set_latest w (set_latest v x) = set_latest w x"
  by (simp_all add: set_latest_def)

lemma set_latest_same: "is_latest (obj x) = v \<Longrightarrow> set_latest v x = x"
  by (cases x; cases "obj x") (simp add: set_latest_def)

lemma rank_set_latest [simp]: "rank (r\<lparr>is_latest := v\<rparr>) = rank r"
  by (simp add: rank_def)

lemma entomb_simps [simp]:
  "rowid (entomb now s x) = rowid x" "seq (entomb now s x) = s"
  "is_tombstone (obj (entomb now s x))" "version_id (obj (entomb now s x)) = version_id (obj x)"
  "last_modified (obj (entomb now s x)) = now" "is_latest (obj (entomb now s x)) = is_latest (obj x)"
  by (simp_all add: entomb_def)

lemma rows_of_update_where [rows_simps]:
  assumes "\<And>x. of_key b k (f x) = of_key b k x"
  shows "rows_of b k (update_where P f db) = map (\<lambda>x. if P x then f x else x) (rows_of b k db)"
proof -
  have "of_key b k (if P x then f x else x) = of_key b k x" for x using assms by simp
  then show ?thesis by (simp add: rows_of_def update_where_def filter_map o_def)
qed

lemma rows_of_delete_where [rows_simps]:
  "rows_of b k (delete_where P db) = filter (\<lambda>x. \<not> P x) (rows_of b k db)"
  by (simp add: rows_of_def delete_where_def conj_commute)

lemma rows_of_delete_tags [rows_simps]: "rows_of b k (delete_tags_where P db) = rows_of b k db"
  by (simp add: rows_of_def delete_tags_where_def)

lemma rows_of_set_seq [rows_simps]: "rows_of b k (db\<lparr>object_seq := n\<rparr>) = rows_of b k db"
  by (simp add: rows_of_def)

lemma rows_of_set_tables [rows_simps]: "rows_of b k (db\<lparr>tables := ct\<rparr>) = rows_of b k db"
  by (simp add: rows_of_def)

definition new_row :: "object_db \<Rightarrow> ObjectRecord \<Rightarrow> stored_row" where
  "new_row db r = \<lparr>rowid = next_rowid (objects db), obj = r, seq = Suc (object_seq db)\<rparr>"

lemma new_row_simps [simp]:
  "obj (new_row db r) = r" "seq (new_row db r) = Suc (object_seq db)"
  "rowid (new_row db r) = next_rowid (objects db)"
  by (simp_all add: new_row_def)

lemma append_row_simps:
  "objects (append_row r db) = objects db @ [new_row db r]"
  "object_seq (append_row r db) = Suc (object_seq db)" "tables (append_row r db) = tables db"
  by (simp_all add: append_row_def next_object_seq_def new_row_def Let_def)

lemma rows_of_append_row [rows_simps]:
  "rows_of b k (append_row r db) =
     rows_of b k db @ (if bucket r = b \<and> key r = k then [new_row db r] else [])"
  by (simp add: rows_of_def append_row_simps of_key_def)

lemma rows_of_clear_latest [rows_simps]:
  "rows_of b' k' (clear_latest b k db) =
     (if b' = b \<and> k' = k then map (set_latest False) (rows_of b k db) else rows_of b' k' db)"
proof (cases "b' = b \<and> k' = k")
  case True
  have "map (\<lambda>x. if of_key b k x \<and> is_latest (obj x) then set_latest False x else x) (rows_of b k db) =
      map (set_latest False) (rows_of b k db)"
    by (rule map_cong) (auto simp: rows_of_def set_latest_same)
  then show ?thesis using True by (simp add: clear_latest_def rows_simps)
next
  case False
  have "map (\<lambda>x. if of_key b k x \<and> is_latest (obj x) then set_latest False x else x) (rows_of b' k' db) =
      rows_of b' k' db"
    by (rule map_idI) (use False in \<open>auto simp: rows_of_def of_key_def\<close>)
  moreover have "rows_of b' k' (clear_latest b k db) = \<dots>"
    using calculation by (simp add: clear_latest_def rows_simps)
  ultimately show ?thesis using False by auto
qed

subsection \<open>The marked row\<close>

lemma winner_None_iff [simp]: "winner xs = None \<longleftrightarrow> xs = []"
  by (cases xs) (auto split: option.splits)

lemma winner_SomeD: "winner xs = Some w \<Longrightarrow> w \<in> set xs \<and> (\<forall>x \<in> set xs. rank (obj x) \<le> rank (obj w))"
  by (induction xs arbitrary: w) (fastforce split: option.splits if_splits)+

lemma winner_map_set_latest:
  "winner (map (set_latest v) xs) = map_option (set_latest v) (winner xs)"
  by (induction xs) (auto split: option.splits)

text \<open>With distinct version ids no two rows of a key have the same rank, so the winner is unique.\<close>

lemma winner_eqI:
  assumes "distinct (map (version_id \<circ> obj) xs)" and "w \<in> set xs"
    and max: "\<forall>x \<in> set xs. rank (obj x) \<le> rank (obj w)"
  shows "winner xs = Some w"
proof (cases "winner xs")
  case None
  with assms(2) show ?thesis by auto
next
  case (Some y)
  then have y: "y \<in> set xs" "\<forall>x \<in> set xs. rank (obj x) \<le> rank (obj y)"
    using winner_SomeD by blast+
  then have "rank (obj w) = rank (obj y)" using max assms(2) by (meson antisym)
  then have "version_id (obj w) = version_id (obj y)" by (simp add: rank_def)
  then have "w = y" using assms(1,2) y(1) by (auto simp: distinct_map inj_on_def)
  with Some show ?thesis by simp
qed

definition live :: "stored_row \<Rightarrow> bool" where
  "live x \<longleftrightarrow> \<not> is_tombstone (obj x)"

lemma live_set_latest [simp]: "live (set_latest v x) = live x"
  by (simp add: live_def)

lemma live_entomb [simp]: "\<not> live (entomb now s x)"
  by (simp add: live_def)

definition top_id :: "stored_row list \<Rightarrow> nat option" where
  "top_id rows = map_option rowid (winner (filter live rows))"

definition marked :: "stored_row list \<Rightarrow> stored_row list" where
  "marked rows = map (\<lambda>x. set_latest (top_id rows = Some (rowid x)) x) rows"

lemma top_id_map_set_latest [simp]: "top_id (map (set_latest v) rows) = top_id rows"
  by (simp add: top_id_def filter_map o_def winner_map_set_latest option.map_comp)

lemma marked_map_set_latest [simp]: "marked (map (set_latest v) rows) = marked rows"
  by (simp add: marked_def o_def)

lemma filter_live_of_key: "filter (live_of_key b k) (objects db) = filter live (rows_of b k db)"
  by (simp add: rows_of_def) (rule filter_cong, auto simp: live_of_key_def live_def)

text \<open>Rowids identify rows, so marking the winner's rowid leaves other keys alone.\<close>

definition rowids_ok :: "object_db \<Rightarrow> bool" where
  "rowids_ok db \<longleftrightarrow> distinct (map rowid (objects db))"

lemma rowids_okD:
  "rowids_ok db \<Longrightarrow> x \<in> set (objects db) \<Longrightarrow> y \<in> set (objects db) \<Longrightarrow> rowid x = rowid y \<Longrightarrow> x = y"
  by (auto simp: rowids_ok_def distinct_map dest: inj_onD)

lemma clear_latest_frame [simp]:
  "map rowid (objects (clear_latest b k db)) = map rowid (objects db)"
  "object_seq (clear_latest b k db) = object_seq db" "tables (clear_latest b k db) = tables db"
  by (simp_all add: clear_latest_def update_where_def)

lemma recompute_frame [simp]:
  "map rowid (objects (recompute_is_latest b k db)) = map rowid (objects db)"
  "object_seq (recompute_is_latest b k db) = object_seq db"
  "tables (recompute_is_latest b k db) = tables db"
  by (simp_all add: recompute_is_latest_def update_where_def Let_def o_def if_distrib
      split: option.splits cong: if_cong)

lemma rows_of_recompute_same:
  "rows_of b k (recompute_is_latest b k db) = marked (rows_of b k db)"
proof -
  let ?db1 = "clear_latest b k db"
  have rows: "rows_of b k ?db1 = map (set_latest False) (rows_of b k db)" by (simp add: rows_simps)
  have win: "winner (filter live (map (set_latest False) (rows_of b k db))) =
      map_option (set_latest False) (winner (filter live (rows_of b k db)))"
    by (simp add: filter_map o_def winner_map_set_latest)
  show ?thesis
  proof (cases "winner (filter live (rows_of b k db))")
    case None
    then show ?thesis
      unfolding recompute_is_latest_def Let_def filter_live_of_key rows win marked_def top_id_def
      by (simp add: rows)
  next
    case (Some w)
    then show ?thesis
      unfolding recompute_is_latest_def Let_def filter_live_of_key rows win marked_def top_id_def
      by (auto simp: rows rows_simps)
  qed
qed

lemma rows_of_recompute_other:
  assumes "rowids_ok db" and "\<not> (b' = b \<and> k' = k)"
  shows "rows_of b' k' (recompute_is_latest b k db) = rows_of b' k' db"
proof -
  let ?db1 = "clear_latest b k db"
  have frame: "rows_of b' k' ?db1 = rows_of b' k' db" using assms(2) by (auto simp: rows_simps)
  show ?thesis
  proof (cases "winner (filter live (rows_of b k ?db1))")
    case None
    then show ?thesis unfolding recompute_is_latest_def Let_def filter_live_of_key by (simp add: frame)
  next
    case (Some w)
    then have "w \<in> set (rows_of b k ?db1)" using winner_SomeD by fastforce
    then have w: "w \<in> set (objects ?db1)" "of_key b k w" by (auto simp: rows_of_def)
    have "rowids_ok ?db1" using assms(1) by (simp add: rowids_ok_def)
    then have "rowid x \<noteq> rowid w" if "x \<in> set (rows_of b' k' ?db1)" for x
      using that w assms(2) rowids_okD [of ?db1 x w] by (auto simp: rows_of_def of_key_def)
    then have "map (\<lambda>x. if rowid x = rowid w then set_latest True x else x) (rows_of b' k' ?db1) =
        rows_of b' k' ?db1"
      by (intro map_idI) auto
    with Some show ?thesis
      unfolding recompute_is_latest_def Let_def filter_live_of_key by (simp add: rows_of_update_where frame)
  qed
qed

lemma rows_of_recompute:
  "rowids_ok db \<Longrightarrow> rows_of b' k' (recompute_is_latest b k db) =
     (if b' = b \<and> k' = k then marked (rows_of b k db) else rows_of b' k' db)"
  using rows_of_recompute_same [of b k db] rows_of_recompute_other [of db b' b k' k] by auto

subsection \<open>Rowids and sequence numbers\<close>

definition base_ok :: "object_db \<Rightarrow> bool" where
  "base_ok db \<longleftrightarrow> rowids_ok db \<and> (\<forall>x \<in> set (objects db). seq x \<le> object_seq db)"

lemma base_ok_rowids: "base_ok db \<Longrightarrow> rowids_ok db"
  by (simp add: base_ok_def)

lemma rowid_less_next: "x \<in> set rows \<Longrightarrow> rowid x < next_rowid rows"
  unfolding next_rowid_def by (induction rows) (auto simp: less_Suc_eq_le max_def)

lemma base_ok_append_row [invariant_intros]: "base_ok db \<Longrightarrow> base_ok (append_row r db)"
  using rowid_less_next [of _ "objects db"]
  by (auto simp: base_ok_def rowids_ok_def append_row_simps dest: less_not_refl2)

lemma base_ok_update_where [invariant_intros]:
  assumes "base_ok db" and "\<And>x. rowid (f x) = rowid x" and "\<And>x. seq (f x) \<le> max (seq x) (object_seq db)"
  shows "base_ok (update_where P f db)"
proof -
  have "map rowid (objects (update_where P f db)) = map rowid (objects db)"
    using assms(2) by (simp add: update_where_def)
  then have "rowids_ok (update_where P f db)" using assms(1) by (simp only: base_ok_def rowids_ok_def)
  moreover have "seq (f x) \<le> object_seq db" if "x \<in> set (objects db)" for x
    using assms(1) assms(3) [of x] that by (auto simp: base_ok_def max_def split: if_splits)
  ultimately show ?thesis using assms(1) by (auto simp: base_ok_def update_where_def)
qed

lemma base_ok_delete_where [invariant_intros]: "base_ok db \<Longrightarrow> base_ok (delete_where P db)"
  by (auto simp: base_ok_def rowids_ok_def delete_where_def distinct_map intro: inj_on_subset)

lemma base_ok_delete_tags [invariant_intros]: "base_ok db \<Longrightarrow> base_ok (delete_tags_where P db)"
  by (simp add: base_ok_def rowids_ok_def delete_tags_where_def)

lemma base_ok_set_tables [invariant_intros]: "base_ok db \<Longrightarrow> base_ok (db\<lparr>tables := ct\<rparr>)"
  by (simp add: base_ok_def rowids_ok_def)

lemma base_ok_set_seq [invariant_intros]: "base_ok db \<Longrightarrow> object_seq db \<le> n \<Longrightarrow> base_ok (db\<lparr>object_seq := n\<rparr>)"
  by (auto simp: base_ok_def rowids_ok_def)

lemma base_ok_clear_latest [invariant_intros]: "base_ok db \<Longrightarrow> base_ok (clear_latest b k db)"
  unfolding clear_latest_def by (rule base_ok_update_where) auto

lemma base_ok_recompute [invariant_intros]: "base_ok db \<Longrightarrow> base_ok (recompute_is_latest b k db)"
  unfolding recompute_is_latest_def Let_def
  by (auto split: option.splits intro!: base_ok_update_where base_ok_clear_latest)

lemma base_ok_drop_null [invariant_intros]: "base_ok db \<Longrightarrow> base_ok (drop_null_version b k db)"
  unfolding drop_null_version_def by (intro invariant_intros)

subsection \<open>Inserting a latest row never violates the index\<close>

lemma insert_row_ok:
  "(\<And>x. x \<in> set (rows_of (bucket r) (key r) db) \<Longrightarrow> \<not> is_latest (obj x)) \<Longrightarrow>
     insert_row r db = Inr (append_row r db)"
  by (auto simp: insert_row_def list_ex_iff rows_of_def)

lemma rows_of_drop_null:
  "rows_of b' k' (drop_null_version b k db) =
     (if b' = b \<and> k' = k
      then map (set_latest False) (filter (\<lambda>x. version_id (obj x) \<noteq> None) (rows_of b k db))
      else rows_of b' k' db)"
proof -
  have same: "filter (\<lambda>x. \<not> (of_key b k x \<and> version_id (obj x) = None)) (rows_of b k db) =
      filter (\<lambda>x. version_id (obj x) \<noteq> None) (rows_of b k db)"
    by (rule filter_cong) (auto simp: rows_of_def)
  have other: "filter (\<lambda>x. \<not> (of_key b k x \<and> version_id (obj x) = None)) (rows_of b' k' db) = rows_of b' k' db"
    if "\<not> (b' = b \<and> k' = k)"
    by (rule filter_True) (use that in \<open>auto simp: rows_of_def of_key_def\<close>)
  show ?thesis using same other by (auto simp: drop_null_version_def rows_simps)
qed

lemma insert_after_clear:
  "bucket r = b \<Longrightarrow> key r = k \<Longrightarrow>
     insert_row r (clear_latest b k db) = Inr (append_row r (clear_latest b k db))"
  by (rule insert_row_ok) (auto simp: rows_simps)

lemma insert_after_drop_null:
  "bucket r = b \<Longrightarrow> key r = k \<Longrightarrow>
     insert_row r (drop_null_version b k db) = Inr (append_row r (drop_null_version b k db))"
  by (rule insert_row_ok) (auto simp: rows_of_drop_null)

lemma rows_of_wipe: "rows_of b k (delete_tags_where Q (delete_where (of_key b k) db)) = []"
  by (simp add: rows_simps) (simp add: rows_of_def filter_empty_conv)

lemma insert_after_wipe:
  "bucket r = b \<Longrightarrow> key r = k \<Longrightarrow>
     insert_row r (delete_tags_where Q (delete_where (of_key b k) db)) =
       Inr (append_row r (delete_tags_where Q (delete_where (of_key b k) db)))"
  by (rule insert_row_ok) (use rows_of_wipe [of b k Q db] in auto)

lemmas inserts = insert_after_clear insert_after_drop_null insert_after_wipe

lemma current_version_simps [simp]:
  "bucket (current_version v r) = bucket r" "key (current_version v r) = key r"
  "version_id (current_version v r) = v" "is_latest (current_version v r)"
  "\<not> is_delete_marker (current_version v r)" "is_tombstone (current_version v r) = is_tombstone r"
  "last_modified (current_version v r) = last_modified r" "blob_id (current_version v r) = blob_id r"
  by (simp_all add: current_version_def)

text \<open>The row a write stores.\<close>

definition stored :: "string option \<Rightarrow> ObjectRecord \<Rightarrow> ObjectRecord" where
  "stored v r = (current_version v r)\<lparr>replication_status := None\<rparr>"

lemma install_unversioned_eq:
  "install_unversioned r db =
     (let b = bucket r; k = key r;
          db1 = append_row (stored None r) (delete_tags_where (tag_of b k) (delete_where (of_key b k) db)) in
      Inr (fetch_latest_object b k db, current_version None r,
           if is_tombstone r then recompute_is_latest b k db1 else db1))"
  by (simp add: install_unversioned_def Let_def insert_object_row_def inserts stored_def)

lemma install_enabled_eq:
  "install_enabled vid r db =
     Inr (None, current_version (Some vid) r, recompute_is_latest (bucket r) (key r)
       (append_row (stored (Some vid) r) (clear_latest (bucket r) (key r) db)))"
  by (simp add: install_enabled_def Let_def insert_object_row_def inserts stored_def)

lemma install_suspended_eq:
  "install_suspended r db =
     Inr (fetch_null_version (bucket r) (key r) db, current_version None r,
       recompute_is_latest (bucket r) (key r)
         (append_row (stored None r) (drop_null_version (bucket r) (key r) db)))"
  by (simp add: install_suspended_def Let_def insert_object_row_def inserts stored_def)

lemmas install_eqs = install_unversioned_eq install_enabled_eq install_suspended_eq

end
