(* ===== verification/Control_Db_Invariant.thy ===== *)
theory Control_Db_Invariant
  imports Control_Db
begin

section \<open>The invariant of the control-plane tables\<close>

text \<open>
  Primary keys are unique, the \<^verbatim>\<open>UNIQUE\<close> names are, and no attachment or membership refers to a row
  that is gone. The operations of the stores are the steps of a transition system; every
  reachable state has the invariant. On top of it: what a revocation leaves of a user's policies.
\<close>

definition keys_ok :: "control_db \<Rightarrow> bool" where
  "keys_ok db \<longleftrightarrow>
     distinct (map cred_pk (db_credentials db)) \<and> distinct (map user_pk (db_users db)) \<and>
     distinct (map team_pk (db_teams db)) \<and> distinct (map grant_id (db_grants db)) \<and>
     distinct (map ug_pk (db_user_grants db)) \<and> distinct (map tg_pk (db_team_grants db)) \<and>
     distinct (map tm_pk (db_team_members db)) \<and> distinct (map sc_key (db_server_config db)) \<and>
     distinct (map tomb_pk (db_tombstones db)) \<and> distinct (map b_name (db_buckets db)) \<and>
     distinct (map bc_pk (db_bucket_config db)) \<and>
     distinct (map (\<lambda>x. (tr_bucket x, tr_key x)) (db_bucket_tags db)) \<and>
     distinct (map upload_id (db_uploads db)) \<and> distinct (map part_pk (db_parts db))"

definition names_ok :: "control_db \<Rightarrow> bool" where
  "names_ok db \<longleftrightarrow>
     distinct (map (username \<circ> user) (db_users db)) \<and> distinct (map (t_name \<circ> team) (db_teams db)) \<and>
     distinct (map g_name (db_grants db))"

definition refs_ok :: "control_db \<Rightarrow> bool" where
  "refs_ok db \<longleftrightarrow>
     list_all (\<lambda>x. has_key user_pk (ug_user_id x) (db_users db) \<and>
                   has_key grant_id (ug_grant_id x) (db_grants db)) (db_user_grants db) \<and>
     list_all (\<lambda>x. has_key team_pk (tg_team_id x) (db_teams db) \<and>
                   has_key grant_id (tg_grant_id x) (db_grants db)) (db_team_grants db) \<and>
     list_all (\<lambda>x. has_key team_pk (tm_team_id x) (db_teams db) \<and>
                   has_key user_pk (tm_user_id x) (db_users db)) (db_team_members db)"

definition db_wf :: "control_db \<Rightarrow> bool" where
  "db_wf db \<longleftrightarrow> keys_ok db \<and> names_ok db \<and> refs_ok db"

definition empty_db :: control_db where
  "empty_db = \<lparr>db_credentials = [], db_users = [], db_teams = [], db_grants = [],
     db_user_grants = [], db_team_grants = [], db_team_members = [], db_server_config = [],
     db_tombstones = [], db_buckets = [], db_bucket_config = [], db_bucket_tags = [],
     db_object_tags = [], db_uploads = [], db_parts = []\<rparr>"

text \<open>One rule per statement the stores execute, with references enforced.\<close>

inductive db_step :: "control_db \<Rightarrow> control_db \<Rightarrow> bool" where
  put_credential: "put_credential c db = Inr db' \<Longrightarrow> db_step db db'"
| delete_credential: "db_step db (snd (delete_credential k db))"
| update_credential: "db_step db (snd (update_credential now k act descr db))"
| apply_credential_at: "db_step db (apply_credential_at c ts db)"
| put_user: "put_user u db = Inr db' \<Longrightarrow> db_step db db'"
| update_user: "update_user now k nm descr db = Inr (b, db') \<Longrightarrow> db_step db db'"
| delete_user: "db_step db (snd (delete_user k db))"
| apply_user_at: "apply_user_at u ts db = Inr db' \<Longrightarrow> db_step db db'"
| put_team: "put_team t db = Inr db' \<Longrightarrow> db_step db db'"
| update_team: "update_team now k nm descr db = Inr (b, db') \<Longrightarrow> db_step db db'"
| delete_team: "db_step db (snd (delete_team k db))"
| apply_team_at: "apply_team_at t ts db = Inr db' \<Longrightarrow> db_step db db'"
| apply_team_member_at: "apply_team_member_at True tid uid ts db = Inr db' \<Longrightarrow> db_step db db'"
| remove_member: "db_step db (snd (remove_member tid uid db))"
| put_grant: "put_grant g db = Inr db' \<Longrightarrow> db_step db db'"
| update_grant: "update_grant now k nm descr doc db = Inr (b, db') \<Longrightarrow> db_step db db'"
| delete_grant: "db_step db (snd (delete_grant k db))"
| apply_remote_grant: "apply_remote_grant g db = Inr db' \<Longrightarrow> db_step db db'"
| apply_user_grant_at: "apply_user_grant_at True uid gid ts db = Inr db' \<Longrightarrow> db_step db db'"
| detach_from_user: "db_step db (snd (detach_from_user uid gid db))"
| apply_team_grant_at: "apply_team_grant_at True tid gid ts db = Inr db' \<Longrightarrow> db_step db db'"
| detach_from_team: "db_step db (snd (detach_from_team tid gid db))"
| apply_server_config_at: "db_step db (apply_server_config_at k v ts db)"
| delete_server_config: "db_step db (snd (delete_server_config k db))"
| record_control_tombstone: "db_step db (record_control_tombstone now et ek db)"
| apply_control_tombstone: "db_step db (apply_control_tombstone tb db)"
| delete_control_tombstone: "db_step db (snd (delete_control_tombstone et ek db))"
| purge_control_tombstones: "db_step db (snd (purge_control_tombstones ts db))"
| create_bucket_owned: "create_bucket_owned now nm' own db = Inr db' \<Longrightarrow> db_step db db'"
| delete_bucket: "db_step db (snd (delete_bucket nm' db))"
| apply_remote_bucket: "db_step db (apply_remote_bucket info db)"
| apply_bucket_config_at: "db_step db (apply_bucket_config_at b' k v ts db)"
| delete_bucket_config: "db_step db (snd (delete_bucket_config b' k db))"
| apply_bucket_tags_at: "apply_bucket_tags_at b' tags ts db = Inr db' \<Longrightarrow> db_step db db'"
| delete_bucket_tags: "db_step db (snd (delete_bucket_tags b' db))"
| create_multipart_upload: "create_multipart_upload r db = Inr db' \<Longrightarrow> db_step db db'"
| apply_remote_multipart_upload: "db_step db (apply_remote_multipart_upload r db)"
| put_part: "db_step db (snd (put_part p db))"
| take_upload: "db_step db (snd (take_upload k db))"

lemmas store_op_defs =
  put_credential_def delete_credential_def update_credential_def apply_credential_at_def
  put_user_def update_user_def delete_user_def apply_user_at_def
  put_team_def update_team_def delete_team_def apply_team_at_def apply_team_member_at_def remove_member_def
  put_grant_def update_grant_def delete_grant_def apply_remote_grant_def apply_user_grant_at_def
  detach_from_user_def apply_team_grant_at_def detach_from_team_def apply_server_config_at_def
  delete_server_config_def record_control_tombstone_def apply_control_tombstone_def
  delete_control_tombstone_def purge_control_tombstones_def create_bucket_owned_def delete_bucket_def
  apply_remote_bucket_def apply_bucket_config_at_def delete_bucket_config_def apply_bucket_tags_at_def
  delete_bucket_tags_def create_multipart_upload_def apply_remote_multipart_upload_def put_part_def
  take_upload_def

lemma has_key_append [simp]: "has_key kf k (xs @ ys) \<longleftrightarrow> has_key kf k xs \<or> has_key kf k ys"
  by (simp add: has_key_def)

lemma has_key_upsert: "has_key kf k (upsert_row kf x rows) \<longleftrightarrow> k = kf x \<or> has_key kf k rows"
  by (simp add: has_key_entity_map entity_map_upsert)

lemma has_key_remove: "has_key kf k (remove_key kf k' rows) \<longleftrightarrow> k \<noteq> k' \<and> has_key kf k rows"
  by (simp add: has_key_entity_map entity_map_remove)

lemma has_key_map: "(\<And>y. kf (f y) = kf y) \<Longrightarrow> has_key kf k (map f rows) = has_key kf k rows"
  by (simp add: has_key_def list_ex_iff)

lemma distinct_snoc_key: "distinct (map kf rows) \<Longrightarrow> \<not> has_key kf (kf x) rows \<Longrightarrow> distinct (map kf (rows @ [x]))"
  by (auto simp: has_key_iff)

lemma distinct_map_key: "(\<And>y. kf (f y) = kf y) \<Longrightarrow> distinct (map kf (map f rows)) = distinct (map kf rows)"
  by (simp add: o_def)

lemma distinct_remove: "distinct (map kf rows) \<Longrightarrow> distinct (map kf (remove_key kf' k rows))"
  by (simp add: remove_key_def distinct_filter_rows)

subsection \<open>Primary keys\<close>

lemma map_map_key: "(\<And>y. kf (f y) = kf y) \<Longrightarrow> map kf (map f rows) = map kf rows"
  by simp

lemma distinct_tag_rows:
  assumes "distinct (map (\<lambda>x. (tr_bucket x, tr_key x)) rows)" and "distinct (map fst tags)"
  shows "distinct (map (\<lambda>x. (tr_bucket x, tr_key x)) (filter (\<lambda>x. tr_bucket x \<noteq> b) rows @
    map (\<lambda>(k, v). \<lparr>tr_bucket = b, tr_key = k, tr_value = v, tr_updated_at = ts\<rparr>) tags))"
proof -
  have "map (\<lambda>x. (tr_bucket x, tr_key x))
      (map (\<lambda>(k, v). \<lparr>tr_bucket = b, tr_key = k, tr_value = v, tr_updated_at = ts\<rparr>) tags) =
    map (Pair b) (map fst tags)"
    by auto
  moreover have "distinct (map (Pair b) (map fst tags))"
    using assms(2) by (simp add: distinct_map inj_on_def)
  ultimately show ?thesis
    using distinct_filter_rows [OF assms(1)] by (auto simp del: map_map)
qed

lemma keys_ok_step: "db_step db db' \<Longrightarrow> keys_ok db \<Longrightarrow> keys_ok db'"
proof (induction rule: db_step.induct)
  case (apply_bucket_tags_at b' tags ts db db')
  then show ?case
    by (auto simp: apply_bucket_tags_at_def keys_ok_def distinct_tag_rows simp del: map_append
        split: if_splits)
next
  case (update_credential db now k act descr)
  then show ?case
    by (simp add: update_credential_def keys_ok_def map_map_key del: map_map)
next
  case (update_user now k nm descr db b db')
  then show ?case
    by (auto simp: update_user_def keys_ok_def map_map_key simp del: map_map split: if_splits)
next
  case (update_team now k nm descr db b db')
  then show ?case
    by (auto simp: update_team_def keys_ok_def map_map_key simp del: map_map split: if_splits)
next
  case (update_grant now k nm descr doc db b db')
  then show ?case
    by (auto simp: update_grant_def keys_ok_def map_map_key simp del: map_map split: if_splits)
qed (auto simp: keys_ok_def store_op_defs distinct_upsert distinct_filter_rows distinct_remove
       has_key_iff remove_key_def split: if_splits option.splits)

subsection \<open>Unique names\<close>

text \<open>A row whose name no row of another key has may take the place of the row with its key.\<close>

lemma distinct_names_replace:
  assumes "distinct (map kf rows)" and "distinct (map nf rows)"
    and keep: "\<And>y. kf y \<noteq> k \<Longrightarrow> nf (f y) = nf y"
    and new: "\<And>y. y \<in> set rows \<Longrightarrow> kf y = k \<Longrightarrow> nf (f y) = n"
    and free: "\<And>y. y \<in> set rows \<Longrightarrow> kf y \<noteq> k \<Longrightarrow> nf y \<noteq> n"
  shows "distinct (map nf (map f rows))"
proof -
  have "inj_on (nf \<circ> f) (set rows)"
  proof (rule inj_onI)
    fix y z assume *: "y \<in> set rows" "z \<in> set rows" "(nf \<circ> f) y = (nf \<circ> f) z"
    show "y = z"
    proof (cases "kf y = k \<longleftrightarrow> kf z = k")
      case True
      with * assms(1,2) keep show ?thesis
        by (metis comp_apply distinct_map inj_onD)
    next
      case False
      with * show ?thesis by (metis comp_apply keep new free)
    qed
  qed
  with assms(1) show ?thesis by (simp add: distinct_map)
qed

lemma distinct_names_snoc:
  assumes "distinct (map nf rows)" and "\<not> has_key kf (kf x) rows"
    and "\<not> list_ex (\<lambda>y. nf y = nf x \<and> kf y \<noteq> kf x) rows"
  shows "distinct (map nf (rows @ [x]))"
proof -
  have "nf y \<noteq> nf x" if "y \<in> set rows" for y
    using assms(2,3) that by (auto simp: has_key_def list_ex_iff)
  then have "nf x \<notin> nf ` set rows" by (metis imageE)
  with assms(1) show ?thesis by simp
qed

lemma distinct_names_upsert:
  assumes "distinct (map kf rows)" and "distinct (map nf rows)"
    and "\<not> list_ex (\<lambda>y. nf y = nf x \<and> kf y \<noteq> kf x) rows"
  shows "distinct (map nf (upsert_row kf x rows))"
proof (cases "has_key kf (kf x) rows")
  case True
  have "distinct (map nf (map (\<lambda>y. if kf y = kf x then x else y) rows))"
    by (rule distinct_names_replace [where k = "kf x" and n = "nf x", OF assms(1,2)])
       (use assms(3) in \<open>auto simp: list_ex_iff\<close>)
  with True show ?thesis by (simp add: upsert_row_def)
next
  case False
  with assms(2,3) show ?thesis by (simp add: upsert_row_def distinct_names_snoc del: map_append)
qed

lemma distinct_names_update:
  assumes "distinct (map kf rows)" and "distinct (map nf rows)"
    and keep: "\<And>y. kf y \<noteq> k \<Longrightarrow> f y = y" and new: "\<And>y. kf y = k \<Longrightarrow> nf (f y) = n"
    and free: "has_key kf k rows \<Longrightarrow> \<not> list_ex (\<lambda>y. nf y = n \<and> kf y \<noteq> k) rows"
  shows "distinct (map nf (map f rows))"
proof (cases "has_key kf k rows")
  case True
  show ?thesis
    by (rule distinct_names_replace [where k = k and n = n, OF assms(1,2)])
       (use free [OF True] keep new in \<open>auto simp: list_ex_iff\<close>)
next
  case False
  then have "map f rows = rows" by (intro map_idI keep) (auto simp: has_key_iff)
  with assms(2) show ?thesis by simp
qed

lemma user_names_upsert:
  "keys_ok db \<Longrightarrow> names_ok db \<Longrightarrow> \<not> username_taken (user_id u) (username u) db \<Longrightarrow>
   distinct (map (username \<circ> user) (upsert_row user_pk \<lparr>user = u, tu_updated_at = ts\<rparr> (db_users db)))"
  by (rule distinct_names_upsert) (auto simp: keys_ok_def names_ok_def username_taken_def)

lemma team_names_upsert:
  "keys_ok db \<Longrightarrow> names_ok db \<Longrightarrow> \<not> team_name_taken (team_id t) (t_name t) db \<Longrightarrow>
   distinct (map (t_name \<circ> team) (upsert_row team_pk \<lparr>team = t, tt_updated_at = ts\<rparr> (db_teams db)))"
  by (rule distinct_names_upsert) (auto simp: keys_ok_def names_ok_def team_name_taken_def)

lemma grant_names_upsert:
  "keys_ok db \<Longrightarrow> names_ok db \<Longrightarrow> \<not> grant_name_taken (grant_id g) (g_name g) db \<Longrightarrow>
   distinct (map g_name (upsert_row grant_id g (db_grants db)))"
  by (rule distinct_names_upsert) (auto simp: keys_ok_def names_ok_def grant_name_taken_def)

text \<open>The update statements change at most one name, to a free one.\<close>

lemma names_ok_update_user:
  assumes upd: "update_user now k nm descr db = Inr (b, db')" and ok: "keys_ok db" "names_ok db"
  shows "names_ok db'"
proof (cases nm)
  case None
  with upd ok show ?thesis
    by (auto simp: update_user_def names_ok_def map_map_key simp del: map_map split: if_splits)
next
  case (Some n)
  have "distinct (map (username \<circ> user) (db_users db'))"
    using upd ok Some
    by (auto simp: update_user_def keys_ok_def names_ok_def username_taken_def simp del: map_map split: if_splits
        intro!: distinct_names_update [where kf = "user_pk" and k = k and n = n])
  with upd ok show ?thesis
    by (auto simp: update_user_def names_ok_def simp del: map_map split: if_splits)
qed

lemma names_ok_update_team:
  assumes upd: "update_team now k nm descr db = Inr (b, db')" and ok: "keys_ok db" "names_ok db"
  shows "names_ok db'"
proof (cases nm)
  case None
  with upd ok show ?thesis
    by (auto simp: update_team_def names_ok_def map_map_key simp del: map_map split: if_splits)
next
  case (Some n)
  have "distinct (map (t_name \<circ> team) (db_teams db'))"
    using upd ok Some
    by (auto simp: update_team_def keys_ok_def names_ok_def team_name_taken_def simp del: map_map split: if_splits
        intro!: distinct_names_update [where kf = "team_pk" and k = k and n = n])
  with upd ok show ?thesis
    by (auto simp: update_team_def names_ok_def simp del: map_map split: if_splits)
qed

lemma names_ok_update_grant:
  assumes upd: "update_grant now k nm descr doc db = Inr (b, db')" and ok: "keys_ok db" "names_ok db"
  shows "names_ok db'"
proof (cases nm)
  case None
  with upd ok show ?thesis
    by (auto simp: update_grant_def names_ok_def map_map_key simp del: map_map split: if_splits)
next
  case (Some n)
  have "distinct (map (g_name) (db_grants db'))"
    using upd ok Some
    by (auto simp: update_grant_def keys_ok_def names_ok_def grant_name_taken_def simp del: map_map split: if_splits
        intro!: distinct_names_update [where kf = "grant_id" and k = k and n = n])
  with upd ok show ?thesis
    by (auto simp: update_grant_def names_ok_def simp del: map_map split: if_splits)
qed

lemma names_ok_step: "db_step db db' \<Longrightarrow> keys_ok db \<Longrightarrow> names_ok db \<Longrightarrow> names_ok db'"
proof (induction rule: db_step.induct)
  case (apply_user_at u ts db db')
  then show ?case
    by (auto simp: apply_user_at_def user_names_upsert names_ok_def [of "db_users_update _ _"]
        split: if_splits) (simp_all add: names_ok_def)
next
  case (apply_team_at t ts db db')
  then show ?case
    by (auto simp: apply_team_at_def team_names_upsert names_ok_def [of "db_teams_update _ _"]
        split: if_splits) (simp_all add: names_ok_def)
next
  case (apply_remote_grant g db db')
  then show ?case
    by (auto simp: apply_remote_grant_def grant_names_upsert names_ok_def [of "db_grants_update _ _"]
        split: if_splits) (simp_all add: names_ok_def)
next
  case (put_user u db db')
  then show ?case
    by (auto simp: put_user_def names_ok_def username_taken_def simp del: map_append split: if_splits
        intro!: distinct_names_snoc [where kf = user_pk])
next
  case (put_team t db db')
  then show ?case
    by (auto simp: put_team_def names_ok_def team_name_taken_def simp del: map_append split: if_splits
        intro!: distinct_names_snoc [where kf = team_pk])
next
  case (put_grant g db db')
  then show ?case
    by (auto simp: put_grant_def names_ok_def grant_name_taken_def simp del: map_append split: if_splits
        intro!: distinct_names_snoc [where kf = grant_id])
next
  case (update_user now k nm descr db b db')
  then show ?case by (rule names_ok_update_user)
next
  case (update_team now k nm descr db b db')
  then show ?case by (rule names_ok_update_team)
next
  case (update_grant now k nm descr doc db b db')
  then show ?case by (rule names_ok_update_grant)
qed (auto simp: names_ok_def store_op_defs distinct_filter_rows distinct_remove remove_key_def
       split: if_splits option.splits)

subsection \<open>References\<close>

lemma set_remove_key: "x \<in> set (remove_key kf k rows) \<longleftrightarrow> x \<in> set rows \<and> kf x \<noteq> k"
  by (auto simp: remove_key_def)

lemmas refs_simps = has_key_upsert has_key_remove has_key_map

lemma refs_ok_step: "db_step db db' \<Longrightarrow> refs_ok db \<Longrightarrow> refs_ok db'"
proof (induction rule: db_step.induct)
  case (update_user now k nm descr db b db')
  then show ?case
    by (auto simp: update_user_def refs_ok_def has_key_map split: if_splits)
next
  case (update_team now k nm descr db b db')
  then show ?case
    by (auto simp: update_team_def refs_ok_def has_key_map split: if_splits)
next
  case (update_grant now k nm descr doc db b db')
  then show ?case
    by (auto simp: update_grant_def refs_ok_def has_key_map split: if_splits)
qed (auto simp: refs_ok_def store_op_defs refs_simps set_remove_key list_all_iff
       dest!: subsetD [OF set_upsert_subset] split: if_splits option.splits)

lemma db_wf_step: "db_step db db' \<Longrightarrow> db_wf db \<Longrightarrow> db_wf db'"
  by (auto simp: db_wf_def keys_ok_step names_ok_step refs_ok_step)

inductive db_reachable :: "control_db \<Rightarrow> bool" where
  start: "db_reachable empty_db"
| step: "db_reachable db \<Longrightarrow> db_step db db' \<Longrightarrow> db_reachable db'"

lemma db_wf_empty: "db_wf empty_db"
  by (simp add: db_wf_def keys_ok_def names_ok_def refs_ok_def empty_db_def)

text \<open>
  C16: in every state the stores can reach, primary keys and names are unique and no attachment
  or membership refers to a user, team or grant that is gone.
\<close>

theorem reachable_db_wf:
  assumes "db_reachable db"
  shows "db_wf db"
  using assms by (induction rule: db_reachable.induct) (auto intro: db_wf_empty db_wf_step)

definition sample_user :: User where
  "sample_user = \<lparr>user_id = ''u1'', username = ''alice'', u_description = [], is_root = False, u_created_at = 5\<rparr>"

definition sample_grant :: Grant where
  "sample_grant = \<lparr>grant_id = ''g1'', g_name = ''ReadAll'', g_description = [],
     document = \<lparr>version = ''2012-10-17'', statement = []\<rparr>, g_created_at = 5, g_updated_at = 5\<rparr>"

definition sample_db :: control_db where
  "sample_db = empty_db\<lparr>
     db_users := [\<lparr>user = sample_user, tu_updated_at = 5\<rparr>],
     db_grants := [sample_grant],
     db_user_grants := [\<lparr>ug_user_id = ''u1'', ug_grant_id = ''g1'', ug_updated_at = 7\<rparr>]\<rparr>"

lemma sample_db_reachable: "db_reachable sample_db"
proof -
  let ?d1 = "empty_db\<lparr>db_users := [\<lparr>user = sample_user, tu_updated_at = 5\<rparr>]\<rparr>"
  let ?d2 = "?d1\<lparr>db_grants := [sample_grant]\<rparr>"
  have "db_step empty_db ?d1"
    by (rule db_step.put_user [of sample_user])
       (simp add: put_user_def empty_db_def has_key_def username_taken_def sample_user_def)
  moreover have "db_step ?d1 ?d2"
    by (rule db_step.put_grant [of sample_grant])
       (simp add: put_grant_def empty_db_def has_key_def grant_name_taken_def sample_grant_def)
  moreover have "db_step ?d2 sample_db"
    by (rule db_step.apply_user_grant_at [of "''u1''" "''g1''" 7])
       (simp add: apply_user_grant_at_def sample_db_def empty_db_def has_key_def sample_user_def
         sample_grant_def upsert_row_def)
  ultimately show ?thesis by (blast intro: db_reachable.intros)
qed

theorem reachable_db_wf_witness: "db_reachable sample_db \<and> db_wf sample_db"
  using sample_db_reachable reachable_db_wf [OF sample_db_reachable] by simp

subsection \<open>What a revocation leaves\<close>

lemma effective_grant_ids_iff:
  "gid \<in> set (effective_grant_ids uid db) \<longleftrightarrow>
     (\<exists>x \<in> set (db_user_grants db). ug_user_id x = uid \<and> ug_grant_id x = gid) \<or>
     (\<exists>tg \<in> set (db_team_grants db). tg_grant_id tg = gid \<and>
        (\<exists>tm \<in> set (db_team_members db). tm_team_id tm = tg_team_id tg \<and> tm_user_id tm = uid))"
  by (auto simp: effective_grant_ids_def list_ex_iff)

lemma effective_policies_iff:
  "d \<in> set (get_effective_policies uid db) \<longleftrightarrow>
     (\<exists>g \<in> set (db_grants db). document g = d \<and> grant_id g \<in> set (effective_grant_ids uid db))"
  by (auto simp: get_effective_policies_def)

lemma effective_policies_cong:
  assumes "db_grants db' = db_grants db"
    and "set (effective_grant_ids uid db') = set (effective_grant_ids uid db)"
  shows "get_effective_policies uid db' = get_effective_policies uid db"
  using assms by (simp add: get_effective_policies_def)



text \<open>
  removing a user from a team revokes exactly what only that membership gave: a policy stays
  effective when its grant is attached to the user directly or to another of the user's teams.
\<close>

theorem remove_member_revokes:
  "d \<in> set (get_effective_policies uid (snd (remove_member tid uid db))) \<longleftrightarrow>
     (\<exists>g. g \<in> set (db_grants db) \<and> document g = d \<and>
        ((\<exists>x. x \<in> set (db_user_grants db) \<and> ug_user_id x = uid \<and> ug_grant_id x = grant_id g) \<or>
         (\<exists>tg tm. tg \<in> set (db_team_grants db) \<and> tg_grant_id tg = grant_id g \<and>
            tm \<in> set (db_team_members db) \<and> tm_team_id tm = tg_team_id tg \<and> tm_user_id tm = uid \<and>
            tm_team_id tm \<noteq> tid)))"
  unfolding effective_policies_iff effective_grant_ids_iff Bex_def
  by (simp add: remove_member_def set_remove_key) blast

subsection \<open>Buckets and uploads\<close>

text \<open>
  C22: deleting a bucket drops its tags but keeps its configuration rows, so a bucket created
  again under the name has every setting of the deleted one.
\<close>

theorem delete_bucket_keeps_config:
  "\<exists>db'. create_bucket_owned now b own (snd (delete_bucket b db)) = Inr db' \<and>
     get_bucket_tags b db' = [] \<and>
     get_bucket_config b k db' = get_bucket_config b k db"
  by (simp add: create_bucket_owned_def delete_bucket_def has_key_remove get_bucket_tags_def
      get_bucket_config_def filter_empty_conv)

text \<open>
  storing a part replaces the part with its number and returns it, keeps the other parts of
  the upload, and closing the upload returns exactly the stored parts and leaves none.
\<close>

theorem put_part_then_take:
  "set (list_parts (p_upload_id p) (snd (put_part p db))) =
     insert p {q \<in> set (list_parts (p_upload_id p) db). p_part_number q \<noteq> p_part_number p} \<and>
   fst (put_part p db) = entity_map part_pk (db_parts db) (part_pk p) \<and>
   set (fst (delete_multipart_upload u db)) = set (list_parts u db) \<and>
   list_parts u (snd (delete_multipart_upload u db)) = [] \<and>
   get_multipart_upload u (snd (delete_multipart_upload u db)) = None"
  by (auto simp: list_parts_def put_part_def set_remove_key delete_multipart_upload_def take_upload_def
      get_multipart_upload_def entity_map_remove filter_empty_conv)

end
