(* ===== verification/Object_Store_Invariant.thy ===== *)
theory Object_Store_Invariant
  imports Object_Rows Control_Db_Invariant
begin

section \<open>The invariant of the object table\<close>

text \<open>
  No schema constraint makes the version id of a row unique or keeps a tombstone from being latest;
  the operations do. The invariant is proved for every operation and for every state they reach.
\<close>

definition key_ok :: "stored_row list \<Rightarrow> bool" where
  "key_ok rows \<longleftrightarrow> distinct (map (version_id \<circ> obj) rows) \<and>
     (\<forall>x \<in> set rows. is_latest (obj x) \<longrightarrow> live x) \<and>
     (\<forall>x \<in> set rows. \<forall>y \<in> set rows. is_latest (obj x) \<longrightarrow> is_latest (obj y) \<longrightarrow> x = y)"

definition object_wf :: "object_db \<Rightarrow> bool" where
  "object_wf db \<longleftrightarrow> base_ok db \<and> (\<forall>b k. key_ok (rows_of b k db))"

definition empty_objects :: "control_db \<Rightarrow> object_db" where
  "empty_objects ct = \<lparr>tables = ct, objects = [], object_seq = 0\<rparr>"

lemma object_wf_empty: "object_wf (empty_objects ct)"
  by (simp add: object_wf_def empty_objects_def base_ok_def rowids_ok_def rows_of_def key_ok_def)

lemma object_wf_base: "object_wf db \<Longrightarrow> base_ok db"
  by (simp add: object_wf_def)

lemma object_wf_key: "object_wf db \<Longrightarrow> key_ok (rows_of b k db)"
  by (simp add: object_wf_def)

lemma rows_of_in: "x \<in> set (rows_of b k db) \<Longrightarrow> x \<in> set (objects db) \<and> of_key b k x"
  by (simp add: rows_of_def)

lemma rows_of_rowid_eq:
  "rowids_ok db \<Longrightarrow> x \<in> set (rows_of b k db) \<Longrightarrow> y \<in> set (rows_of b k db) \<Longrightarrow> rowid x = rowid y \<Longrightarrow> x = y"
  by (auto dest: rows_of_in rowids_okD)

lemma set_map_filter_distinct: "distinct (map f xs) \<Longrightarrow> distinct (map f (filter P xs))"
  by (simp add: distinct_map_filter)

subsection \<open>Preservation, per statement\<close>

text \<open>After \<^verbatim>\<open>recompute_is_latest\<close> the flags are right whatever they were; only the version ids matter.\<close>

lemma key_ok_marked:
  assumes "rowids_ok db" and "distinct (map (version_id \<circ> obj) (rows_of b k db))"
  shows "key_ok (marked (rows_of b k db))"
proof -
  let ?rows = "rows_of b k db"
  have "live x" if x: "x \<in> set ?rows" and top: "top_id ?rows = Some (rowid x)" for x
  proof -
    obtain w where w: "winner (filter live ?rows) = Some w" "rowid w = rowid x"
      using top by (auto simp: top_id_def)
    then have "w \<in> set ?rows" "live w" using winner_SomeD by fastforce+
    then show ?thesis using rows_of_rowid_eq [OF assms(1)] x w(2) by metis
  qed
  moreover have "x = y" if "x \<in> set ?rows" "y \<in> set ?rows" "rowid x = rowid y" for x y
    using rows_of_rowid_eq [OF assms(1)] that by blast
  ultimately show ?thesis using assms(2) by (auto simp: key_ok_def marked_def o_def)
qed

text \<open>
  An operation on one key that ends with \<^verbatim>\<open>recompute_is_latest\<close>: the other keys keep their rows, and
  the rows of its key have distinct version ids before the last step.
\<close>

lemma object_wf_recomputed:
  assumes "object_wf db" and "base_ok db1"
    and frame: "\<And>b' k'. \<not> (b' = b \<and> k' = k) \<Longrightarrow> rows_of b' k' db1 = rows_of b' k' db"
    and versions: "distinct (map (version_id \<circ> obj) (rows_of b k db1))"
  shows "object_wf (recompute_is_latest b k db1)"
proof -
  have ids: "rowids_ok db1" using assms(2) by (rule base_ok_rowids)
  have "key_ok (rows_of b' k' (recompute_is_latest b k db1))" for b' k'
    using key_ok_marked [OF ids versions] frame object_wf_key [OF assms(1)]
    by (simp add: rows_of_recompute [OF ids])
  then show ?thesis using assms(2) by (simp add: object_wf_def base_ok_recompute)
qed

lemma object_wf_key_change:
  assumes "object_wf db" and "base_ok db1"
    and frame: "\<And>b' k'. \<not> (b' = b \<and> k' = k) \<Longrightarrow> rows_of b' k' db1 = rows_of b' k' db"
    and "key_ok (rows_of b k db1)"
  shows "object_wf db1"
proof -
  have "key_ok (rows_of b' k' db1)" for b' k'
    using frame [of b' k'] assms(4) object_wf_key [OF assms(1)] by (cases "b' = b \<and> k' = k") auto
  with assms(2) show ?thesis by (simp add: object_wf_def)
qed

lemma object_wf_tags [invariant_intros]: "object_wf db \<Longrightarrow> object_wf (delete_tags_where P db)"
  by (simp add: object_wf_def rows_simps base_ok_delete_tags)

lemma object_wf_tables [invariant_intros]: "object_wf db \<Longrightarrow> object_wf (db\<lparr>tables := ct\<rparr>)"
  by (simp add: object_wf_def rows_simps base_ok_set_tables)

lemma object_wf_insert_tags: "object_wf db \<Longrightarrow> insert_tags b k v ts db = Inr db' \<Longrightarrow> object_wf db'"
  by (induction b k v ts db rule: insert_tags.induct) (auto split: if_splits intro: object_wf_tables)

lemma object_wf_write_tags: "object_wf db \<Longrightarrow> write_object_tags b k v ts db = Inr db' \<Longrightarrow> object_wf db'"
  unfolding write_object_tags_def by (rule object_wf_insert_tags) (rule object_wf_tags)

lemma key_ok_filter: "key_ok rows \<Longrightarrow> key_ok (filter P rows)"
  by (auto simp: key_ok_def set_map_filter_distinct)

lemma object_wf_delete_where [invariant_intros]: "object_wf db \<Longrightarrow> object_wf (delete_where P db)"
  by (simp add: object_wf_def rows_simps base_ok_delete_where key_ok_filter)

subsection \<open>Preservation, per operation\<close>

definition fresh_vid :: "string \<Rightarrow> object_db \<Rightarrow> bool" where
  "fresh_vid vid db \<longleftrightarrow> (\<forall>x \<in> set (objects db). version_id (obj x) \<noteq> Some vid)"

lemma fresh_vid_rows: "fresh_vid vid db \<Longrightarrow> Some vid \<notin> (\<lambda>x. version_id (obj x)) ` set (rows_of b k db)"
  by (auto simp: fresh_vid_def dest: rows_of_in)

lemma stored_simps [simp]:
  "bucket (stored v r) = bucket r" "key (stored v r) = key r" "version_id (stored v r) = v"
  "is_latest (stored v r)" "is_tombstone (stored v r) = is_tombstone r"
  "\<not> is_delete_marker (stored v r)" "rank (stored v r) = (last_modified r, v, blob_id r)"
  by (simp_all add: stored_def rank_def)

lemma wipe_frame:
  "\<not> (b' = b \<and> k' = k) \<Longrightarrow>
     rows_of b' k' (delete_tags_where Q (delete_where (of_key b k) db)) = rows_of b' k' db"
  by (simp add: rows_simps) (rule filter_True, auto simp: rows_of_def of_key_def)

lemma versions_clear: "map (version_id \<circ> obj) (map (set_latest v) rows) = map (version_id \<circ> obj) rows"
  by simp

lemma object_wf_install_unversioned:
  assumes wf: "object_wf db" and inst: "install_unversioned r db = Inr (old, r1, db')"
  shows "object_wf db'"
proof -
  let ?b = "bucket r" and ?k = "key r"
  let ?db0 = "delete_tags_where (tag_of ?b ?k) (delete_where (of_key ?b ?k) db)"
  let ?db1 = "append_row (stored None r) ?db0"
  have base: "base_ok ?db1" by (intro invariant_intros object_wf_base [OF wf])
  have rows: "rows_of ?b ?k ?db1 = [new_row ?db0 (stored None r)]"
    by (simp add: rows_of_append_row rows_of_wipe)
  have frame: "rows_of b' k' ?db1 = rows_of b' k' db" if "\<not> (b' = ?b \<and> k' = ?k)" for b' k'
    using that by (auto simp: rows_of_append_row wipe_frame)
  have "object_wf (recompute_is_latest ?b ?k ?db1)"
    by (rule object_wf_recomputed [OF wf base frame]) (simp_all add: rows)
  moreover have "object_wf ?db1" if "\<not> is_tombstone r"
  proof (rule object_wf_key_change [OF wf base frame])
    show "key_ok (rows_of ?b ?k ?db1)" unfolding rows using that by (simp add: key_ok_def live_def)
  qed
  ultimately show ?thesis using inst
    by (auto simp: install_unversioned_eq Let_def split: if_splits)
qed

lemma object_wf_install_enabled:
  assumes wf: "object_wf db" and "fresh_vid vid db" and inst: "install_enabled vid r db = Inr (old, r1, db')"
  shows "object_wf db'"
proof -
  let ?b = "bucket r" and ?k = "key r"
  let ?db1 = "append_row (stored (Some vid) r) (clear_latest ?b ?k db)"
  have base: "base_ok ?db1" by (intro invariant_intros object_wf_base [OF wf])
  have "distinct (map (version_id \<circ> obj) (rows_of ?b ?k ?db1))"
    using object_wf_key [OF wf, of ?b ?k] fresh_vid_rows [OF assms(2)]
    by (simp add: rows_simps key_ok_def o_def)
  then have "object_wf (recompute_is_latest ?b ?k ?db1)"
    by (intro object_wf_recomputed [OF wf base]) (auto simp: rows_simps)
  then show ?thesis using inst by (simp add: install_enabled_eq)
qed

lemma object_wf_install_suspended:
  assumes wf: "object_wf db" and inst: "install_suspended r db = Inr (old, r1, db')"
  shows "object_wf db'"
proof -
  let ?b = "bucket r" and ?k = "key r"
  let ?db1 = "append_row (stored None r) (drop_null_version ?b ?k db)"
  have base: "base_ok ?db1" by (intro invariant_intros object_wf_base [OF wf])
  have "distinct (map (version_id \<circ> obj) (rows_of ?b ?k ?db1))"
    using object_wf_key [OF wf, of ?b ?k]
    by (auto simp: rows_of_append_row rows_of_drop_null key_ok_def o_def distinct_map_filter)
  then have "object_wf (recompute_is_latest ?b ?k ?db1)"
    by (intro object_wf_recomputed [OF wf base]) (auto simp: rows_of_append_row rows_of_drop_null)
  then show ?thesis using inst by (simp add: install_suspended_eq)
qed

lemma install_object_cases:
  assumes "install_object vid r pre db = Inr res"
  obtains "install_unversioned r db = Inr res" | "install_enabled vid r db = Inr res"
    | "install_suspended r db = Inr res"
proof -
  obtain inst where inst: "map_sum Store id inst = Inr res"
      "inst = install_unversioned r db \<or> inst = install_enabled vid r db \<or> inst = install_suspended r db"
    using assms unfolding install_object_def
    by (cases "get_versioning_state db (bucket r)") (simp_all split: option.splits)
  then have "inst = Inr res" by (cases inst) auto
  with inst(2) that show ?thesis by auto
qed

lemma object_wf_install:
  assumes "object_wf db" and "fresh_vid vid db" and "install_object vid r pre db = Inr (old, r1, db')"
  shows "object_wf db'"
  using assms(3)
proof (cases rule: install_object_cases)
  case 1
  with assms(1) show ?thesis by (rule object_wf_install_unversioned)
next
  case 2
  with assms(1,2) show ?thesis by (rule object_wf_install_enabled)
next
  case 3
  with assms(1) show ?thesis by (rule object_wf_install_suspended)
qed

lemma object_wf_put:
  assumes "object_wf db" and "fresh_vid vid db"
    and put: "put_object_tagged_if vid r pre tags db = Inr (res, db')"
  shows "object_wf db'"
proof -
  obtain old r1 db1 where inst: "install_object vid r pre db = Inr (old, r1, db1)"
    and tags: "db' = db1 \<or> write_object_tags (bucket r1) (key r1) (tag_vid r1) tags db1 = Inr db'"
    using put by (auto simp: put_object_tagged_if_def split: sum.splits if_splits)
  have "object_wf db1" by (rule object_wf_install [OF assms(1,2) inst])
  with tags show ?thesis by (auto intro: object_wf_write_tags)
qed

lemma object_wf_complete:
  assumes "object_wf db" and "fresh_vid vid db"
    and "complete_multipart_object_tagged vid u r pre tags db = Inr (res, db')"
  shows "object_wf db'"
proof -
  obtain res1 db1 ct where put: "put_object_tagged_if vid r pre tags db = Inr (res1, db1)"
    and "db' = db1\<lparr>tables := ct\<rparr>"
    using assms(3) by (auto simp: complete_multipart_object_tagged_def split: sum.splits if_splits prod.splits)
  then show ?thesis using object_wf_put [OF assms(1,2) put] by (simp add: object_wf_tables)
qed

lemma entomb_rows [simp]: "map (version_id \<circ> obj) (map (\<lambda>x. if P x then entomb now s x else x) rows) =
    map (version_id \<circ> obj) rows"
  by simp

lemma base_ok_entomb:
  assumes "base_ok db"
  shows "base_ok (update_where P (entomb now (Suc (object_seq db))) (db\<lparr>object_seq := Suc (object_seq db)\<rparr>))"
  by (rule base_ok_update_where) (simp_all add: assms base_ok_set_seq)

lemma entomb_frame:
  "(\<And>x. P x \<Longrightarrow> of_key b k x) \<Longrightarrow> \<not> (b' = b \<and> k' = k) \<Longrightarrow>
     rows_of b' k' (update_where P (entomb now s) db) = rows_of b' k' db"
  by (simp add: rows_simps) (rule map_idI, force simp: rows_of_def of_key_def)

lemma delete_frame:
  "(\<And>x. P x \<Longrightarrow> of_key b k x) \<Longrightarrow> \<not> (b' = b \<and> k' = k) \<Longrightarrow>
     rows_of b' k' (delete_where P db) = rows_of b' k' db"
  by (simp add: rows_simps) (rule filter_True, force simp: rows_of_def of_key_def)

lemma key_ok_versions: "key_ok rows \<Longrightarrow> distinct (map (version_id \<circ> obj) rows)"
  by (simp add: key_ok_def)

text \<open>Tombstoning any rows of a key, as the cluster deletes do.\<close>

lemma object_wf_entombed:
  assumes wf: "object_wf db" and P: "\<And>x. P x \<Longrightarrow> of_key b k x"
  shows "object_wf (recompute_is_latest b k (delete_tags_where Q
    (update_where P (entomb now (Suc (object_seq db))) (db\<lparr>object_seq := Suc (object_seq db)\<rparr>))))"
proof (rule object_wf_recomputed [OF wf])
  let ?db1 = "update_where P (entomb now (Suc (object_seq db))) (db\<lparr>object_seq := Suc (object_seq db)\<rparr>)"
  show "base_ok (delete_tags_where Q ?db1)"
    by (intro base_ok_delete_tags base_ok_entomb object_wf_base [OF wf])
  show "rows_of b' k' (delete_tags_where Q ?db1) = rows_of b' k' db" if "\<not> (b' = b \<and> k' = k)" for b' k'
    using entomb_frame [OF P that] by (simp add: rows_of_delete_tags rows_of_set_seq)
  show "distinct (map (version_id \<circ> obj) (rows_of b k (delete_tags_where Q ?db1)))"
    using key_ok_versions [OF object_wf_key [OF wf]] by (simp add: rows_simps o_def if_distrib cong: if_cong)
qed

lemma object_wf_delete_unversioned:
  assumes wf: "object_wf db"
  shows "object_wf (snd (delete_unversioned now b k cluster db))"
  using object_wf_entombed [OF wf, of "of_key b k" b k] wf
  by (auto simp: delete_unversioned_def Let_def next_object_seq_def intro!: object_wf_tags object_wf_delete_where)

lemma delete_marker_simps [simp]:
  "bucket (delete_marker b k now w v) = b" "key (delete_marker b k now w v) = k"
  "version_id (delete_marker b k now w v) = v" "is_latest (delete_marker b k now w v)"
  "is_delete_marker (delete_marker b k now w v)" "\<not> is_tombstone (delete_marker b k now w v)"
  "last_modified (delete_marker b k now w v) = now"
  by (simp_all add: delete_marker_def)

text \<open>Appending the one latest row of a key whose other rows were cleared.\<close>

lemma key_ok_append_latest:
  assumes "distinct (map (version_id \<circ> obj) rows)" and "version_id (obj y) \<notin> (\<lambda>x. version_id (obj x)) ` set rows"
    and "live y"
  shows "key_ok (map (set_latest False) rows @ [y])"
  using assms by (auto simp: key_ok_def o_def)

lemma object_wf_marker_enabled:
  assumes wf: "object_wf db" and fresh: "fresh_vid vid db"
  shows "object_wf (append_row (delete_marker b k now w (Some vid)) (clear_latest b k db))"
proof (rule object_wf_key_change [OF wf])
  show "base_ok (append_row (delete_marker b k now w (Some vid)) (clear_latest b k db))"
    by (intro invariant_intros object_wf_base [OF wf])
  show "key_ok (rows_of b k (append_row (delete_marker b k now w (Some vid)) (clear_latest b k db)))"
    using key_ok_versions [OF object_wf_key [OF wf]] fresh_vid_rows [OF fresh]
    by (simp add: rows_of_append_row rows_of_clear_latest key_ok_append_latest live_def o_def)
qed (auto simp: rows_of_append_row rows_of_clear_latest)

lemma object_wf_marker_suspended:
  assumes wf: "object_wf db"
  shows "object_wf (append_row (delete_marker b k now w None) (drop_null_version b k db))"
proof (rule object_wf_key_change [OF wf])
  show "base_ok (append_row (delete_marker b k now w None) (drop_null_version b k db))"
    by (intro invariant_intros object_wf_base [OF wf])
  show "key_ok (rows_of b k (append_row (delete_marker b k now w None) (drop_null_version b k db)))"
    using key_ok_versions [OF key_ok_filter [OF object_wf_key [OF wf]]]
    by (simp add: rows_of_append_row rows_of_drop_null)
       (rule key_ok_append_latest, auto simp: live_def image_iff)
qed (auto simp: rows_of_append_row rows_of_drop_null)

lemma delete_latest_cases:
  assumes "delete_latest_in_tx vid now b k pre w cluster db = Inr (old, db')"
  obtains "get_versioning_state db b = Unversioned" "(old, db') = delete_unversioned now b k cluster db"
    | "get_versioning_state db b = Enabled" "old = Some (delete_marker b k now w (Some vid))"
      "db' = append_row (delete_marker b k now w (Some vid)) (clear_latest b k db)"
    | "get_versioning_state db b = Suspended" "old = fetch_null_version b k db"
      "db' = append_row (delete_marker b k now w None) (drop_null_version b k db)"
proof -
  have "(case get_versioning_state db b of
      Unversioned \<Rightarrow> Inr (delete_unversioned now b k cluster db)
    | Enabled \<Rightarrow> Inr (Some (delete_marker b k now w (Some vid)),
        append_row (delete_marker b k now w (Some vid)) (clear_latest b k db))
    | Suspended \<Rightarrow> Inr (fetch_null_version b k db,
        append_row (delete_marker b k now w None) (drop_null_version b k db))) = (Inr (old, db') :: CasError + _)"
    using assms unfolding delete_latest_in_tx_def
    by (cases "get_versioning_state db b") (simp_all add: Let_def inserts split: option.splits)
  then show ?thesis using that by (cases "get_versioning_state db b") simp_all
qed

lemma object_wf_delete_latest:
  assumes wf: "object_wf db" and fresh: "fresh_vid vid db"
    and del: "delete_latest_in_tx vid now b k pre w cluster db = Inr (old, db')"
  shows "object_wf db'"
  using del
proof (cases rule: delete_latest_cases)
  case 1
  then show ?thesis using object_wf_delete_unversioned [OF wf, of now b k cluster] by (metis snd_conv)
next
  case 2
  then show ?thesis using object_wf_marker_enabled [OF wf fresh] by simp
next
  case 3
  then show ?thesis using object_wf_marker_suspended [OF wf] by simp
qed

lemma object_wf_remove_version:
  assumes wf: "object_wf db"
  shows "object_wf (remove_version now b k v cluster db)"
proof (cases cluster)
  case True
  then show ?thesis
    using object_wf_entombed [OF wf, of "\<lambda>x. of_key b k x \<and> named_version v x" b k]
    by (simp add: remove_version_def Let_def next_object_seq_def)
next
  case False
  let ?P = "\<lambda>x. of_key b k x \<and> named_version v x"
  let ?Q = "tag_of_version b k (version_tag_vid v)"
  have "object_wf (recompute_is_latest b k (delete_tags_where ?Q (delete_where ?P db)))"
  proof (rule object_wf_recomputed [OF wf])
    show "base_ok (delete_tags_where ?Q (delete_where ?P db))"
      by (intro invariant_intros object_wf_base [OF wf])
    show "rows_of b' k' (delete_tags_where ?Q (delete_where ?P db)) = rows_of b' k' db"
      if "\<not> (b' = b \<and> k' = k)" for b' k'
      unfolding rows_of_delete_tags using that by (intro delete_frame) auto
    show "distinct (map (version_id \<circ> obj) (rows_of b k (delete_tags_where ?Q (delete_where ?P db))))"
      using key_ok_versions [OF key_ok_filter [OF object_wf_key [OF wf]]] by (simp add: rows_simps)
  qed
  with False show ?thesis by (simp add: remove_version_def Let_def)
qed

lemma object_wf_delete_version:
  assumes "object_wf db" and "delete_version_in_tx now b k v pre cluster db = Inr (old, db')"
  shows "object_wf db'"
  using assms object_wf_remove_version [OF assms(1)]
  by (auto simp: delete_version_in_tx_def Let_def split: option.splits if_splits)

lemma resolve_keeps_version:
  assumes "resolve_replicated r l = Some x" and "bucket l = bucket r" "key l = key r" "version_id l = version_id r"
  shows "bucket x = bucket r" "key x = key r" "version_id x = version_id r"
  using assms
  by (auto simp: resolve_replicated_def merge_content_def merge_lock_def Let_def split: if_splits)

definition remote_row :: "ObjectRecord \<Rightarrow> object_db \<Rightarrow> ObjectRecord option" where
  "remote_row r db = (case find (same_version r) (objects db) of
     None \<Rightarrow> Some r | Some ex \<Rightarrow> resolve_replicated r (obj ex))"

lemma apply_remote_object_eq:
  "apply_remote_object r db = recompute_is_latest (bucket r) (key r)
     (case remote_row r db of None \<Rightarrow> db
      | Some x \<Rightarrow> insert_replicated_row x (delete_where (same_version r) db))"
  by (simp add: apply_remote_object_def remote_row_def Let_def)

lemma find_SomeD: "find P xs = Some x \<Longrightarrow> x \<in> set xs \<and> P x"
  by (auto simp: find_Some_iff)

lemma remote_row_version:
  assumes "remote_row r db = Some x"
  shows "bucket x = bucket r \<and> key x = key r \<and> version_id x = version_id r"
proof (cases "find (same_version r) (objects db)")
  case None
  with assms show ?thesis by (simp add: remote_row_def)
next
  case (Some ex)
  then have "same_version r ex" by (blast dest: find_SomeD)
  then show ?thesis using assms Some resolve_keeps_version [of r "obj ex" x]
    by (simp add: remote_row_def same_version_def of_key_def)
qed

lemma rows_of_drop_same_version:
  "rows_of b k (delete_where (same_version r) db) =
     (if b = bucket r \<and> k = key r
      then filter (\<lambda>x. version_id (obj x) \<noteq> version_id r) (rows_of b k db) else rows_of b k db)"
  unfolding rows_of_delete_where
  by (auto intro!: filter_cong filter_True simp: same_version_def rows_of_def of_key_def)

lemma object_wf_apply_remote:
  assumes wf: "object_wf db"
  shows "object_wf (apply_remote_object r db)"
proof (cases "remote_row r db")
  case None
  then show ?thesis
    using object_wf_recomputed [OF wf object_wf_base [OF wf]] key_ok_versions [OF object_wf_key [OF wf]]
    by (simp add: apply_remote_object_eq)
next
  case (Some x)
  note x = remote_row_version [OF Some]
  let ?db1 = "insert_replicated_row x (delete_where (same_version r) db)"
  have base: "base_ok ?db1"
    unfolding insert_replicated_row_def by (intro invariant_intros object_wf_base [OF wf])
  have "distinct (map (version_id \<circ> obj) (rows_of (bucket r) (key r) ?db1))"
    using key_ok_versions [OF key_ok_filter [OF object_wf_key [OF wf]]] x
    by (auto simp: insert_replicated_row_def rows_of_append_row rows_of_drop_same_version)
  moreover have "rows_of b' k' ?db1 = rows_of b' k' db" if "\<not> (b' = bucket r \<and> k' = key r)" for b' k'
    using that x by (auto simp: insert_replicated_row_def rows_of_append_row rows_of_drop_same_version)
  ultimately have "object_wf (recompute_is_latest (bucket r) (key r) ?db1)"
    by (intro object_wf_recomputed [OF wf base]) auto
  with Some show ?thesis by (simp add: apply_remote_object_eq)
qed

lemma object_wf_remote_delete:
  "object_wf db \<Longrightarrow> object_wf (apply_remote_version_delete now b k v db)"
  using object_wf_entombed [of db "\<lambda>x. of_key b k x \<and> named_version v x \<and> \<not> is_tombstone (obj x)" b k]
  by (simp add: apply_remote_version_delete_def next_object_seq_def Let_def)

lemma object_wf_purge: "object_wf db \<Longrightarrow> object_wf (snd (purge_tombstones before db))"
  by (simp add: purge_tombstones_def Let_def object_wf_delete_where)

lemma object_wf_seed: "object_wf db \<Longrightarrow> object_wf (snd (seed_object_seq_to_max db))"
  by (auto simp: seed_object_seq_to_max_def Let_def object_wf_def rows_simps intro: base_ok_set_seq)

text \<open>An in-place change keeps the columns the invariant reads.\<close>

definition keeps_identity :: "(ObjectRecord \<Rightarrow> ObjectRecord) \<Rightarrow> bool" where
  "keeps_identity f \<longleftrightarrow> (\<forall>r. bucket (f r) = bucket r \<and> key (f r) = key r \<and> version_id (f r) = version_id r \<and>
     is_latest (f r) = is_latest r \<and> is_tombstone (f r) = is_tombstone r)"

lemma key_ok_map:
  assumes ok: "key_ok rows"
    and same: "\<And>x. version_id (obj (g x)) = version_id (obj x) \<and> is_latest (obj (g x)) = is_latest (obj x) \<and>
      is_tombstone (obj (g x)) = is_tombstone (obj x)"
  shows "key_ok (map g rows)"
proof -
  have "map (version_id \<circ> obj) (map g rows) = map (version_id \<circ> obj) rows" using same by simp
  then have "distinct (map (version_id \<circ> obj) (map g rows))" using ok by (simp only: key_ok_def)
  moreover have "\<forall>x \<in> set (map g rows). is_latest (obj x) \<longrightarrow> live x"
    using ok same by (simp add: key_ok_def live_def)
  moreover have "\<forall>x \<in> set (map g rows). \<forall>y \<in> set (map g rows).
      is_latest (obj x) \<longrightarrow> is_latest (obj y) \<longrightarrow> x = y"
    using ok same by (auto simp: key_ok_def)
  ultimately show ?thesis unfolding key_ok_def by blast
qed

lemma object_wf_in_place:
  assumes wf: "object_wf db" and f: "keeps_identity f"
  shows "object_wf (snd (update_in_place P f db))"
proof -
  let ?s = "Suc (object_seq db)"
  let ?g = "\<lambda>x. x\<lparr>obj := f (obj x), seq := ?s\<rparr>"
  let ?db1 = "update_where P ?g (db\<lparr>object_seq := ?s\<rparr>)"
  have "base_ok ?db1"
    by (rule base_ok_update_where) (simp_all add: base_ok_set_seq object_wf_base [OF wf])
  moreover have "key_ok (rows_of b k ?db1)" for b k
  proof -
    have "rows_of b k ?db1 = map (\<lambda>x. if P x then ?g x else x) (rows_of b k db)"
      using f by (subst rows_of_update_where) (simp_all add: of_key_def keeps_identity_def rows_of_set_seq)
    then show ?thesis using f object_wf_key [OF wf, of b k]
      by (simp add: key_ok_map keeps_identity_def)
  qed
  ultimately show ?thesis by (simp add: object_wf_def update_in_place_def next_object_seq_def)
qed

lemma object_wf_in_place_ops:
  assumes "object_wf db"
  shows "object_wf (snd (set_object_retention now b k v mode until db))"
    and "object_wf (snd (set_object_legal_hold now b k v status db))"
    and "object_wf (snd (update_object_encryption now b k v alg kid db))"
    and "object_wf (snd (update_object_encryption_cas now b k v ob nb alg kid db))"
  by (simp_all add: set_object_retention_def set_object_legal_hold_def update_object_encryption_def
      update_object_encryption_cas_def object_wf_in_place [OF assms] keeps_identity_def)

subsection \<open>Reachable states\<close>

text \<open>Each id of a batch is fresh when it is drawn.\<close>

fun batch_fresh ::
  "string \<Rightarrow> string \<Rightarrow> bool \<Rightarrow> (BatchDeleteEntry \<times> string \<times> timestamp) list \<Rightarrow> object_db \<Rightarrow> bool" where
  "batch_fresh b w cluster [] db = True"
| "batch_fresh b w cluster (e # es) db =
     (fresh_vid (fst (snd e)) db \<and>
      batch_fresh b w cluster es
        (case delete_entry b w cluster e db of Inl _ \<Rightarrow> db | Inr (_, db1) \<Rightarrow> db1))"

lemma object_wf_delete_entry:
  assumes "object_wf db" and "fresh_vid (fst (snd e)) db" and "delete_entry b w cluster e db = Inr (old, db')"
  shows "object_wf db'"
  using assms by (cases e) (auto simp: delete_entry_def split: option.splits
      intro: object_wf_delete_latest object_wf_delete_version)

lemma object_wf_batch:
  "object_wf db \<Longrightarrow> batch_fresh b w cluster es db \<Longrightarrow> object_wf (snd (delete_objects_if b w cluster es db))"
  by (induction es arbitrary: db) (auto split: sum.splits dest: object_wf_delete_entry)

inductive object_step :: "bool \<Rightarrow> object_db \<Rightarrow> object_db \<Rightarrow> bool" for cluster where
  step_put: "put_object_tagged_if vid r pre tags db = Inr (res, db') \<Longrightarrow> fresh_vid vid db \<Longrightarrow>
     object_step cluster db db'"
| step_complete: "complete_multipart_object_tagged vid u r pre tags db = Inr (cu, db') \<Longrightarrow> fresh_vid vid db \<Longrightarrow>
     object_step cluster db db'"
| step_delete: "delete_object_if vid now b k dpre w cluster db = Inr (old, db') \<Longrightarrow> fresh_vid vid db \<Longrightarrow>
     object_step cluster db db'"
| step_delete_version: "delete_object_version_if now b k v dpre cluster db = Inr (old, db') \<Longrightarrow>
     object_step cluster db db'"
| step_batch: "batch_fresh b w cluster es db \<Longrightarrow>
     object_step cluster db (snd (delete_objects_if b w cluster es db))"
| step_remote: "object_step cluster db (apply_remote_object r db)"
| step_remote_delete: "object_step cluster db (apply_remote_version_delete now b k v db)"
| step_purge: "object_step cluster db (snd (purge_tombstones before db))"
| step_seed: "object_step cluster db (snd (seed_object_seq_to_max db))"
| step_retention: "object_step cluster db (snd (set_object_retention now b k vo mode until db))"
| step_hold: "object_step cluster db (snd (set_object_legal_hold now b k vo status db))"
| step_encryption: "object_step cluster db (snd (update_object_encryption now b k vo alg kid db))"
| step_encryption_cas: "object_step cluster db (snd (update_object_encryption_cas now b k vo ob nb alg kid db))"
| step_put_tags: "put_object_tags b k v tags db = Inr db' \<Longrightarrow> object_step cluster db db'"
| step_delete_tags: "object_step cluster db (snd (delete_object_tags b k v db))"
| step_control: "object_step cluster db (db\<lparr>tables := ct\<rparr>)"

lemma object_step_wf: "object_step cluster db db' \<Longrightarrow> object_wf db \<Longrightarrow> object_wf db'"
proof (induction rule: object_step.induct)
  case step_put
  then show ?case by (blast intro: object_wf_put)
next
  case step_complete
  then show ?case by (blast intro: object_wf_complete)
next
  case step_delete
  then show ?case unfolding delete_object_if_def by (blast intro: object_wf_delete_latest)
next
  case step_delete_version
  then show ?case unfolding delete_object_version_if_def by (blast intro: object_wf_delete_version)
next
  case step_put_tags
  then show ?case unfolding put_object_tags_def by (blast intro: object_wf_write_tags)
qed (simp_all add: object_wf_batch object_wf_apply_remote object_wf_remote_delete object_wf_purge
    object_wf_seed object_wf_in_place_ops delete_object_tags_def object_wf_tags object_wf_tables)

inductive object_reachable :: "bool \<Rightarrow> object_db \<Rightarrow> bool" for cluster where
  reach_empty: "object_reachable cluster (empty_objects ct)"
| reach_step: "object_reachable cluster db \<Longrightarrow> object_step cluster db db' \<Longrightarrow> object_reachable cluster db'"

lemma object_reachable_wf: "object_reachable cluster db \<Longrightarrow> object_wf db"
  by (induction rule: object_reachable.induct) (simp_all add: object_wf_empty object_step_wf)

definition version_key :: "stored_row \<Rightarrow> string \<times> string \<times> string option" where
  "version_key x = (bucket (obj x), key (obj x), version_id (obj x))"

lemma object_wf_version_keys:
  assumes "object_wf db"
  shows "distinct (map version_key (objects db))"
proof -
  have "x = y" if xy: "x \<in> set (objects db)" "y \<in> set (objects db)" and same: "version_key x = version_key y" for x y
  proof -
    let ?rows = "rows_of (bucket (obj x)) (key (obj x)) db"
    have "x \<in> set ?rows" "y \<in> set ?rows" using xy same by (auto simp: rows_of_def of_key_def version_key_def)
    moreover have "inj_on (version_id \<circ> obj) (set ?rows)"
      using key_ok_versions [OF object_wf_key [OF assms]] by (simp add: distinct_map)
    ultimately show ?thesis using same by (simp add: inj_on_def version_key_def)
  qed
  moreover have "distinct (objects db)"
    using object_wf_base [OF assms] by (simp add: base_ok_def rowids_ok_def distinct_map)
  ultimately show ?thesis by (simp add: distinct_map inj_on_def)
qed


text \<open>A versioned bucket after two writes of one key.\<close>

definition no_pre :: WritePrecondition where
  "no_pre = \<lparr>w_if_match = None, w_if_none_match = None\<rparr>"

definition no_delete_pre :: DeletePrecondition where
  "no_delete_pre = \<lparr>d_if_match = None, d_if_match_last_modified = None, d_if_match_size = None,
     d_if_match_blob_id = None\<rparr>"

definition versioned_bucket :: object_db where
  "versioned_bucket = empty_objects (apply_bucket_config_at ''b'' ''versioning'' ''Enabled'' 0 empty_db)"

definition version_row :: "nat \<Rightarrow> string \<Rightarrow> bool \<Rightarrow> ObjectRecord \<Rightarrow> stored_row" where
  "version_row n v l r = \<lparr>rowid = n, obj = r\<lparr>version_id := Some v, is_latest := l\<rparr>, seq = n\<rparr>"

definition one_version :: object_db where
  "one_version = versioned_bucket\<lparr>objects := [version_row 1 ''v1'' True (sample_row 7 ''e1'' ''b1'')],
     object_seq := 1\<rparr>"

definition two_versions :: object_db where
  "two_versions = versioned_bucket\<lparr>objects :=
     [version_row 1 ''v1'' False (sample_row 7 ''e1'' ''b1''),
      version_row 2 ''v2'' True (sample_row 9 ''e2'' ''b2'')], object_seq := 2\<rparr>"

lemmas put_defs = put_object_if_def put_object_tagged_if_def install_object_def install_eqs no_pre_def
  write_pre_is_empty_def get_versioning_state_def versioned_bucket_def empty_objects_def empty_db_def
  apply_bucket_config_at_def get_bucket_config_def upsert_row_def has_key_def entity_map_Cons
  recompute_is_latest_def append_row_def next_object_seq_def clear_latest_def update_where_def
  next_rowid_def stored_def current_version_def set_latest_def live_of_key_def of_key_def
  version_row_def sample_row_def rank_def Let_def

lemma put_one: "put_object_if ''v1'' (sample_row 7 ''e1'' ''b1'') no_pre versioned_bucket =
    Inr ((None, Some ''v1''), one_version)"
  by (simp add: put_defs one_version_def)

lemma put_two: "put_object_if ''v2'' (sample_row 9 ''e2'' ''b2'') no_pre one_version =
    Inr ((None, Some ''v2''), two_versions)"
  by (simp add: put_defs one_version_def two_versions_def)

lemma two_versions_reachable: "object_reachable cluster two_versions"
proof -
  have "object_reachable cluster versioned_bucket" unfolding versioned_bucket_def by (rule reach_empty)
  moreover have "object_step cluster versioned_bucket one_version"
    by (rule step_put [OF put_one [unfolded put_object_if_def]])
       (simp add: fresh_vid_def versioned_bucket_def empty_objects_def)
  moreover have "object_step cluster one_version two_versions"
    by (rule step_put [OF put_two [unfolded put_object_if_def]])
       (simp add: fresh_vid_def one_version_def version_row_def)
  ultimately show ?thesis by (blast intro: reach_step)
qed


end
