(* ===== verification/Object_Versions.thy ===== *)
theory Object_Versions
  imports Object_Store_Invariant
begin

section \<open>What readers see after each write\<close>

text \<open>
  Reads of the object table after puts, deletes and replicated rows: which version is current, which
  versions stay readable, and how the table refines one last-writer-wins register per version.
\<close>

subsection \<open>Queries read the rows of their key\<close>

lemma find_filter: "(\<And>x. P x \<Longrightarrow> Q x) \<Longrightarrow> find P (filter Q xs) = find P xs"
  by (induction xs) auto

lemma find_filter_conj: "find (\<lambda>x. Q x \<and> P x) xs = find P (filter Q xs)"
  by (induction xs) auto

lemma query_rows_of:
  "query_row (\<lambda>x. of_key b k x \<and> P x) db = map_option (object_columns \<circ> obj) (find P (rows_of b k db))"
  by (simp add: query_row_def rows_of_def find_filter_conj)

lemmas query_defs = get_object_def get_latest_object_def get_object_version_def
  fetch_latest_object_def fetch_current_object_def fetch_null_version_def

lemmas queries = query_defs [unfolded query_rows_of]

text \<open>Two tables with the same rows of a key answer every query for it alike.\<close>

lemma queries_cong:
  assumes "rows_of b k db' = rows_of b k db"
  shows "get_object b k db' = get_object b k db" "get_latest_object b k db' = get_latest_object b k db"
    "get_object_version b k v db' = get_object_version b k v db"
  by (simp_all add: queries assms)

lemma find_unique:
  assumes "x \<in> set xs" and "P x" and only: "\<And>y. y \<in> set xs \<Longrightarrow> P y \<Longrightarrow> y = x"
  shows "find P xs = Some x"
proof (cases "find P xs")
  case None
  with assms(1,2) show ?thesis by (simp add: find_None_iff)
next
  case (Some y)
  then have "y = x" using only find_SomeD by metis
  with Some show ?thesis by simp
qed

lemma marked_winner:
  assumes ids: "rowids_ok db" and win: "winner (filter live (rows_of b k db)) = Some w"
  shows "set_latest True w \<in> set (marked (rows_of b k db))"
    and "x \<in> set (marked (rows_of b k db)) \<Longrightarrow> is_latest (obj x) \<Longrightarrow> x = set_latest True w"
proof -
  let ?rows = "rows_of b k db"
  have w: "w \<in> set ?rows" using winner_SomeD [OF win] by simp
  have top: "top_id ?rows = Some (rowid w)" using win by (simp add: top_id_def)
  have "set_latest (top_id ?rows = Some (rowid w)) w \<in> set (marked ?rows)"
    unfolding marked_def set_map using w by (rule imageI)
  then show "set_latest True w \<in> set (marked ?rows)" by (simp only: top simp_thms)
  assume "x \<in> set (marked ?rows)" and latest: "is_latest (obj x)"
  then obtain y where y: "y \<in> set ?rows" "x = set_latest (top_id ?rows = Some (rowid y)) y"
    unfolding marked_def set_map by blast
  with latest top have "rowid w = rowid y" by simp
  then have "w = y" by (rule rows_of_rowid_eq [OF ids w y(1)])
  with y(2) top show "x = set_latest True w" by simp
qed

lemma find_latest_marked:
  assumes ids: "rowids_ok db"
  shows "find (\<lambda>x. is_latest (obj x) \<and> P x) (marked (rows_of b k db)) =
    (case winner (filter live (rows_of b k db)) of
       None \<Rightarrow> None | Some w \<Rightarrow> if P (set_latest True w) then Some (set_latest True w) else None)"
proof (cases "winner (filter live (rows_of b k db))")
  case None
  then have "\<not> is_latest (obj x)" if "x \<in> set (marked (rows_of b k db))" for x
    using that by (auto simp: marked_def top_id_def)
  then show ?thesis using None by (auto simp: find_None_iff)
next
  case (Some w)
  note w = marked_winner [OF ids Some]
  show ?thesis
  proof (cases "P (set_latest True w)")
    case True
    have "find (\<lambda>x. is_latest (obj x) \<and> P x) (marked (rows_of b k db)) = Some (set_latest True w)"
      by (rule find_unique [OF w(1)]) (simp add: True, blast intro: w(2))
    then show ?thesis using Some True by simp
  next
    case False
    then have "find (\<lambda>x. is_latest (obj x) \<and> P x) (marked (rows_of b k db)) = None"
      unfolding find_None_iff using w(2) by blast
    then show ?thesis using Some False by simp
  qed
qed

definition as_latest :: "stored_row \<Rightarrow> ObjectRecord" where
  "as_latest x = object_columns ((obj x)\<lparr>is_latest := True\<rparr>)"

lemma get_latest_recomputed:
  assumes "rowids_ok db"
  shows "get_latest_object b k (recompute_is_latest b k db) =
    map_option as_latest (winner (filter live (rows_of b k db)))"
  using find_latest_marked [OF assms, of "\<lambda>_. True"]
  by (simp add: queries rows_of_recompute [OF assms] as_latest_def o_def split: option.splits)

lemma get_object_recomputed:
  assumes "rowids_ok db"
  shows "get_object b k (recompute_is_latest b k db) =
    (case winner (filter live (rows_of b k db)) of None \<Rightarrow> None
     | Some w \<Rightarrow> if is_delete_marker (obj w) then None else Some (as_latest w))"
  using find_latest_marked [OF assms, of "\<lambda>x. \<not> is_delete_marker (obj x)"]
  by (simp add: queries rows_of_recompute [OF assms] as_latest_def o_def split: option.splits)

lemma winner_append_newest:
  assumes "\<And>x. x \<in> set xs \<Longrightarrow> rank (obj x) < rank (obj y)"
  shows "winner (xs @ [y]) = Some y"
  using assms by (induction xs) auto

lemma rank_older: "last_modified a < last_modified b \<Longrightarrow> rank a < rank b"
  by (simp add: rank_def less_prod_def)

subsection \<open>Put, then get\<close>

text \<open>No live version of the key is as new as the instant.\<close>

definition newest_at :: "timestamp \<Rightarrow> string \<Rightarrow> string \<Rightarrow> object_db \<Rightarrow> bool" where
  "newest_at t b k db \<longleftrightarrow> (\<forall>x \<in> set (rows_of b k db). live x \<longrightarrow> last_modified (obj x) < t)"

lemma winner_after_append:
  assumes "newest_at (last_modified r) b k db" and "\<not> is_tombstone r"
    and "set rows \<subseteq> set_latest False ` set (rows_of b k db)"
  shows "winner (filter live (rows @ [new_row db1 r])) = Some (new_row db1 r)"
proof -
  have "rank (obj x) < rank r" if "x \<in> set (filter live rows)" for x
    using that assms(1,3) by (intro rank_older) (auto simp: newest_at_def)
  then show ?thesis using assms(2) winner_append_newest [of "filter live rows" "new_row db1 r"]
    by (simp add: live_def)
qed

lemma as_latest_stored: "as_latest (new_row db (stored v r)) = object_columns (stored v r)"
  by (cases r) (simp add: as_latest_def stored_def current_version_def)

lemma get_after_install_unversioned:
  assumes "install_unversioned r db = Inr (old, r1, db')" and "\<not> is_tombstone r"
  shows "get_object (bucket r) (key r) db' = Some (object_columns (stored None r)) \<and> r1 = current_version None r"
proof -
  let ?db0 = "delete_tags_where (tag_of (bucket r) (key r)) (delete_where (of_key (bucket r) (key r)) db)"
  have "get_object (bucket r) (key r) (append_row (stored None r) ?db0) = Some (object_columns (stored None r))"
    by (simp add: queries rows_of_append_row rows_of_wipe)
  then show ?thesis using assms by (auto simp add: install_unversioned_eq Let_def)
qed

lemma get_after_install_enabled:
  assumes "object_wf db" and "install_enabled vid r db = Inr (old, r1, db')" and "\<not> is_tombstone r"
    and "newest_at (last_modified r) (bucket r) (key r) db"
  shows "get_object (bucket r) (key r) db' = Some (object_columns (stored (Some vid) r)) \<and>
    r1 = current_version (Some vid) r"
proof -
  let ?db0 = "clear_latest (bucket r) (key r) db" and ?s = "stored (Some vid) r"
  have ids: "rowids_ok (append_row ?s ?db0)"
    by (intro base_ok_rowids invariant_intros object_wf_base [OF assms(1)])
  let ?rows = "map (set_latest False) (rows_of (bucket r) (key r) db)"
  have "winner (filter live (?rows @ [new_row ?db0 ?s])) = Some (new_row ?db0 ?s)"
    by (rule winner_after_append [of _ "bucket r" "key r" db]) (use assms(3,4) in \<open>simp_all add: stored_def\<close>)
  then have "winner (filter live (rows_of (bucket r) (key r) (append_row ?s ?db0))) = Some (new_row ?db0 ?s)"
    by (simp add: rows_of_append_row rows_of_clear_latest)
  then have "get_object (bucket r) (key r) (recompute_is_latest (bucket r) (key r) (append_row ?s ?db0)) =
      Some (object_columns ?s)"
    by (simp add: get_object_recomputed [OF ids] as_latest_stored)
  then show ?thesis using assms(2) by (auto simp add: install_enabled_eq)
qed

lemma get_after_install_suspended:
  assumes "object_wf db" and "install_suspended r db = Inr (old, r1, db')" and "\<not> is_tombstone r"
    and "newest_at (last_modified r) (bucket r) (key r) db"
  shows "get_object (bucket r) (key r) db' = Some (object_columns (stored None r)) \<and>
    r1 = current_version None r"
proof -
  let ?db0 = "drop_null_version (bucket r) (key r) db" and ?s = "stored None r"
  let ?rows = "map (set_latest False) (filter (\<lambda>x. version_id (obj x) \<noteq> None) (rows_of (bucket r) (key r) db))"
  have ids: "rowids_ok (append_row ?s ?db0)"
    by (intro base_ok_rowids invariant_intros object_wf_base [OF assms(1)])
  have "set ?rows \<subseteq> set_latest False ` set (rows_of (bucket r) (key r) db)" by auto
  then have "winner (filter live (?rows @ [new_row ?db0 ?s])) = Some (new_row ?db0 ?s)"
    by (rule winner_after_append [of _ "bucket r" "key r" db, rotated 2]) (use assms(3,4) in \<open>simp_all add: stored_def\<close>)
  then have "winner (filter live (rows_of (bucket r) (key r) (append_row ?s ?db0))) = Some (new_row ?db0 ?s)"
    by (simp add: rows_of_append_row rows_of_drop_null)
  then have "get_object (bucket r) (key r) (recompute_is_latest (bucket r) (key r) (append_row ?s ?db0)) =
      Some (object_columns ?s)"
    by (simp add: get_object_recomputed [OF ids] as_latest_stored)
  then show ?thesis using assms(2) by (auto simp add: install_suspended_eq)
qed

lemma get_after_install:
  assumes "object_wf db" and "install_object vid r pre db = Inr (old, r1, db')" and "\<not> is_tombstone r"
    and "newest_at (last_modified r) (bucket r) (key r) db"
  shows "get_object (bucket r) (key r) db' = Some (object_columns (stored (version_id r1) r)) \<and>
    r1 = current_version (version_id r1) r"
  using assms(2)
proof (cases rule: install_object_cases)
  case 1
  from get_after_install_unversioned [OF 1 assms(3)] show ?thesis by auto
next
  case 2
  from get_after_install_enabled [OF assms(1) 2 assms(3,4)] show ?thesis by auto
next
  case 3
  from get_after_install_suspended [OF assms(1) 3 assms(3,4)] show ?thesis by auto
qed

lemma rows_of_insert_tags: "insert_tags b k v ts db = Inr db' \<Longrightarrow> rows_of b' k' db' = rows_of b' k' db"
  by (induction b k v ts db rule: insert_tags.induct) (auto split: if_splits simp: rows_simps)

lemma rows_of_write_tags: "write_object_tags b k v ts db = Inr db' \<Longrightarrow> rows_of b' k' db' = rows_of b' k' db"
  unfolding write_object_tags_def by (drule rows_of_insert_tags) (simp add: rows_simps)

lemma put_cases:
  assumes "put_object_tagged_if vid r pre tags db = Inr ((old, v), db')"
  obtains r1 db1 where "install_object vid r pre db = Inr (old, r1, db1)" "v = version_id r1"
    "\<And>b k. rows_of b k db' = rows_of b k db1"
    "tags \<noteq> [] \<Longrightarrow> write_object_tags (bucket r1) (key r1) (tag_vid r1) tags db1 = Inr db'"
    "tags = [] \<Longrightarrow> db' = db1"
proof -
  obtain r1 db1 where inst: "install_object vid r pre db = Inr (old, r1, db1)" "v = version_id r1"
    and tags: "(if tags = [] then Inr db1 else write_object_tags (bucket r1) (key r1) (tag_vid r1) tags db1) = Inr db'"
    using assms by (auto simp: put_object_tagged_if_def split: sum.splits)
  then have "rows_of b k db' = rows_of b k db1" for b k
    by (cases "tags = []") (simp_all add: rows_of_write_tags)
  with inst tags show ?thesis by (cases "tags = []") (auto intro: that)
qed

lemma install_frame:
  assumes "object_wf db" and "install_object vid r pre db = Inr (old, r1, db')" and "\<not> (b = bucket r \<and> k = key r)"
  shows "rows_of b k db' = rows_of b k db"
  using assms(2)
proof (cases rule: install_object_cases)
  case 1
  let ?db0 = "delete_tags_where (tag_of (bucket r) (key r)) (delete_where (of_key (bucket r) (key r)) db)"
  have "rowids_ok (append_row (stored None r) ?db0)"
    by (intro base_ok_rowids invariant_intros object_wf_base [OF assms(1)])
  with 1 assms(3) wipe_frame [OF assms(3)] show ?thesis
    by (auto simp: install_unversioned_eq Let_def rows_of_recompute rows_of_append_row split: if_splits)
next
  case 2
  have "rowids_ok (append_row (stored (Some vid) r) (clear_latest (bucket r) (key r) db))"
    by (intro base_ok_rowids invariant_intros object_wf_base [OF assms(1)])
  with 2 assms(3) show ?thesis
    by (auto simp: install_enabled_eq rows_of_recompute rows_of_append_row rows_of_clear_latest)
next
  case 3
  have "rowids_ok (append_row (stored None r) (drop_null_version (bucket r) (key r) db))"
    by (intro base_ok_rowids invariant_intros object_wf_base [OF assms(1)])
  with 3 assms(3) show ?thesis
    by (auto simp: install_suspended_eq rows_of_recompute rows_of_append_row rows_of_drop_null)
qed

text \<open>
  a write that succeeds is what the next read of its key returns, in every versioning state,
  under the version id the write reports, provided no live version carries a clock at or past the
  write's; no read of any other key changes.
\<close>

theorem put_then_get:
  assumes "object_wf db" and "put_object_tagged_if vid r pre tags db = Inr ((old, v), db')"
    and "\<not> is_tombstone r" and "newest_at (last_modified r) (bucket r) (key r) db"
  shows "get_object (bucket r) (key r) db' = Some (object_columns (stored v r)) \<and>
    (\<forall>b k. (b, k) \<noteq> (bucket r, key r) \<longrightarrow> get_object b k db' = get_object b k db)"
  using assms(2)
proof (cases rule: put_cases)
  case (1 r1 db1)
  have "get_object (bucket r) (key r) db1 = Some (object_columns (stored v r))"
    using get_after_install [OF assms(1) 1(1) assms(3,4)] 1(2) by simp
  moreover have "get_object b k db1 = get_object b k db" if "(b, k) \<noteq> (bucket r, key r)" for b k
    by (rule queries_cong(1), rule install_frame [OF assms(1) 1(1)]) (use that in auto)
  ultimately show ?thesis using queries_cong(1) [OF 1(3)] by simp
qed

lemma one_version_wf: "object_wf one_version"
proof -
  have "object_reachable False versioned_bucket" unfolding versioned_bucket_def by (rule reach_empty)
  moreover have "object_step False versioned_bucket one_version"
    by (rule step_put [OF put_one [unfolded put_object_if_def]])
       (simp add: fresh_vid_def versioned_bucket_def empty_objects_def)
  ultimately show ?thesis by (blast intro: reach_step object_reachable_wf)
qed

theorem put_then_get_witness:
  "get_object ''b'' ''k'' two_versions = Some (object_columns (stored (Some ''v2'') (sample_row 9 ''e2'' ''b2'')))"
  using put_then_get [OF one_version_wf put_two [unfolded put_object_if_def]]
  by (simp add: sample_row_def newest_at_def rows_of_def one_version_def version_row_def)

subsection \<open>Delete, then get\<close>

definition plain :: "ObjectRecord \<Rightarrow> ObjectRecord" where
  "plain r = r\<lparr>is_latest := False\<rparr>"

lemma plain_simps [simp]:
  "plain (r\<lparr>is_latest := v\<rparr>) = plain r" "plain (plain r) = plain r"
  "object_columns (r\<lparr>is_latest := v\<rparr>) = (object_columns r)\<lparr>is_latest := v\<rparr>"
  by (simp_all add: plain_def object_columns_def)

lemma find_map: "find P (map f xs) = map_option f (find (P \<circ> f) xs)"
  by (induction xs) auto

lemma find_append: "find P (xs @ ys) = (case find P xs of None \<Rightarrow> find P ys | Some x \<Rightarrow> Some x)"
  by (induction xs) auto

lemma named_version_set_latest [simp]: "named_version v (set_latest l x) = named_version v x"
  by (simp add: named_version_def)

lemma get_object_none_if_none_latest: "fetch_latest_object b k db = None \<Longrightarrow> get_object b k db = None"
  by (auto simp: queries find_None_iff)

lemma delete_unversioned_hides:
  assumes "object_wf db"
  shows "get_object b k (snd (delete_unversioned now b k cluster db)) = None"
proof (cases "fetch_latest_object b k db")
  case None
  then show ?thesis by (simp add: delete_unversioned_def get_object_none_if_none_latest)
next
  case (Some old)
  let ?db1 = "update_where (of_key b k) (entomb now (Suc (object_seq db))) (db\<lparr>object_seq := Suc (object_seq db)\<rparr>)"
  let ?db2 = "delete_tags_where (tag_of b k) ?db1"
  have ids: "rowids_ok ?db2"
    by (intro base_ok_rowids base_ok_delete_tags base_ok_entomb object_wf_base [OF assms])
  have "x = entomb now (Suc (object_seq db)) y \<Longrightarrow> \<not> live x" for x y by simp
  then have "filter live (rows_of b k ?db2) = []"
    by (auto simp: rows_simps filter_empty_conv dest: rows_of_in)
  then have "get_object b k (recompute_is_latest b k ?db2) = None"
    by (simp add: get_object_recomputed [OF ids])
  moreover have "get_object b k (delete_tags_where (tag_of b k) (delete_where (of_key b k) db)) = None"
    by (simp add: queries rows_of_wipe)
  ultimately show ?thesis using Some by (simp add: delete_unversioned_def next_object_seq_def Let_def)
qed

lemma find_cleared_none: "find (\<lambda>x. is_latest (obj x) \<and> P x) (map (set_latest False) rows) = None"
  by (simp add: find_None_iff)

text \<open>
  C26: after a delete that succeeds, reading the key finds nothing, whatever the versioning state and
  the mode. In a versioned bucket the delete only adds a marker: every version that could be read by
  its id still can, unchanged but for the latest flag.
\<close>

theorem delete_then_get:
  assumes wf: "object_wf db" and del: "delete_object_if vid now b k pre w cluster db = Inr (old, db')"
  shows "get_object b k db' = None \<and>
    (get_versioning_state db b = Enabled \<longrightarrow> (\<forall>v. v \<noteq> vid \<longrightarrow>
       map_option plain (get_object_version b k v db') = map_option plain (get_object_version b k v db)))"
  using del [unfolded delete_object_if_def]
proof (cases rule: delete_latest_cases)
  case 1
  then show ?thesis using delete_unversioned_hides [OF wf, of b k now cluster] by (metis VersioningState.distinct(1) snd_conv)
next
  case 2
  have rows: "rows_of b k db' = map (set_latest False) (rows_of b k db) @
      [new_row (clear_latest b k db) (delete_marker b k now w (Some vid))]"
    by (simp add: 2(3) rows_of_append_row rows_of_clear_latest)
  have "get_object b k db' = None" by (simp add: queries rows find_append find_cleared_none)
  moreover have "map_option plain (get_object_version b k v db') = map_option plain (get_object_version b k v db)"
    if "v \<noteq> vid" for v
    using that by (simp add: queries rows find_append find_map o_def named_version_def option.map_comp split: option.splits)
  ultimately show ?thesis by blast
next
  case 3
  have rows: "rows_of b k db' =
      map (set_latest False) (filter (\<lambda>x. version_id (obj x) \<noteq> None) (rows_of b k db)) @
      [new_row (drop_null_version b k db) (delete_marker b k now w None)]"
    by (simp add: 3(3) rows_of_append_row rows_of_drop_null)
  have "get_object b k db' = None" by (simp add: queries rows find_append find_cleared_none)
  then show ?thesis using 3(1) by simp
qed

definition marked_deleted :: object_db where
  "marked_deleted = append_row (delete_marker ''b'' ''k'' 20 ''u'' (Some ''v3'')) (clear_latest ''b'' ''k'' two_versions)"

lemma two_versions_enabled: "get_versioning_state two_versions ''b'' = Enabled"
  by (simp add: get_versioning_state_def two_versions_def versioned_bucket_def empty_objects_def
      apply_bucket_config_at_def get_bucket_config_def upsert_row_def has_key_def entity_map_Cons empty_db_def)

lemma delete_two: "delete_object_if ''v3'' 20 ''b'' ''k'' no_delete_pre ''u'' cluster two_versions =
    Inr (Some (delete_marker ''b'' ''k'' 20 ''u'' (Some ''v3'')), marked_deleted)"
  by (simp add: delete_object_if_def delete_latest_in_tx_def no_delete_pre_def delete_pre_is_empty_def
      inserts marked_deleted_def Let_def two_versions_enabled)

lemma two_versions_wf: "object_wf two_versions"
  using two_versions_reachable by (rule object_reachable_wf)

theorem delete_then_get_witness:
  "get_object ''b'' ''k'' marked_deleted = None \<and>
   map_option plain (get_object_version ''b'' ''k'' ''v1'' marked_deleted) \<noteq> None"
proof -
  have "map_option plain (get_object_version ''b'' ''k'' ''v1'' two_versions) \<noteq> None"
    by (simp add: get_object_version_def query_row_def two_versions_def version_row_def of_key_def
        named_version_def sample_row_def)
  then show ?thesis
    using delete_then_get [OF two_versions_wf delete_two [of False]] two_versions_enabled by auto
qed

text \<open>The flags of a key are those \<^verbatim>\<open>recompute_is_latest\<close> would set.\<close>

definition flags_settled :: "string \<Rightarrow> string \<Rightarrow> object_db \<Rightarrow> bool" where
  "flags_settled b k db \<longleftrightarrow> marked (rows_of b k db) = rows_of b k db"

lemma top_id_append_dead: "\<not> live y \<Longrightarrow> top_id (rows @ [y]) = top_id rows"
  by (simp add: top_id_def)

lemma fresh_not_named:
  "fresh_vid vid db \<Longrightarrow> vid \<noteq> ''null'' \<Longrightarrow> x \<in> set (rows_of b k db) \<Longrightarrow> \<not> named_version vid x"
  by (auto simp: fresh_vid_def named_version_def dest: rows_of_in)

lemma get_version_of_marker:
  assumes "fresh_vid vid db" and "vid \<noteq> ''null''"
  shows "get_object_version b k vid (append_row (delete_marker b k now w (Some vid)) (clear_latest b k db)) =
    Some (delete_marker b k now w (Some vid))"
proof -
  have "find (\<lambda>x. named_version vid x \<and> \<not> is_tombstone (obj x)) (map (set_latest False) (rows_of b k db)) = None"
    using fresh_not_named [OF assms] by (simp add: find_None_iff)
  then show ?thesis using assms(2)
    by (simp add: queries rows_of_append_row rows_of_clear_latest find_append named_version_def
        object_columns_def delete_marker_def)
qed

lemma marker_rowid_new:
  "top_id (rows_of b k db) \<noteq> Some (rowid (new_row (clear_latest b k db) r))"
proof
  assume "top_id (rows_of b k db) = Some (rowid (new_row (clear_latest b k db) r))"
  then obtain x where "x \<in> set (rows_of b k db)" "rowid x = rowid (new_row (clear_latest b k db) r)"
    using winner_SomeD by (fastforce simp: top_id_def)
  then obtain y where "y \<in> set (objects (clear_latest b k db))" "rowid y = rowid (new_row (clear_latest b k db) r)"
    using clear_latest_frame(1) [of b k db] by (metis imageE imageI list.set_map rows_of_in)
  then show False using rowid_less_next by fastforce
qed

text \<open>Removing the marker a delete has just added leaves the key's rows as they were.\<close>

definition with_marker :: "string \<Rightarrow> timestamp \<Rightarrow> string \<Rightarrow> string \<Rightarrow> string \<Rightarrow> object_db \<Rightarrow> object_db" where
  "with_marker vid now b k w db = append_row (delete_marker b k now w (Some vid)) (clear_latest b k db)"

lemma with_marker_rows:
  "rows_of b k (with_marker vid now b k w db) = map (set_latest False) (rows_of b k db) @
     [new_row (clear_latest b k db) (delete_marker b k now w (Some vid))]"
  by (simp add: with_marker_def rows_of_append_row rows_of_clear_latest)

lemma marker_named:
  "vid \<noteq> ''null'' \<Longrightarrow> named_version vid (new_row db (delete_marker b k now w (Some vid)))"
  by (simp add: named_version_def)

lemma marker_of_key: "of_key b k (new_row db (delete_marker b k now w v))"
  by (simp add: of_key_def)

lemma unmark_single:
  assumes "fresh_vid vid db" and "vid \<noteq> ''null''" and settled: "flags_settled b k db" and wf: "object_wf db"
  shows "rows_of b k (remove_version t b k vid False (with_marker vid now b k w db)) = rows_of b k db"
proof -
  let ?db1 = "with_marker vid now b k w db" and ?P = "\<lambda>x. of_key b k x \<and> named_version vid x"
  let ?db2 = "delete_tags_where (tag_of_version b k (version_tag_vid vid)) (delete_where ?P ?db1)"
  let ?old = "map (set_latest False) (rows_of b k db)"
  have old: "\<not> named_version vid x" if "x \<in> set ?old" for x
    using that fresh_not_named [OF assms(1,2)] by auto
  have "filter (\<lambda>x. \<not> ?P x) ?old = ?old" using old by (intro filter_True) blast
  then have "rows_of b k ?db2 = ?old"
    by (simp add: rows_of_delete_tags rows_of_delete_where with_marker_rows marker_named [OF assms(2)] marker_of_key)
  moreover have "rowids_ok ?db2"
    unfolding with_marker_def by (intro base_ok_rowids invariant_intros object_wf_base [OF wf])
  ultimately show ?thesis
    using settled by (simp add: remove_version_def Let_def rows_of_recompute flags_settled_def)
qed

lemma unmark_cluster:
  assumes "fresh_vid vid db" and "vid \<noteq> ''null''" and settled: "flags_settled b k db" and wf: "object_wf db"
  shows "\<exists>x. rows_of b k (remove_version t b k vid True (with_marker vid now b k w db)) = rows_of b k db @ [x] \<and>
    \<not> is_latest (obj x)"
proof -
  let ?db1 = "with_marker vid now b k w db" and ?P = "\<lambda>x. of_key b k x \<and> named_version vid x"
  let ?s = "Suc (object_seq ?db1)" and ?old = "map (set_latest False) (rows_of b k db)"
  let ?mk = "new_row (clear_latest b k db) (delete_marker b k now w (Some vid))"
  let ?db2 = "delete_tags_where (tag_of_version b k (version_tag_vid vid))
      (update_where ?P (entomb t ?s) (?db1\<lparr>object_seq := ?s\<rparr>))"
  have old: "\<not> named_version vid x" if "x \<in> set ?old" for x
    using that fresh_not_named [OF assms(1,2)] by auto
  have "map (\<lambda>x. if ?P x then entomb t ?s x else x) ?old = ?old" using old by (intro map_idI) simp
  then have "rows_of b k ?db2 = ?old @ [entomb t ?s ?mk]"
    by (simp add: rows_of_delete_tags rows_of_update_where rows_of_set_seq with_marker_rows
        marker_named [OF assms(2)] marker_of_key)
  moreover have "base_ok ?db1" unfolding with_marker_def by (intro invariant_intros object_wf_base [OF wf])
  then have "rowids_ok ?db2" by (intro base_ok_rowids base_ok_delete_tags base_ok_entomb)
  ultimately have "rows_of b k (remove_version t b k vid True ?db1) = marked (?old @ [entomb t ?s ?mk])"
    by (simp add: remove_version_def Let_def next_object_seq_def rows_of_recompute)
  also have "\<dots> = rows_of b k db @ [set_latest (top_id (rows_of b k db) = Some (rowid ?mk)) (entomb t ?s ?mk)]"
    using settled by (simp add: marked_def flags_settled_def top_id_append_dead o_def)
  finally show ?thesis using marker_rowid_new [of b k db] by simp
qed

text \<open>
  C27: deleting the delete marker undoes the delete: in a versioned bucket whose flags are settled,
  a delete followed by a delete of the marker's version makes the key read exactly as before, in
  either mode and whatever condition comes with the second request.
\<close>

theorem undelete_restores:
  assumes wf: "object_wf db" and fresh: "fresh_vid vid db" "vid \<noteq> ''null''"
    and enabled: "get_versioning_state db b = Enabled" and settled: "flags_settled b k db"
    and del: "delete_object_if vid now b k pre w cluster db = Inr (old, db1)"
    and undel: "delete_object_version_if t b k vid pre2 cluster db1 = Inr (removed, db2)"
  shows "removed = old \<and> get_object b k db2 = get_object b k db"
proof -
  have "old = Some (delete_marker b k now w (Some vid)) \<and> db1 = with_marker vid now b k w db"
    using del [unfolded delete_object_if_def]
    by (cases rule: delete_latest_cases) (simp_all add: enabled with_marker_def)
  then have db1: "old = Some (delete_marker b k now w (Some vid))" "db1 = with_marker vid now b k w db"
    by blast+
  have "get_object_version b k vid db1 = old"
    using get_version_of_marker [OF fresh] by (simp add: db1 with_marker_def)
  then have "removed = old" and db2: "db2 = remove_version t b k vid cluster db1"
    using undel by (simp_all add: delete_object_version_if_def delete_version_in_tx_def Let_def db1(1))
  moreover have "get_object b k db2 = get_object b k db"
  proof (cases cluster)
    case True
    then obtain x where "rows_of b k db2 = rows_of b k db @ [x]" "\<not> is_latest (obj x)"
      using unmark_cluster [OF fresh settled wf, of t now w] db2 db1(2) by auto
    then show ?thesis by (simp add: queries find_append split: option.splits)
  next
    case False
    then have "rows_of b k db2 = rows_of b k db" using unmark_single [OF fresh settled wf] db2 db1(2) by simp
    then show ?thesis by (rule queries_cong)
  qed
  ultimately show ?thesis by blast
qed

theorem undelete_restores_witness:
  "get_object ''b'' ''k'' (remove_version 21 ''b'' ''k'' ''v3'' True marked_deleted) =
   get_object ''b'' ''k'' two_versions"
proof -
  have fresh: "fresh_vid ''v3'' two_versions"
    by (simp add: fresh_vid_def two_versions_def version_row_def)
  have "flags_settled ''b'' ''k'' two_versions"
    by (simp add: flags_settled_def marked_def top_id_def rows_of_def two_versions_def version_row_def
        of_key_def sample_row_def live_def rank_def set_latest_def)
  moreover have "delete_object_version_if 21 ''b'' ''k'' ''v3'' no_delete_pre True marked_deleted =
      Inr (Some (delete_marker ''b'' ''k'' 20 ''u'' (Some ''v3'')), remove_version 21 ''b'' ''k'' ''v3'' True marked_deleted)"
    using get_version_of_marker [OF fresh, of "''b''" "''k''" 20 "''u''"]
    by (simp add: delete_object_version_if_def delete_version_in_tx_def Let_def marked_deleted_def)
  ultimately show ?thesis
    using undelete_restores [OF two_versions_wf fresh _ two_versions_enabled _ delete_two] by simp
qed

end
