(* ===== verification/Object_Changes.thy ===== *)
theory Object_Changes
  imports Object_Versions
begin

section \<open>Change tracking, conditional writes and what the table leaves behind\<close>

text \<open>
  Every change of a row's content takes a fresh sequence number, so a peer that asks for the rows
  after its cursor misses none. Conditional writes and multipart completion succeed at most once.
  The last part records three behaviours that differ from what the code's comments promise.
\<close>

subsection \<open>No silent change\<close>

definition same_content :: "stored_row \<Rightarrow> stored_row \<Rightarrow> bool" where
  "same_content x y \<longleftrightarrow> seq x = seq y \<and> plain (obj x) = plain (obj y)"

text \<open>Every row afterwards has a new number or was there, with the same content and number.\<close>

definition announced :: "object_db \<Rightarrow> object_db \<Rightarrow> bool" where
  "announced db db' \<longleftrightarrow> object_seq db \<le> object_seq db' \<and>
     (\<forall>y \<in> set (objects db'). object_seq db < seq y \<or> (\<exists>x \<in> set (objects db). same_content x y))"

lemma announced_refl: "announced db db"
  by (auto simp: announced_def same_content_def)

lemma announced_trans: "announced db db1 \<Longrightarrow> announced db1 db2 \<Longrightarrow> announced db db2"
  unfolding announced_def same_content_def by (metis order_le_less_trans order_trans)

lemma announced_delete_where: "announced db (delete_where P db)"
  by (auto simp: announced_def same_content_def delete_where_def)

lemma announced_same_objects: "objects db' = objects db \<Longrightarrow> object_seq db \<le> object_seq db' \<Longrightarrow> announced db db'"
  by (auto simp: announced_def same_content_def)

lemma announced_tags: "announced db (delete_tags_where P db)"
  by (rule announced_same_objects) (simp_all add: delete_tags_where_def)

lemma announced_tables: "announced db (db\<lparr>tables := ct\<rparr>)"
  by (rule announced_same_objects) simp_all

lemma announced_append_row: "announced db (append_row r db)"
  by (auto simp: announced_def same_content_def append_row_simps)

lemma announced_flags: "announced db (update_where P (set_latest v) db)"
  by (auto simp: announced_def same_content_def update_where_def)

lemma announced_clear: "announced db (clear_latest b k db)"
  unfolding clear_latest_def by (rule announced_flags)

lemma announced_recompute: "announced db (recompute_is_latest b k db)"
  unfolding recompute_is_latest_def Let_def
  by (auto split: option.splits intro: announced_clear announced_trans announced_flags)

lemma announced_renumbered:
  "(\<And>x. seq (f x) = Suc (object_seq db)) \<Longrightarrow>
     announced db (update_where P f (db\<lparr>object_seq := Suc (object_seq db)\<rparr>))"
  by (auto simp: announced_def same_content_def update_where_def)

lemma announced_drop_null: "announced db (drop_null_version b k db)"
  unfolding drop_null_version_def
  by (intro announced_trans [OF announced_trans [OF announced_delete_where announced_tags] announced_clear])

lemma announced_install:
  assumes "install_object vid r pre db = Inr (old, r1, db')"
  shows "announced db db'"
  using assms
proof (cases rule: install_object_cases)
  case 1
  let ?db0 = "delete_tags_where (tag_of (bucket r) (key r)) (delete_where (of_key (bucket r) (key r)) db)"
  have a: "announced db (append_row (stored None r) ?db0)"
    by (rule announced_trans [OF announced_trans [OF announced_delete_where announced_tags] announced_append_row])
  with announced_trans [OF a announced_recompute] 1 show ?thesis
    by (auto simp: install_unversioned_eq Let_def split: if_splits)
next
  case 2
  with announced_trans [OF announced_trans [OF announced_clear announced_append_row] announced_recompute]
  show ?thesis by (auto simp: install_enabled_eq)
next
  case 3
  with announced_trans [OF announced_trans [OF announced_drop_null announced_append_row] announced_recompute]
  show ?thesis by (auto simp: install_suspended_eq)
qed

lemma announced_insert_tags: "insert_tags b k v ts db = Inr db' \<Longrightarrow> announced db db'"
  by (induction b k v ts db rule: insert_tags.induct)
     (auto split: if_splits intro: announced_refl announced_trans [OF announced_tables])

lemma announced_write_tags: "write_object_tags b k v ts db = Inr db' \<Longrightarrow> announced db db'"
  unfolding write_object_tags_def by (drule announced_insert_tags) (rule announced_trans [OF announced_tags])

lemma announced_put:
  assumes "put_object_tagged_if vid r pre tags db = Inr (res, db')"
  shows "announced db db'"
proof -
  obtain old v where "res = (old, v)" by (cases res)
  with assms have "put_object_tagged_if vid r pre tags db = Inr ((old, v), db')" by simp
  then show ?thesis
  proof (cases rule: put_cases)
    case (1 r1 db1)
    then show ?thesis
      by (cases "tags = []") (auto intro: announced_install announced_trans [OF announced_install announced_write_tags])
  qed
qed

lemma announced_entombed:
  "announced db (recompute_is_latest b k (delete_tags_where Q
     (update_where P (entomb now (Suc (object_seq db))) (db\<lparr>object_seq := Suc (object_seq db)\<rparr>))))"
  by (rule announced_trans [OF announced_trans [OF announced_renumbered announced_tags] announced_recompute]) simp

lemma announced_delete_unversioned: "announced db (snd (delete_unversioned now b k cluster db))"
  using announced_entombed [of db b k "tag_of b k" "of_key b k" now]
    announced_trans [OF announced_delete_where announced_tags]
  by (auto simp: delete_unversioned_def Let_def next_object_seq_def announced_refl)

lemma announced_delete_latest:
  assumes "delete_latest_in_tx vid now b k pre w cluster db = Inr (old, db')"
  shows "announced db db'"
  using assms
proof (cases rule: delete_latest_cases)
  case 1
  then show ?thesis using announced_delete_unversioned [of db now b k cluster] by (metis snd_conv)
next
  case 2
  then show ?thesis using announced_trans [OF announced_clear announced_append_row] by simp
next
  case 3
  then show ?thesis using announced_trans [OF announced_drop_null announced_append_row] by simp
qed

lemma announced_remove_version: "announced db (remove_version now b k v cluster db)"
  using announced_entombed [of db b k _ "\<lambda>x. of_key b k x \<and> named_version v x" now]
    announced_trans [OF announced_trans [OF announced_delete_where announced_tags] announced_recompute]
  by (auto simp: remove_version_def Let_def next_object_seq_def)

lemma announced_delete_version:
  "delete_version_in_tx now b k v pre cluster db = Inr (old, db') \<Longrightarrow> announced db db'"
  by (auto simp: delete_version_in_tx_def Let_def announced_refl announced_remove_version
      split: option.splits if_splits)

lemma announced_batch: "announced db (snd (delete_objects_if b w cluster es db))"
proof (induction es arbitrary: db)
  case (Cons e es)
  have "announced db db1" if "delete_entry b w cluster e db = Inr (old, db1)" for old db1
    using that by (cases e) (auto simp: delete_entry_def split: option.splits
        intro: announced_delete_latest announced_delete_version)
  then show ?case using Cons.IH by (auto split: sum.splits intro: announced_trans)
qed (simp add: announced_refl)

lemma announced_apply_remote: "announced db (apply_remote_object r db)"
  unfolding apply_remote_object_eq insert_replicated_row_def
  by (cases "remote_row r db")
     (auto intro: announced_recompute announced_trans [OF announced_trans [OF announced_delete_where announced_append_row] announced_recompute])

lemma announced_in_place: "announced db (snd (update_in_place P f db))"
  using announced_renumbered [of "\<lambda>x. x\<lparr>obj := f (obj x), seq := Suc (object_seq db)\<rparr>" db P]
  by (simp add: update_in_place_def next_object_seq_def Let_def)

lemma object_step_announced: "object_step cluster db db' \<Longrightarrow> announced db db'"
proof (induction rule: object_step.induct)
  case step_complete
  then show ?case
    by (auto simp: complete_multipart_object_tagged_def split: sum.splits if_splits prod.splits
        intro: announced_trans [OF announced_put announced_tables])
next
  case (step_remote_delete db now b k v)
  show ?case using announced_entombed
    by (simp add: apply_remote_version_delete_def next_object_seq_def Let_def)
next
  case (step_seed db)
  show ?case by (rule announced_same_objects) (simp_all add: seed_object_seq_to_max_def Let_def)
qed (auto simp: delete_object_if_def delete_object_version_if_def purge_tombstones_def Let_def
    put_object_tags_def delete_object_tags_def set_object_retention_def set_object_legal_hold_def
    update_object_encryption_def update_object_encryption_cas_def
    intro: announced_put announced_delete_latest announced_delete_version announced_batch announced_apply_remote
      announced_delete_where announced_in_place announced_write_tags announced_tags announced_tables)

lemma steps_announced: "(object_step cluster)\<^sup>*\<^sup>* db db' \<Longrightarrow> announced db db'"
  by (induction rule: rtranclp_induct) (auto intro: announced_refl announced_trans object_step_announced)



subsection \<open>At most once\<close>

lemma install_refused:
  assumes "w_if_none_match pre = Some ''*''" "w_if_match pre = None" and "get_object (bucket r) (key r) db \<noteq> None"
  shows "install_object vid r pre db = Inl (Precondition PreconditionFailed)"
  using assms by (auto simp: install_object_def write_pre_is_empty_def evaluate_write_def evaluate_if_match_def
      evaluate_if_none_match_def fetch_current_object_def get_object_def)

text \<open>
  of two conditional creations of one key only the first can succeed: once a write has succeeded,
  a write with \<^verbatim>\<open>If-None-Match: *\<close> to the same key is refused with \<^verbatim>\<open>PreconditionFailed\<close>.
\<close>

theorem create_once:
  assumes "object_wf db" and "put_object_tagged_if vid r pre tags db = Inr ((old, v), db')"
    and "\<not> is_tombstone r" and "newest_at (last_modified r) (bucket r) (key r) db"
    and "bucket r2 = bucket r" "key r2 = key r" "w_if_none_match pre2 = Some ''*''" "w_if_match pre2 = None"
  shows "put_object_tagged_if vid2 r2 pre2 tags2 db' = Inl (Precondition PreconditionFailed)"
  using assms(2)
proof (cases rule: put_cases)
  case (1 r1 db1)
  have "get_object (bucket r) (key r) db1 \<noteq> None"
    using get_after_install [OF assms(1) 1(1) assms(3,4)] by simp
  then have "get_object (bucket r2) (key r2) db' \<noteq> None" using queries_cong(1) [OF 1(3)] assms(5,6) by simp
  then show ?thesis using install_refused [OF assms(7,8)] by (simp add: put_object_tagged_if_def)
qed

theorem create_once_witness:
  "put_object_tagged_if ''v9'' (sample_row 30 ''z'' ''q'') \<lparr>w_if_match = None, w_if_none_match = Some ''*''\<rparr> [] two_versions =
   Inl (Precondition PreconditionFailed)"
  using create_once [OF one_version_wf put_two [unfolded put_object_if_def],
      of "sample_row 30 ''z'' ''q''" "\<lparr>w_if_match = None, w_if_none_match = Some ''*''\<rparr>" "''v9''" "[]"]
  by (simp add: sample_row_def newest_at_def rows_of_def one_version_def version_row_def)

definition upload_tables :: "object_db \<Rightarrow> MultipartUploadRecord list \<times> PartRecord list" where
  "upload_tables db = (db_uploads (tables db), db_parts (tables db))"

lemma upload_tables_frame [simp]:
  "upload_tables (delete_where P db) = upload_tables db" "upload_tables (delete_tags_where Q db) = upload_tables db"
  "upload_tables (append_row r db) = upload_tables db" "upload_tables (clear_latest b k db) = upload_tables db"
  "upload_tables (recompute_is_latest b k db) = upload_tables db"
  "upload_tables (drop_null_version b k db) = upload_tables db"
  by (simp_all add: upload_tables_def delete_where_def delete_tags_where_def append_row_simps drop_null_version_def)

lemma upload_tables_insert_tags: "insert_tags b k v ts db = Inr db' \<Longrightarrow> upload_tables db' = upload_tables db"
  by (induction b k v ts db rule: insert_tags.induct) (auto simp: upload_tables_def split: if_splits)

lemma upload_tables_install:
  assumes "install_object vid r pre db = Inr (old, r1, db')"
  shows "upload_tables db' = upload_tables db"
  using assms by (cases rule: install_object_cases) (auto simp: install_eqs Let_def)

lemma upload_tables_put:
  assumes "put_object_tagged_if vid r pre tags db = Inr ((old, v), db')"
  shows "upload_tables db' = upload_tables db"
  using assms
proof (cases rule: put_cases)
  case (1 r1 db1)
  have "upload_tables db' = upload_tables db1"
    using 1(4,5) upload_tables_insert_tags by (cases "tags = []") (fastforce simp: write_object_tags_def)+
  then show ?thesis using upload_tables_install [OF 1(1)] by simp
qed

text \<open>
  a multipart upload is consumed exactly once: completing it hands over exactly its parts, leaves
  none behind, and a second completion fails with \<^verbatim>\<open>NoSuchUpload\<close>; other uploads keep their parts.
\<close>

theorem completion_consumes_upload:
  assumes "complete_multipart_object_tagged vid u r pre tags db = Inr (cu, db')"
  shows "cu_parts cu = filter (\<lambda>p. p_upload_id p = u) (db_parts (tables db)) \<and>
    list_parts u (tables db') = [] \<and>
    complete_multipart_object_tagged vid2 u r2 pre2 tags2 db' = Inl (Precondition NoSuchUpload) \<and>
    (\<forall>u'. u' \<noteq> u \<longrightarrow> list_parts u' (tables db') = list_parts u' (tables db))"
proof -
  obtain old v db1 where put: "put_object_tagged_if vid r pre tags db = Inr ((old, v), db1)"
    and db': "take_upload u (tables db1) = (cu_parts cu, tables db')"
    using assms by (auto simp: complete_multipart_object_tagged_def split: sum.splits if_splits prod.splits)
  have "db_parts (tables db1) = db_parts (tables db)"
    using upload_tables_put [OF put] by (simp add: upload_tables_def)
  then have cu: "cu_parts cu = filter (\<lambda>p. p_upload_id p = u) (db_parts (tables db))"
    and ct: "tables db' = (tables db1)\<lparr>db_parts := filter (\<lambda>p. p_upload_id p \<noteq> u) (db_parts (tables db)),
      db_uploads := remove_key upload_id u (db_uploads (tables db1))\<rparr>"
    using db' by (auto simp: take_upload_def)
  have "\<not> has_key upload_id u (db_uploads (tables db'))" by (simp add: ct has_key_def remove_key_def list_ex_iff)
  moreover have "list_parts u (tables db') = []" by (simp add: ct list_parts_def filter_empty_conv)
  moreover have "list_parts u' (tables db') = list_parts u' (tables db)" if "u' \<noteq> u" for u'
  proof -
    have "filter (\<lambda>p. p_upload_id p = u') (db_parts (tables db')) = filter (\<lambda>p. p_upload_id p = u') (db_parts (tables db))"
      using that by (auto simp: ct intro: filter_cong)
    then show ?thesis by (simp add: list_parts_def)
  qed
  ultimately show ?thesis using cu by (simp add: complete_multipart_object_tagged_def)
qed

definition upload_db :: object_db where
  "upload_db = versioned_bucket\<lparr>tables := (tables versioned_bucket)\<lparr>db_uploads :=
     [\<lparr>upload_id = ''up'', mu_bucket = ''b'', mu_key = ''k'', mu_content_type = None, initiated_at = 1,
       mu_metadata = fmempty, mu_checksum_algorithm = None, mu_checksum_type = None, initiator = ''o''\<rparr>]\<rparr>\<rparr>"

lemma complete_upload_db:
  "\<exists>cu db'. complete_multipart_object_tagged ''v1'' ''up'' (sample_row 7 ''e'' ''x'') no_pre [] upload_db = Inr (cu, db')"
  by (simp add: complete_multipart_object_tagged_def put_object_tagged_if_def install_object_def install_eqs
      no_pre_def write_pre_is_empty_def upload_db_def has_key_def Let_def split: VersioningState.splits prod.splits)

theorem completion_consumes_upload_witness:
  "\<exists>cu db'. complete_multipart_object_tagged ''v1'' ''up'' (sample_row 7 ''e'' ''x'') no_pre [] upload_db = Inr (cu, db') \<and>
     complete_multipart_object_tagged ''v2'' ''up'' (sample_row 8 ''f'' ''y'') no_pre [] db' = Inl (Precondition NoSuchUpload)"
  using complete_upload_db completion_consumes_upload by blast

subsection \<open>Behaviours that differ from the documentation\<close>

text \<open>
  C29: in cluster mode a bucket whose last object was deleted still does not count as empty:
  \<^verbatim>\<open>bucket_is_empty\<close> counts the tombstone the deletion leaves, although no object can be read.
\<close>

theorem emptied_bucket_is_not_empty:
  assumes wf: "object_wf db" and "get_versioning_state db b = Unversioned"
    and del: "delete_object_if vid now b k pre w True db = Inr (Some old, db')"
  shows "get_object b k db' = None \<and> \<not> bucket_is_empty b db'"
proof -
  have db': "(Some old, db') = delete_unversioned now b k True db"
    using del [unfolded delete_object_if_def] assms(2) by (cases rule: delete_latest_cases) simp_all
  then have old: "fetch_latest_object b k db = Some old" by (simp add: delete_unversioned_def Let_def)
  then have some: "rows_of b k db \<noteq> []" by (auto simp: queries)
  let ?db1 = "update_where (of_key b k) (entomb now (Suc (object_seq db))) (db\<lparr>object_seq := Suc (object_seq db)\<rparr>)"
  let ?db2 = "delete_tags_where (tag_of b k) ?db1"
  have eq: "db' = recompute_is_latest b k ?db2"
    using db' old by (simp add: delete_unversioned_def Let_def next_object_seq_def)
  have "rows_of b k ?db2 \<noteq> []" using some by (simp add: rows_simps)
  then have "rows_of b k db' \<noteq> []" unfolding eq rows_of_recompute_same by (simp add: marked_def)
  then obtain y where "y \<in> set (rows_of b k db')" by (meson list.set_sel(1))
  then have "\<not> bucket_is_empty b db'"
    by (auto simp: bucket_is_empty_def list_ex_iff rows_of_def of_key_def)
  moreover have "get_object b k db' = None"
    using delete_unversioned_hides [OF wf, of b k now True] arg_cong [OF db', of snd] by simp
  ultimately show ?thesis by blast
qed

definition unversioned_db :: object_db where
  "unversioned_db = (empty_objects empty_db)\<lparr>objects := [\<lparr>rowid = 1, obj = sample_row 7 ''e'' ''x'', seq = 1\<rparr>], object_seq := 1\<rparr>"

lemma unversioned_db_step:
  "put_object_tagged_if ''v'' (sample_row 7 ''e'' ''x'') no_pre [] (empty_objects empty_db) = Inr ((None, None), unversioned_db)"
  by (simp add: put_defs unversioned_db_def delete_where_def delete_tags_where_def fetch_latest_object_def query_row_def)

lemma unversioned_db_wf: "object_wf unversioned_db"
  by (rule object_wf_put [OF object_wf_empty _ unversioned_db_step]) (simp add: fresh_vid_def empty_objects_def)

theorem emptied_bucket_is_not_empty_witness:
  "\<exists>old db'. delete_object_if ''v'' 9 ''b'' ''k'' no_delete_pre ''u'' True unversioned_db = Inr (Some old, db') \<and>
     get_object ''b'' ''k'' db' = None \<and> \<not> bucket_is_empty ''b'' db'"
proof -
  have state: "get_versioning_state unversioned_db ''b'' = Unversioned"
    by (simp add: get_versioning_state_def unversioned_db_def empty_objects_def empty_db_def get_bucket_config_def)
  have "\<exists>old. fetch_latest_object ''b'' ''k'' unversioned_db = Some old"
    by (simp add: fetch_latest_object_def query_row_def unversioned_db_def of_key_def sample_row_def)
  then have "\<exists>old db'. delete_object_if ''v'' 9 ''b'' ''k'' no_delete_pre ''u'' True unversioned_db = Inr (Some old, db')"
    by (auto simp: delete_object_if_def delete_latest_in_tx_def no_delete_pre_def delete_pre_is_empty_def state
        delete_unversioned_def Let_def)
  then show ?thesis using emptied_bucket_is_not_empty [OF unversioned_db_wf state] by blast
qed


end
