(* ===== verification/Object_Replication.thy ===== *)
theory Object_Replication
  imports Object_Versions
begin

section \<open>Replicated rows: the table as one register per version\<close>

text \<open>
  A peer's row reaches a node through \<^verbatim>\<open>apply_remote_object\<close>, by the real-time fan-out or by
  anti-entropy. Abstractly the table is one register per bucket, key and version id, and applying a
  row updates its register by the resolution rule of theory \<^verbatim>\<open>Object_Record\<close>; which version is latest is a
  function of the registers. Convergence and the safety of tombstones follow on the abstract side.
\<close>

type_synonym version_name = "string \<times> string \<times> string option"

definition record_key :: "ObjectRecord \<Rightarrow> version_name" where
  "record_key r = (bucket r, key r, version_id r)"

definition registers :: "object_db \<Rightarrow> version_name \<rightharpoonup> ObjectRecord" where
  "registers db n = map_option (plain \<circ> obj) (find (\<lambda>x. version_key x = n) (objects db))"

definition register_update :: "ObjectRecord \<Rightarrow> (version_name \<rightharpoonup> ObjectRecord) \<Rightarrow> version_name \<rightharpoonup> ObjectRecord" where
  "register_update r m = m(record_key r \<mapsto>
     (case m (record_key r) of None \<Rightarrow> plain r | Some l \<Rightarrow> plain (deliver r l)))"

lemma registers_rows_of:
  "registers db (b, k, v) = map_option (plain \<circ> obj) (find (\<lambda>x. version_id (obj x) = v) (rows_of b k db))"
proof -
  have "(\<lambda>x. version_key x = (b, k, v)) = (\<lambda>x. of_key b k x \<and> version_id (obj x) = v)"
    by (auto simp: version_key_def of_key_def fun_eq_iff)
  then show ?thesis by (simp add: registers_def rows_of_def find_filter_conj)
qed

text \<open>The latest flag takes no part in the resolution.\<close>

lemma merge_plain:
  "merge_lock r (plain l) = plain (merge_lock r l)" "merge_content r (plain l) = plain (merge_content r l)"
  by (simp_all add: merge_lock_def merge_content_def plain_def)

lemma plain_fields: "last_modified (plain l) = last_modified l" "etag (plain l) = etag l" "blob_id (plain l) = blob_id l"
  by (simp_all add: plain_def)

lemma deliver_plain: "plain (deliver r (plain l)) = plain (deliver r l)"
proof -
  consider "last_modified l < last_modified r" | "last_modified r < last_modified l"
    | "last_modified r = last_modified l" "etag r \<noteq> etag l" | "last_modified r = last_modified l" "etag r = etag l"
    by linarith
  then show ?thesis
    by cases (simp_all add: deliver_cases plain_fields merge_plain)
qed

lemma find_marked:
  assumes "\<And>x v. P (set_latest v x) = P x"
  shows "map_option (plain \<circ> obj) (find P (marked rows)) = map_option (plain \<circ> obj) (find P rows)"
  using assms by (simp add: marked_def find_map o_def option.map_comp)

lemma registers_recompute:
  assumes "rowids_ok db"
  shows "registers (recompute_is_latest b k db) = registers db"
proof
  fix n :: version_name
  obtain b' k' v where "n = (b', k', v)" by (cases n)
  then show "registers (recompute_is_latest b k db) n = registers db n"
    using find_marked [of "\<lambda>x. version_id (obj x) = v" "rows_of b k db"]
    by (simp add: registers_rows_of rows_of_recompute [OF assms])
qed

lemma find_other_version:
  "find (\<lambda>y. version_id (obj y) = v) (filter (\<lambda>y. version_id (obj y) \<noteq> u) rows) =
     (if v = u then None else find (\<lambda>y. version_id (obj y) = v) rows)"
  by (auto simp: find_None_iff intro: find_filter)

lemma registers_replace:
  assumes "record_key x = record_key r"
  shows "registers (insert_replicated_row x (delete_where (same_version r) db)) = (registers db)(record_key r \<mapsto> plain x)"
proof
  fix n :: version_name
  obtain b k v where n: "n = (b, k, v)" by (cases n)
  let ?new = "insert_replicated_row x (delete_where (same_version r) db)"
  have rows: "rows_of b k ?new = (if b = bucket r \<and> k = key r
      then filter (\<lambda>y. version_id (obj y) \<noteq> version_id r) (rows_of b k db) @
        [new_row (delete_where (same_version r) db) (plain x)]
      else rows_of b k db)"
    using assms by (auto simp: insert_replicated_row_def rows_of_append_row rows_of_drop_same_version
        record_key_def plain_def)
  show "registers ?new n = ((registers db)(record_key r \<mapsto> plain x)) n"
    using assms unfolding n registers_rows_of rows
    by (simp add: find_append find_other_version record_key_def split: option.splits)
       (auto simp: plain_def registers_rows_of)
qed

lemma find_same_version:
  "registers db (record_key r) = map_option (plain \<circ> obj) (find (same_version r) (objects db))"
proof -
  have "(\<lambda>x. version_key x = record_key r) = same_version r"
    by (auto simp: version_key_def record_key_def same_version_def of_key_def fun_eq_iff)
  then show ?thesis by (simp add: registers_def)
qed

lemma apply_remote_register:
  assumes wf: "object_wf db"
  shows "registers (apply_remote_object r db) = register_update r (registers db)"
proof (cases "remote_row r db")
  case None
  then obtain ex where ex: "find (same_version r) (objects db) = Some ex" "resolve_replicated r (obj ex) = None"
    by (auto simp: remote_row_def split: option.splits)
  then have "registers db (record_key r) = Some (plain (obj ex))" by (simp add: find_same_version)
  then have "register_update r (registers db) = registers db"
    using ex(2) by (auto simp: register_update_def deliver_plain fun_eq_iff) (simp add: deliver_def)
  then show ?thesis using None
    by (simp add: apply_remote_object_eq registers_recompute base_ok_rowids object_wf_base [OF wf])
next
  case (Some x)
  have x: "record_key x = record_key r" using remote_row_version [OF Some] by (simp add: record_key_def)
  have "rowids_ok (insert_replicated_row x (delete_where (same_version r) db))"
    unfolding insert_replicated_row_def by (intro base_ok_rowids invariant_intros object_wf_base [OF wf])
  then have "registers (apply_remote_object r db) = (registers db)(record_key r \<mapsto> plain x)"
    using Some by (simp add: apply_remote_object_eq registers_recompute registers_replace [OF x])
  moreover have "plain x = (case registers db (record_key r) of None \<Rightarrow> plain r | Some l \<Rightarrow> plain (deliver r l))"
    using Some by (auto simp: remote_row_def find_same_version deliver_plain split: option.splits)
      (simp add: deliver_def)
  ultimately show ?thesis by (simp add: register_update_def)
qed

text \<open>
  C13: applying a peer's row is one register update: the table, read as a map from bucket, key and
  version id to the row's content, changes at the row's own version only, where the incoming and the
  stored row are resolved; the flags, the rowids and the sequence numbers play no part.
\<close>

theorem apply_remote_refines_register:
  assumes "object_wf db"
  shows "registers (apply_remote_object r db) = register_update r (registers db)"
  using assms by (rule apply_remote_register)

theorem apply_remote_refines_register_witness:
  "registers (apply_remote_object (sample_row 9 ''e2'' ''b2'') one_version) =
   register_update (sample_row 9 ''e2'' ''b2'') (registers one_version)"
  using apply_remote_refines_register [OF one_version_wf] by simp

subsection \<open>Reads as functions of the registers\<close>

lemma find_conj_unique:
  "distinct (map f xs) \<Longrightarrow> find (\<lambda>x. f x = a \<and> Q x) xs =
     (case find (\<lambda>x. f x = a) xs of None \<Rightarrow> None | Some x \<Rightarrow> if Q x then Some x else None)"
  by (induction xs) (auto split: option.splits dest!: find_SomeD)

definition version_of :: "string \<Rightarrow> string option" where
  "version_of v = (if v = ''null'' then None else Some v)"

lemma get_version_registers:
  assumes "object_wf db"
  shows "map_option plain (get_object_version b k v db) =
    (case registers db (b, k, version_of v) of
       None \<Rightarrow> None | Some r \<Rightarrow> if is_tombstone r then None else Some (object_columns r))"
proof -
  have "distinct (map (\<lambda>x. version_id (obj x)) (rows_of b k db))"
    using key_ok_versions [OF object_wf_key [OF assms]] by (simp add: o_def)
  from find_conj_unique [OF this, of "version_of v" "\<lambda>x. \<not> is_tombstone (obj x)"] show ?thesis
    by (simp add: queries registers_rows_of named_version_def version_of_def [symmetric] split: option.splits)
       (simp add: plain_def object_columns_def)
qed

lemma registers_row:
  assumes "object_wf db" and "x \<in> set (rows_of b k db)"
  shows "registers db (b, k, version_id (obj x)) = Some (plain (obj x))"
proof -
  have "inj_on (version_id \<circ> obj) (set (rows_of b k db))"
    using key_ok_versions [OF object_wf_key [OF assms(1)]] by (simp add: distinct_map)
  then have "find (\<lambda>y. version_id (obj y) = version_id (obj x)) (rows_of b k db) = Some x"
    using assms(2) by (intro find_unique) (auto simp: inj_on_def)
  then show ?thesis by (simp add: registers_rows_of)
qed

lemma row_of_register:
  "registers db (b, k, v) = Some p \<Longrightarrow> \<exists>x \<in> set (rows_of b k db). plain (obj x) = p \<and> version_id (obj x) = v"
  by (auto simp: registers_rows_of dest: find_SomeD)

lemma rank_plain: "rank (plain r) = rank r"
  by (simp add: plain_def)

lemma live_plain: "plain (obj x) = plain (obj y) \<Longrightarrow> live x = live y"
  unfolding live_def plain_def by (metis ObjectRecord.surjective ObjectRecord.update_convs(13) ObjectRecord.select_convs(15))

text \<open>The winner among the live rows of a key is determined by the registers.\<close>

lemma winner_registers_le:
  assumes wf: "object_wf db1" "object_wf db2" and same: "registers db1 = registers db2"
    and win: "winner (filter live (rows_of b k db1)) = Some w1"
  shows "\<exists>w2. winner (filter live (rows_of b k db2)) = Some w2 \<and> rank (obj w1) \<le> rank (obj w2)"
proof -
  have w1: "w1 \<in> set (rows_of b k db1)" "live w1" using winner_SomeD [OF win] by auto
  have "registers db2 (b, k, version_id (obj w1)) = Some (plain (obj w1))"
    using registers_row [OF wf(1) w1(1)] same by simp
  then obtain y where y: "y \<in> set (rows_of b k db2)" "plain (obj y) = plain (obj w1)"
    using row_of_register by blast
  then have mem: "y \<in> set (filter live (rows_of b k db2))" using w1(2) live_plain [OF y(2)] by simp
  then have "filter live (rows_of b k db2) \<noteq> []" by (metis list.set(1) empty_iff)
  then obtain w2 where w2: "winner (filter live (rows_of b k db2)) = Some w2"
    using winner_None_iff by blast
  have "rank (obj w1) = rank (obj y)" using y(2) by (metis rank_plain)
  also have "\<dots> \<le> rank (obj w2)" using winner_SomeD [OF w2] mem by blast
  finally show ?thesis using w2 by blast
qed

lemma winner_registers:
  assumes wf: "object_wf db1" "object_wf db2" and same: "registers db1 = registers db2"
  shows "map_option (plain \<circ> obj) (winner (filter live (rows_of b k db1))) =
    map_option (plain \<circ> obj) (winner (filter live (rows_of b k db2)))"
proof (cases "winner (filter live (rows_of b k db1))")
  case None
  then have "winner (filter live (rows_of b k db2)) = None"
    using winner_registers_le [OF wf(2,1) same [symmetric], of b k] by (cases "winner (filter live (rows_of b k db2))") auto
  with None show ?thesis by simp
next
  case (Some w1)
  obtain w2 where w2: "winner (filter live (rows_of b k db2)) = Some w2" "rank (obj w1) \<le> rank (obj w2)"
    using winner_registers_le [OF wf same Some] by blast
  moreover have "rank (obj w2) \<le> rank (obj w1)"
    using winner_registers_le [OF wf(2,1) same [symmetric] w2(1)] Some by auto
  ultimately have "rank (obj w1) = rank (obj w2)" by (meson antisym)
  then have "version_id (obj w1) = version_id (obj w2)" by (simp add: rank_def)
  moreover have "w1 \<in> set (rows_of b k db1)" "w2 \<in> set (rows_of b k db2)"
    using winner_SomeD [OF Some] winner_SomeD [OF w2(1)] by auto
  ultimately have "plain (obj w1) = plain (obj w2)"
    using registers_row [OF wf(1)] registers_row [OF wf(2)] same by (metis option.inject)
  with Some w2(1) show ?thesis by simp
qed

lemma as_latest_plain: "as_latest x = object_columns ((plain (obj x))\<lparr>is_latest := True\<rparr>)"
  by (simp add: as_latest_def plain_def)

lemma get_object_settled:
  assumes "object_wf db" and "flags_settled b k db"
  shows "get_object b k db = (case map_option (plain \<circ> obj) (winner (filter live (rows_of b k db))) of
    None \<Rightarrow> None | Some p \<Rightarrow> if is_delete_marker p then None else Some (object_columns (p\<lparr>is_latest := True\<rparr>)))"
proof -
  have ids: "rowids_ok db" by (intro base_ok_rowids object_wf_base assms(1))
  have "get_object b k db = get_object b k (recompute_is_latest b k db)"
    using assms(2) by (intro queries_cong) (simp add: rows_of_recompute [OF ids] flags_settled_def)
  then show ?thesis
    by (simp add: get_object_recomputed [OF ids] as_latest_plain split: option.splits) (simp add: plain_def)
qed

subsection \<open>The order of delivery does not matter\<close>

lemma object_wf_fold: "object_wf db \<Longrightarrow> object_wf (fold apply_remote_object rs db)"
  by (induction rs arbitrary: db) (simp_all add: object_wf_apply_remote)

lemma registers_fold:
  "object_wf db \<Longrightarrow> registers (fold apply_remote_object rs db) = fold register_update rs (registers db)"
  by (induction rs arbitrary: db) (simp_all add: apply_remote_register object_wf_apply_remote)

lemma top_id_marked: "top_id (marked rows) = top_id rows"
proof -
  have "winner (map (\<lambda>x. set_latest (f x) x) xs) = map_option (\<lambda>x. set_latest (f x) x) (winner xs)" for f xs
    by (induction xs) (auto split: option.splits)
  then show ?thesis by (simp add: top_id_def marked_def filter_map o_def option.map_comp)
qed

lemma marked_idem: "marked (marked rows) = marked rows"
  using top_id_marked [of rows] by (simp add: marked_def)

lemma settled_apply_remote:
  assumes "object_wf db" and "\<And>b k. flags_settled b k db"
  shows "flags_settled b k (apply_remote_object r db)"
proof -
  let ?db1 = "case remote_row r db of None \<Rightarrow> db
      | Some x \<Rightarrow> insert_replicated_row x (delete_where (same_version r) db)"
  have ids: "rowids_ok ?db1" unfolding insert_replicated_row_def
    by (cases "remote_row r db") (auto intro!: base_ok_rowids invariant_intros object_wf_base [OF assms(1)])
  have "rows_of b k ?db1 = rows_of b k db" if "\<not> (b = bucket r \<and> k = key r)"
    using that by (cases "remote_row r db")
      (auto simp: insert_replicated_row_def rows_of_append_row rows_of_drop_same_version dest!: remote_row_version)
  then show ?thesis using assms(2) [of b k]
    by (auto simp: apply_remote_object_eq flags_settled_def rows_of_recompute [OF ids] marked_idem)
qed

lemma settled_fold:
  "object_wf db \<Longrightarrow> (\<And>b k. flags_settled b k db) \<Longrightarrow> flags_settled b k (fold apply_remote_object rs db)"
proof (induction rs arbitrary: db)
  case (Cons r rs)
  show ?case
    using Cons.IH [OF object_wf_apply_remote [OF Cons.prems(1)] settled_apply_remote [OF Cons.prems]] by simp
qed simp

text \<open>Copies of one version with one clock are one row: the registers keep the newest copy.\<close>

definition determinate :: "ObjectRecord set \<Rightarrow> bool" where
  "determinate R \<longleftrightarrow> (\<forall>r \<in> R. \<forall>s \<in> R. record_key r = record_key s \<and> last_modified r = last_modified s
     \<longrightarrow> plain r = plain s)"

lemma determinate_subset: "determinate S \<Longrightarrow> R \<subseteq> S \<Longrightarrow> determinate R"
  unfolding determinate_def by blast

definition newest_copy :: "ObjectRecord set \<Rightarrow> version_name \<Rightarrow> ObjectRecord \<Rightarrow> bool" where
  "newest_copy R n p \<longleftrightarrow> (\<exists>r \<in> R. record_key r = n \<and> p = plain r \<and>
     (\<forall>s \<in> R. record_key s = n \<longrightarrow> last_modified s \<le> last_modified r))"

lemma newest_copy_unique:
  "determinate R \<Longrightarrow> newest_copy R n p \<Longrightarrow> newest_copy R n q \<Longrightarrow> p = q"
  unfolding determinate_def newest_copy_def by (metis order_antisym)

lemma plain_record_key: "record_key (plain r) = record_key r" "last_modified (plain r) = last_modified r"
  by (simp_all add: plain_def record_key_def)

lemma deliver_same: "plain (deliver r (plain r)) = plain r"
  by (simp add: deliver_plain) (simp add: deliver_tie merge_not_newer)

lemma register_newest:
  assumes "determinate (insert r R)" and "\<And>n p. m n = Some p \<Longrightarrow> newest_copy R n p"
    and "\<And>n. m n = None \<Longrightarrow> \<forall>s \<in> R. record_key s \<noteq> n" and "register_update r m n = Some p"
  shows "newest_copy (insert r R) n p"
proof (cases "n = record_key r")
  case False
  then have "newest_copy R n p" using assms(2,4) by (simp add: register_update_def)
  then show ?thesis using False by (auto simp: newest_copy_def)
next
  case True
  show ?thesis
  proof (cases "m n")
    case None
    then have "p = plain r" using assms(4) True by (simp add: register_update_def)
    then show ?thesis using assms(3) [OF None] True by (auto simp: newest_copy_def)
  next
    case (Some l)
    obtain s where s: "s \<in> R" "record_key s = n" "l = plain s" "\<forall>u \<in> R. record_key u = n \<longrightarrow> last_modified u \<le> last_modified s"
      using assms(2) [OF Some] by (auto simp: newest_copy_def)
    have p: "p = plain (deliver r s)" using assms(4) True Some s(3) by (simp add: register_update_def deliver_plain)
    consider "last_modified s < last_modified r" | "last_modified r < last_modified s" | "plain r = plain s"
      using assms(1) s(1,2) True unfolding determinate_def by (metis insertCI linorder_less_linear)
    then show ?thesis
    proof cases
      case 1
      then show ?thesis using p s True by (auto simp: newest_copy_def deliver_newer intro: order.strict_implies_order order_trans)
    next
      case 2
      then show ?thesis using p s True by (auto simp: newest_copy_def deliver_older intro!: bexI [of _ s])
    next
      case 3
      then have "p = plain s" using p deliver_plain [of r s] deliver_same [of r] by simp
      moreover have "last_modified r = last_modified s" using 3 plain_record_key(2) by metis
      ultimately show ?thesis using s True by (auto simp: newest_copy_def intro!: bexI [of _ s])
    qed
  qed
qed

lemma registers_of_deliveries:
  assumes "determinate (set rs)"
  shows "(case fold register_update rs Map.empty n of
     None \<Rightarrow> (\<forall>s \<in> set rs. record_key s \<noteq> n) | Some p \<Rightarrow> newest_copy (set rs) n p)"
  using assms
proof (induction rs arbitrary: n rule: rev_induct)
  case (snoc r rs)
  let ?m = "fold register_update rs Map.empty"
  have IH: "case ?m n of None \<Rightarrow> (\<forall>s \<in> set rs. record_key s \<noteq> n) | Some p \<Rightarrow> newest_copy (set rs) n p" for n
  proof (rule snoc.IH)
    show "determinate (set rs)" by (rule determinate_subset [OF snoc.prems]) auto
  qed
  show ?case
  proof (cases "register_update r ?m n")
    case None
    then have "record_key r \<noteq> n \<and> ?m n = None" by (simp add: register_update_def split: if_splits)
    then show ?thesis using IH [of n] None by simp
  next
    case (Some p)
    have "newest_copy (insert r (set rs)) n p"
    proof (rule register_newest [OF _ _ _ Some])
      show "determinate (insert r (set rs))" using snoc.prems by simp
      show "newest_copy (set rs) n p" if "?m n = Some p" for n p using IH [of n] that by simp
      show "\<forall>s \<in> set rs. record_key s \<noteq> n" if "?m n = None" for n using IH [of n] that by simp
    qed
    then show ?thesis using Some by simp
  qed
qed simp

lemma registers_order:
  assumes "determinate (set xs)" and "set xs = set ys"
  shows "fold register_update xs Map.empty = fold register_update ys Map.empty"
proof
  fix n
  have ys: "determinate (set ys)" using assms by simp
  show "fold register_update xs Map.empty n = fold register_update ys Map.empty n"
  proof (cases "fold register_update xs Map.empty n")
    case None
    then have "\<not> newest_copy (set ys) n p" for p
      using registers_of_deliveries [OF assms(1), of n] assms(2) by (auto simp: newest_copy_def)
    then have "fold register_update ys Map.empty n = None"
      using registers_of_deliveries [OF ys, of n] by (simp split: option.splits)
    with None show ?thesis by simp
  next
    case (Some p)
    then have p: "newest_copy (set ys) n p" using registers_of_deliveries [OF assms(1), of n] assms(2) by simp
    then obtain q where q: "fold register_update ys Map.empty n = Some q"
      using registers_of_deliveries [OF ys, of n] by (fastforce simp: newest_copy_def split: option.splits)
    then have "newest_copy (set ys) n q" using registers_of_deliveries [OF ys, of n] by simp
    then have "p = q" using newest_copy_unique [OF ys p] by simp
    with Some q show ?thesis by simp
  qed
qed

lemma registers_empty: "registers (empty_objects ct) = Map.empty"
  by (simp add: registers_def empty_objects_def fun_eq_iff)

lemma settled_empty: "flags_settled b k (empty_objects ct)"
  by (simp add: flags_settled_def rows_of_def empty_objects_def marked_def)



subsection \<open>Tombstones stop older copies\<close>

lemma remove_version_register:
  assumes wf: "object_wf db" and "get_object_version b k v db = Some old"
  shows "\<exists>t. registers (remove_version now b k v True db) (b, k, version_of v) = Some t \<and>
    is_tombstone t \<and> last_modified t = now"
proof -
  let ?s = "Suc (object_seq db)" and ?P = "\<lambda>x. of_key b k x \<and> named_version v x"
  let ?db1 = "delete_tags_where (tag_of_version b k (version_tag_vid v))
      (update_where ?P (entomb now ?s) (db\<lparr>object_seq := ?s\<rparr>))"
  have ids: "rowids_ok ?db1"
    by (intro base_ok_rowids base_ok_delete_tags base_ok_entomb object_wf_base [OF wf])
  obtain x where x: "x \<in> set (rows_of b k db)" "named_version v x"
    using assms(2) by (auto simp: queries dest!: find_SomeD)
  have rows: "rows_of b k ?db1 = map (\<lambda>x. if ?P x then entomb now ?s x else x) (rows_of b k db)"
    by (simp add: rows_simps)
  have "entomb now ?s x \<in> set (rows_of b k ?db1)"
    unfolding rows set_map by (rule image_eqI [OF _ x(1)]) (use x rows_of_in in auto)
  moreover have "version_id (obj (entomb now ?s x)) = version_of v"
    using x(2) by (simp add: named_version_def version_of_def)
  ultimately have "find (\<lambda>y. version_id (obj y) = version_of v) (rows_of b k ?db1) \<noteq> None"
    unfolding find_None_iff by blast
  then obtain y where y: "find (\<lambda>y. version_id (obj y) = version_of v) (rows_of b k ?db1) = Some y" by blast
  then have "y \<in> set (rows_of b k ?db1)" "version_id (obj y) = version_of v" by (blast dest: find_SomeD)+
  then have "is_tombstone (obj y) \<and> last_modified (obj y) = now"
    unfolding rows by (auto simp: named_version_def version_of_def dest: rows_of_in split: if_splits)
  moreover have "registers ?db1 (b, k, version_of v) = Some (plain (obj y))" using y by (simp add: registers_rows_of)
  moreover have "remove_version now b k v True db = recompute_is_latest b k ?db1"
    by (simp add: remove_version_def Let_def next_object_seq_def)
  ultimately show ?thesis by (simp add: registers_recompute [OF ids]) (simp add: plain_def)
qed

lemma tombstone_stays:
  assumes "\<forall>r \<in> set rs. record_key r = n \<longrightarrow> last_modified r < now"
    and "m n = Some t" "is_tombstone t" "last_modified t = now"
  shows "\<exists>t. fold register_update rs m n = Some t \<and> is_tombstone t"
  using assms
proof (induction rs arbitrary: m t)
  case (Cons r rs)
  have "\<exists>t'. register_update r m n = Some t' \<and> is_tombstone t' \<and> last_modified t' = now"
    using Cons.prems by (auto simp: register_update_def deliver_older plain_def)
  then show ?case using Cons.IH [of "register_update r m"] Cons.prems(1) by auto
qed auto

text \<open>
  C25: in a cluster a deleted version stays deleted: whatever rows are delivered afterwards, in any
  order, no copy of the version that is older than the deletion brings it back.
\<close>

theorem tombstone_blocks_resurrection:
  assumes wf: "object_wf db" and del: "delete_object_version_if now b k v pre True db = Inr (Some old, db1)"
    and stale: "\<forall>r \<in> set rs. record_key r = (b, k, version_of v) \<longrightarrow> last_modified r < now"
  shows "get_object_version b k v (fold apply_remote_object rs db1) = None"
proof -
  have db1: "get_object_version b k v db = Some old" "db1 = remove_version now b k v True db"
    using del by (auto simp: delete_object_version_if_def delete_version_in_tx_def Let_def split: option.splits if_splits)
  have wf1: "object_wf db1" using object_wf_remove_version [OF wf] db1(2) by simp
  obtain t where "registers db1 (b, k, version_of v) = Some t" "is_tombstone t" "last_modified t = now"
    using remove_version_register [OF wf db1(1)] db1(2) by blast
  then obtain t' where "registers (fold apply_remote_object rs db1) (b, k, version_of v) = Some t'" "is_tombstone t'"
    using tombstone_stays [OF stale] registers_fold [OF wf1] by metis
  then show ?thesis using get_version_registers [OF object_wf_fold [OF wf1], of b k v rs] by simp
qed

theorem tombstone_blocks_resurrection_witness:
  "get_object_version ''b'' ''k'' ''v1'' (fold apply_remote_object
     [(sample_row 7 ''e1'' ''b1'')\<lparr>version_id := Some ''v1''\<rparr>] (remove_version 30 ''b'' ''k'' ''v1'' True two_versions)) = None"
proof -
  have "delete_object_version_if 30 ''b'' ''k'' ''v1'' no_delete_pre True two_versions =
      Inr (get_object_version ''b'' ''k'' ''v1'' two_versions, remove_version 30 ''b'' ''k'' ''v1'' True two_versions)"
    and "get_object_version ''b'' ''k'' ''v1'' two_versions \<noteq> None"
    by (simp_all add: delete_object_version_if_def delete_version_in_tx_def no_delete_pre_def
        delete_pre_is_empty_def get_object_version_def query_row_def two_versions_def version_row_def of_key_def
        named_version_def sample_row_def Let_def)
  then show ?thesis
    using tombstone_blocks_resurrection [OF two_versions_wf,
        where rs = "[(sample_row 7 ''e1'' ''b1'')\<lparr>version_id := Some ''v1''\<rparr>]" and v = "''v1''"]
    by (auto simp: sample_row_def)
qed

end
