(* ===== verification/Control_Merge.thy ===== *)
theory Control_Merge
  imports Control_Db Replicated_Register "HOL-Library.Product_Lexorder"
begin

section \<open>The control-plane merge planner (arca-core/src/cluster.rs)\<close>

text \<open>
  \<^verbatim>\<open>plan_control_merge\<close> compares a node's control snapshot with a peer's and lists the local writes
  that converge the two: per entity the newest event wins, a deletion being an event through its
  tombstone. The source repeats one block per entity family; here \<open>plan_family\<close> is the block and
  every family is an instance of it. Theorems: what the plan does to each key, that two nodes
  which exchange snapshots agree, that a merge is idempotent, that children never outlive their
  parents in a plan, and that a node's own identity is never touched.
\<close>

subsection \<open>One key\<close>

record KeyResolution =
  kr_alive :: bool
  upsert_from_remote :: bool
  delete_local :: bool
  adopt_tombstone_at :: "timestamp option"
  clear_tombstone :: bool

definition resolve_key ::
  "timestamp option \<Rightarrow> timestamp option \<Rightarrow> timestamp option \<Rightarrow> timestamp option \<Rightarrow> KeyResolution" where
  "resolve_key local_alive local_dead remote_alive remote_dead =
     (let global_alive = max local_alive remote_alive;
          global_dead = max local_dead remote_dead;
          dead = (case (global_alive, global_dead) of
                    (Some a, Some d) \<Rightarrow> d > a
                  | (None, Some _) \<Rightarrow> True
                  | _ \<Rightarrow> False)
      in if dead
         then \<lparr>kr_alive = False, upsert_from_remote = False,
               delete_local = (local_alive \<noteq> None),
               adopt_tombstone_at = (if local_dead < global_dead then global_dead else None),
               clear_tombstone = False\<rparr>
         else \<lparr>kr_alive = (local_alive \<noteq> None \<or> remote_alive \<noteq> None),
               upsert_from_remote = (case (remote_alive, local_alive) of
                    (Some r, Some l) \<Rightarrow> r > l
                  | (Some _, None) \<Rightarrow> True
                  | _ \<Rightarrow> False),
               delete_local = False,
               adopt_tombstone_at = None,
               clear_tombstone = (local_dead \<noteq> None)\<rparr>)"

definition NODE_ID_KEY :: string where
  "NODE_ID_KEY = ''node_id''"

definition is_node_local_server_config_key :: "string \<Rightarrow> bool" where
  "is_node_local_server_config_key k \<longleftrightarrow> k = NODE_ID_KEY"

definition pair_key :: "string \<Rightarrow> string \<Rightarrow> string" where
  "pair_key a b = a @ '':'' @ b"

subsection \<open>One family\<close>

text \<open>The association list of a type's tombstones; looked up as a \<^verbatim>\<open>HashMap\<close>, the last entry winning.\<close>

definition tombstone_list :: "ControlTombstone list \<Rightarrow> string \<Rightarrow> (string \<times> timestamp) list" where
  "tombstone_list ts etype =
     map (\<lambda>t. (entity_key t, deleted_at t)) (filter (\<lambda>t. entity_type t = etype) ts)"

definition tombstone_map :: "ControlTombstone list \<Rightarrow> string \<Rightarrow> (string \<rightharpoonup> timestamp)" where
  "tombstone_map ts etype = collect_map (tombstone_list ts etype)"

definition union_keys ::
  "(string \<times> 'a) list \<Rightarrow> (string \<times> 'b) list \<Rightarrow> (string \<times> 'c) list \<Rightarrow> (string \<times> 'd) list \<Rightarrow> string list" where
  "union_keys local_alive remote_alive local_dead remote_dead =
     remdups (map fst local_alive @ map fst remote_alive @ map fst local_dead @ map fst remote_dead)"

definition adopt_action :: "string \<Rightarrow> string \<Rightarrow> KeyResolution \<Rightarrow> ControlTombstone list" where
  "adopt_action etype k res =
     (case adopt_tombstone_at res of
        None \<Rightarrow> []
      | Some d \<Rightarrow> [\<lparr>entity_type = etype, entity_key = k, deleted_at = d\<rparr>])"

definition clear_action :: "string \<Rightarrow> string \<Rightarrow> KeyResolution \<Rightarrow> ControlTombstone list" where
  "clear_action etype k res =
     (if clear_tombstone res
      then [\<lparr>entity_type = etype, entity_key = k, deleted_at = MIN_UTC\<rparr>] else [])"

record 'e family_plan =
  fp_alive :: "string list"
  fp_upserts :: "'e list"
  fp_deletes :: "string list"
  fp_adopts :: "ControlTombstone list"
  fp_clears :: "ControlTombstone list"

definition family_resolution ::
  "('e \<Rightarrow> string) \<Rightarrow> ('e \<Rightarrow> timestamp) \<Rightarrow> string \<Rightarrow> 'e list \<Rightarrow> 'e list \<Rightarrow>
   ControlTombstone list \<Rightarrow> ControlTombstone list \<Rightarrow> string \<Rightarrow> KeyResolution" where
  "family_resolution kf tf etype l_ents r_ents l_tombs r_tombs k =
     resolve_key (map_option tf (entity_map kf l_ents k)) (tombstone_map l_tombs etype k)
                 (map_option tf (entity_map kf r_ents k)) (tombstone_map r_tombs etype k)"

text \<open>
  The block of one family: \<open>kf\<close> is the entity's key, \<open>tf\<close> its alive timestamp, \<open>keep\<close> the keys
  the loop does not skip, \<open>admit\<close> the filter on upserts (the parents are alive). The deletions
  are the keys of the losing local entities.
\<close>

definition plan_family ::
  "('e \<Rightarrow> string) \<Rightarrow> ('e \<Rightarrow> timestamp) \<Rightarrow> string \<Rightarrow> (string \<Rightarrow> bool) \<Rightarrow> ('e \<Rightarrow> bool) \<Rightarrow>
   'e list \<Rightarrow> 'e list \<Rightarrow> ControlTombstone list \<Rightarrow> ControlTombstone list \<Rightarrow> 'e family_plan" where
  "plan_family kf tf etype keep admit l_ents r_ents l_tombs r_tombs =
     (let res = family_resolution kf tf etype l_ents r_ents l_tombs r_tombs;
          ks = filter keep (union_keys (keyed kf l_ents) (keyed kf r_ents)
                 (tombstone_list l_tombs etype) (tombstone_list r_tombs etype))
      in \<lparr>fp_alive = filter (\<lambda>k. kr_alive (res k)) ks,
          fp_upserts = filter admit
            (List.map_filter (entity_map kf r_ents) (filter (\<lambda>k. upsert_from_remote (res k)) ks)),
          fp_deletes = filter (\<lambda>k. delete_local (res k)) ks,
          fp_adopts = concat (map (\<lambda>k. adopt_action etype k (res k)) ks),
          fp_clears = concat (map (\<lambda>k. clear_action etype k (res k)) ks)\<rparr>)"

subsection \<open>The families, in the order of the source\<close>

definition plan_credentials :: "ControlSnapshot \<Rightarrow> ControlSnapshot \<Rightarrow> TimestampedCredential family_plan" where
  "plan_credentials l r =
     plan_family (access_key_id \<circ> credential) tc_updated_at TOMBSTONE_CREDENTIAL (\<lambda>_. True) (\<lambda>_. True)
       (credentials l) (credentials r) (tombstones l) (tombstones r)"

definition plan_users :: "ControlSnapshot \<Rightarrow> ControlSnapshot \<Rightarrow> TimestampedUser family_plan" where
  "plan_users l r =
     plan_family (user_id \<circ> user) tu_updated_at TOMBSTONE_USER (\<lambda>_. True) (\<lambda>_. True)
       (users l) (users r) (tombstones l) (tombstones r)"

definition plan_teams :: "ControlSnapshot \<Rightarrow> ControlSnapshot \<Rightarrow> TimestampedTeam family_plan" where
  "plan_teams l r =
     plan_family (team_id \<circ> team) tt_updated_at TOMBSTONE_TEAM (\<lambda>_. True) (\<lambda>_. True)
       (teams l) (teams r) (tombstones l) (tombstones r)"

definition plan_grants :: "ControlSnapshot \<Rightarrow> ControlSnapshot \<Rightarrow> Grant family_plan" where
  "plan_grants l r =
     plan_family grant_id g_updated_at TOMBSTONE_GRANT (\<lambda>_. True) (\<lambda>_. True)
       (grants l) (grants r) (tombstones l) (tombstones r)"

definition plan_buckets :: "ControlSnapshot \<Rightarrow> ControlSnapshot \<Rightarrow> BucketInfo family_plan" where
  "plan_buckets l r =
     plan_family b_name b_created_at TOMBSTONE_BUCKET (\<lambda>_. True) (\<lambda>_. True)
       (buckets l) (buckets r) (tombstones l) (tombstones r)"

definition user_grant_key :: "TimestampedUserGrant \<Rightarrow> string" where
  "user_grant_key x = pair_key (ug_user_id x) (ug_grant_id x)"

definition team_grant_key :: "TimestampedTeamGrant \<Rightarrow> string" where
  "team_grant_key x = pair_key (tg_team_id x) (tg_grant_id x)"

definition team_member_key :: "TimestampedTeamMember \<Rightarrow> string" where
  "team_member_key x = pair_key (tm_team_id x) (tm_user_id x)"

definition bucket_config_key :: "TimestampedBucketConfig \<Rightarrow> string" where
  "bucket_config_key x = pair_key (bc_bucket x) (bc_key x)"

definition plan_user_grants ::
  "string list \<Rightarrow> string list \<Rightarrow> ControlSnapshot \<Rightarrow> ControlSnapshot \<Rightarrow> TimestampedUserGrant family_plan" where
  "plan_user_grants alive_users alive_grants l r =
     plan_family user_grant_key ug_updated_at TOMBSTONE_USER_GRANT (\<lambda>_. True)
       (\<lambda>x. ug_user_id x \<in> set alive_users \<and> ug_grant_id x \<in> set alive_grants)
       (user_grants l) (user_grants r) (tombstones l) (tombstones r)"

definition plan_team_grants ::
  "string list \<Rightarrow> string list \<Rightarrow> ControlSnapshot \<Rightarrow> ControlSnapshot \<Rightarrow> TimestampedTeamGrant family_plan" where
  "plan_team_grants alive_teams alive_grants l r =
     plan_family team_grant_key tg_updated_at TOMBSTONE_TEAM_GRANT (\<lambda>_. True)
       (\<lambda>x. tg_team_id x \<in> set alive_teams \<and> tg_grant_id x \<in> set alive_grants)
       (team_grants l) (team_grants r) (tombstones l) (tombstones r)"

definition plan_team_members ::
  "string list \<Rightarrow> string list \<Rightarrow> ControlSnapshot \<Rightarrow> ControlSnapshot \<Rightarrow> TimestampedTeamMember family_plan" where
  "plan_team_members alive_teams alive_users l r =
     plan_family team_member_key tm_updated_at TOMBSTONE_TEAM_MEMBER (\<lambda>_. True)
       (\<lambda>x. tm_team_id x \<in> set alive_teams \<and> tm_user_id x \<in> set alive_users)
       (team_members l) (team_members r) (tombstones l) (tombstones r)"

definition plan_bucket_configs ::
  "string list \<Rightarrow> ControlSnapshot \<Rightarrow> ControlSnapshot \<Rightarrow> TimestampedBucketConfig family_plan" where
  "plan_bucket_configs alive_buckets l r =
     plan_family bucket_config_key bc_updated_at TOMBSTONE_BUCKET_CONFIG (\<lambda>_. True)
       (\<lambda>x. bc_bucket x \<in> set alive_buckets)
       (bucket_configs l) (bucket_configs r) (tombstones l) (tombstones r)"

definition plan_bucket_tags ::
  "string list \<Rightarrow> ControlSnapshot \<Rightarrow> ControlSnapshot \<Rightarrow> TimestampedBucketTags family_plan" where
  "plan_bucket_tags alive_buckets l r =
     plan_family bt_bucket bt_updated_at TOMBSTONE_BUCKET_TAGS (\<lambda>_. True)
       (\<lambda>x. bt_bucket x \<in> set alive_buckets)
       (bucket_tags l) (bucket_tags r) (tombstones l) (tombstones r)"

definition plan_server_configs :: "ControlSnapshot \<Rightarrow> ControlSnapshot \<Rightarrow> TimestampedServerConfig family_plan" where
  "plan_server_configs l r =
     plan_family sc_key sc_updated_at TOMBSTONE_SERVER_CONFIG
       (\<lambda>k. \<not> is_node_local_server_config_key k) (\<lambda>_. True)
       (filter (\<lambda>x. \<not> is_node_local_server_config_key (sc_key x)) (server_configs l))
       (filter (\<lambda>x. \<not> is_node_local_server_config_key (sc_key x)) (server_configs r))
       (tombstones l) (tombstones r)"

definition plan_multipart_uploads :: "ControlSnapshot \<Rightarrow> ControlSnapshot \<Rightarrow> MultipartUploadRecord family_plan" where
  "plan_multipart_uploads l r =
     plan_family upload_id initiated_at TOMBSTONE_MULTIPART (\<lambda>_. True) (\<lambda>_. True)
       (multipart_uploads l) (multipart_uploads r) (tombstones l) (tombstones r)"

definition part_ts :: "PartRecord \<Rightarrow> timestamp" where
  "part_ts p = (case p_last_modified p of None \<Rightarrow> MIN_UTC | Some t \<Rightarrow> t)"

definition part_key :: "PartRecord \<Rightarrow> string" where
  "part_key p = pair_key (p_upload_id p) (to_string (p_part_number p))"

definition plan_parts :: "string list \<Rightarrow> ControlSnapshot \<Rightarrow> ControlSnapshot \<Rightarrow> PartRecord list" where
  "plan_parts alive_uploads l r =
     filter (\<lambda>x. (case entity_map part_key (cs_parts l) (part_key x) of
                     None \<Rightarrow> True
                   | Some y \<Rightarrow> part_ts x > part_ts y)
                 \<and> p_upload_id x \<in> set alive_uploads)
       (cs_parts r)"

text \<open>The deletions of a pair-keyed family name the components of the local entity.\<close>

definition losing_pairs :: "('e \<Rightarrow> string) \<Rightarrow> ('e \<Rightarrow> string \<times> string) \<Rightarrow> 'e list \<Rightarrow> string list \<Rightarrow> (string \<times> string) list" where
  "losing_pairs kf pf l_ents ks = List.map_filter (\<lambda>k. map_option pf (entity_map kf l_ents k)) ks"

definition plan_control_merge :: "ControlSnapshot \<Rightarrow> ControlSnapshot \<Rightarrow> ControlMergePlan" where
  "plan_control_merge l r =
     (let cr = plan_credentials l r; us = plan_users l r; te = plan_teams l r;
          gr = plan_grants l r; bu = plan_buckets l r;
          ug = plan_user_grants (fp_alive us) (fp_alive gr) l r;
          tg = plan_team_grants (fp_alive te) (fp_alive gr) l r;
          tm = plan_team_members (fp_alive te) (fp_alive us) l r;
          bc = plan_bucket_configs (fp_alive bu) l r;
          bt = plan_bucket_tags (fp_alive bu) l r;
          sc = plan_server_configs l r;
          mu = plan_multipart_uploads l r
      in \<lparr>upsert_credentials = fp_upserts cr, upsert_users = fp_upserts us,
          upsert_teams = fp_upserts te, upsert_grants = fp_upserts gr,
          upsert_buckets = fp_upserts bu,
          delete_credentials = fp_deletes cr, delete_users = fp_deletes us,
          delete_teams = fp_deletes te, delete_grants = fp_deletes gr,
          delete_buckets = fp_deletes bu,
          upsert_user_grants = fp_upserts ug, upsert_team_grants = fp_upserts tg,
          upsert_team_members = fp_upserts tm, upsert_bucket_configs = fp_upserts bc,
          upsert_bucket_tags = fp_upserts bt, upsert_server_configs = fp_upserts sc,
          upsert_multipart_uploads = fp_upserts mu,
          upsert_parts = plan_parts (fp_alive mu) l r,
          delete_user_grants =
            losing_pairs user_grant_key (\<lambda>x. (ug_user_id x, ug_grant_id x)) (user_grants l) (fp_deletes ug),
          delete_team_grants =
            losing_pairs team_grant_key (\<lambda>x. (tg_team_id x, tg_grant_id x)) (team_grants l) (fp_deletes tg),
          delete_team_members =
            losing_pairs team_member_key (\<lambda>x. (tm_team_id x, tm_user_id x)) (team_members l) (fp_deletes tm),
          delete_bucket_configs =
            losing_pairs bucket_config_key (\<lambda>x. (bc_bucket x, bc_key x)) (bucket_configs l) (fp_deletes bc),
          plan_delete_bucket_tags = fp_deletes bt, delete_server_configs = fp_deletes sc,
          delete_multipart_uploads = fp_deletes mu,
          adopt_tombstones = fp_adopts cr @ fp_adopts us @ fp_adopts te @ fp_adopts gr @ fp_adopts bu @
            fp_adopts ug @ fp_adopts tg @ fp_adopts tm @ fp_adopts bc @ fp_adopts bt @ fp_adopts sc @ fp_adopts mu,
          clear_tombstones = fp_clears cr @ fp_clears us @ fp_clears te @ fp_clears gr @ fp_clears bu @
            fp_clears ug @ fp_clears tg @ fp_clears tm @ fp_clears bc @ fp_clears bt @ fp_clears sc @ fp_clears mu\<rparr>)"

subsection \<open>What one key holds, and its newest event\<close>

text \<open>
  A node holds at most an alive timestamp and a tombstone for a key. The specification of the
  merge is the newest event: its time, and on equal times alive before deleted.
\<close>

type_synonym key_state = "timestamp option \<times> timestamp option"

definition merge_key :: "key_state \<Rightarrow> key_state \<Rightarrow> key_state" where
  "merge_key r l =
     (let res = resolve_key (fst l) (snd l) (fst r) (snd r)
      in (if delete_local res then None else if upsert_from_remote res then fst r else fst l,
          if clear_tombstone res then None
          else case adopt_tombstone_at res of None \<Rightarrow> snd l | Some d \<Rightarrow> Some d))"

definition is_dead :: "key_state \<Rightarrow> bool" where
  "is_dead s \<longleftrightarrow> snd s > fst s"

definition settled_key :: "key_state \<Rightarrow> bool" where
  "settled_key s \<longleftrightarrow> fst s = None \<or> snd s = None"

definition last_event :: "key_state \<Rightarrow> (timestamp \<times> bool) option" where
  "last_event s =
     (if is_dead s then map_option (\<lambda>t. (t, False)) (snd s) else map_option (\<lambda>t. (t, True)) (fst s))"

lemma resolve_key_dead:
  "is_dead (max la ra, max ld rd) \<Longrightarrow>
   resolve_key la ld ra rd =
     \<lparr>kr_alive = False, upsert_from_remote = False, delete_local = (la \<noteq> None),
      adopt_tombstone_at = (if ld < max ld rd then max ld rd else None), clear_tombstone = False\<rparr>"
  by (cases "max la ra"; cases "max ld rd") (simp_all add: resolve_key_def is_dead_def Let_def)

lemma resolve_key_alive:
  "\<not> is_dead (max la ra, max ld rd) \<Longrightarrow>
   resolve_key la ld ra rd =
     \<lparr>kr_alive = (la \<noteq> None \<or> ra \<noteq> None), upsert_from_remote = (la < ra), delete_local = False,
      adopt_tombstone_at = None, clear_tombstone = (ld \<noteq> None)\<rparr>"
  by (cases "max ld rd"; cases la; cases ra)
     (auto simp: resolve_key_def is_dead_def Let_def)

text \<open>The closed form: both maxima are taken, and the loser of the two is dropped.\<close>

lemma merge_key_closed:
  "merge_key r l =
     (let a = max (fst l) (fst r); d = max (snd l) (snd r)
      in if is_dead (a, d) then (None, d) else (a, None))"
proof (cases "is_dead (max (fst l) (fst r), max (snd l) (snd r))")
  case True
  then show ?thesis
    by (auto simp: merge_key_def Let_def resolve_key_dead max_def split: option.splits)
next
  case False
  then show ?thesis
    by (auto simp: merge_key_def Let_def resolve_key_alive max_def)
qed

lemma merge_key_last_event: "last_event (merge_key r l) = max (last_event r) (last_event l)"
proof -
  obtain ra rd la ld where "r = (ra, rd)" "l = (la, ld)" by fastforce
  then show ?thesis
    by (cases ra; cases rd; cases la; cases ld)
       (auto simp: merge_key_closed last_event_def is_dead_def Let_def max_def)
qed

lemma merge_key_settled: "settled_key (merge_key r l)"
  by (simp add: merge_key_closed settled_key_def Let_def)

lemma settled_key_last_event:
  "settled_key s \<Longrightarrow> settled_key t \<Longrightarrow> last_event s = last_event t \<longleftrightarrow> s = t"
  by (cases "fst s"; cases "snd s"; cases "fst t"; cases "snd t")
     (auto simp: settled_key_def last_event_def is_dead_def prod_eq_iff split: if_splits)

lemma last_event_merge_eq:
  assumes "settled_key s" and "last_event s = max (last_event r) (last_event l)"
  shows "merge_key r l = s"
  using assms settled_key_last_event merge_key_settled merge_key_last_event by metis

text \<open>The control plane is a second instance of the register interface, keyed by entity.\<close>

interpretation ctl: lww_register merge_key "\<lambda>x y. last_event x \<le> last_event y" "\<lambda>_ _. True" settled_key
proof unfold_locales
  fix x l :: key_state
  assume "settled_key l" and "last_event x \<le> last_event l"
  then show "merge_key x l = l"
    by (intro last_event_merge_eq) (simp_all add: max_def)
qed (auto simp: merge_key_last_event merge_key_settled)

subsection \<open>What the plan of a family holds\<close>

lemma dom_tombstone_map: "dom (tombstone_map ts et) = fst ` set (tombstone_list ts et)"
  by (simp add: tombstone_map_def dom_collect_map)

lemma set_union_keys:
  "set (union_keys (keyed kf l) (keyed kf r) (tombstone_list lt et) (tombstone_list rt et)) =
     kf ` set l \<union> kf ` set r \<union> dom (tombstone_map lt et) \<union> dom (tombstone_map rt et)"
  by (auto simp: union_keys_def keyed_def dom_tombstone_map)

lemma distinct_union_keys [simp]: "distinct (union_keys a b c d)"
  by (simp add: union_keys_def)

text \<open>A key no map knows resolves to nothing at all.\<close>

definition no_resolution :: KeyResolution where
  "no_resolution = \<lparr>kr_alive = False, upsert_from_remote = False, delete_local = False,
     adopt_tombstone_at = None, clear_tombstone = False\<rparr>"

lemma family_resolution_unknown:
  assumes "k \<notin> set (union_keys (keyed kf l) (keyed kf r) (tombstone_list lt et) (tombstone_list rt et))"
  shows "family_resolution kf tf et l r lt rt k = no_resolution"
proof -
  from assms have "entity_map kf l k = None" "entity_map kf r k = None"
    "tombstone_map lt et k = None" "tombstone_map rt et k = None"
    by (auto simp: set_union_keys entity_map_None_iff)
  then show ?thesis
    by (simp add: family_resolution_def resolve_key_def no_resolution_def)
qed

text \<open>The resolution as seen by the keys of the plan; skipped keys do nothing.\<close>

definition kept_resolution ::
  "('e \<Rightarrow> string) \<Rightarrow> ('e \<Rightarrow> timestamp) \<Rightarrow> string \<Rightarrow> (string \<Rightarrow> bool) \<Rightarrow> 'e list \<Rightarrow> 'e list \<Rightarrow>
   ControlTombstone list \<Rightarrow> ControlTombstone list \<Rightarrow> string \<Rightarrow> KeyResolution" where
  "kept_resolution kf tf et keep l r lt rt k =
     (if keep k then family_resolution kf tf et l r lt rt k else no_resolution)"

lemma plan_family_alive:
  "k \<in> set (fp_alive (plan_family kf tf et keep admit l r lt rt)) \<longleftrightarrow>
     kr_alive (kept_resolution kf tf et keep l r lt rt k)"
  by (auto simp: plan_family_def kept_resolution_def Let_def)
     (metis family_resolution_unknown no_resolution_def KeyResolution.select_convs(1),
      simp_all add: no_resolution_def)

lemma plan_family_deletes:
  "k \<in> set (fp_deletes (plan_family kf tf et keep admit l r lt rt)) \<longleftrightarrow>
     delete_local (kept_resolution kf tf et keep l r lt rt k)"
  by (auto simp: plan_family_def kept_resolution_def Let_def)
     (metis family_resolution_unknown no_resolution_def KeyResolution.select_convs(3),
      simp_all add: no_resolution_def)

lemma upsert_remote_present:
  "upsert_from_remote (family_resolution kf tf et l r lt rt k) \<Longrightarrow> entity_map kf r k \<noteq> None"
  by (cases "entity_map kf r k")
     (auto simp: family_resolution_def resolve_key_def Let_def split: if_splits option.splits)

lemma find_map_filter_entity:
  "find (\<lambda>x. kf x = k) (filter P (List.map_filter (entity_map kf r) ks)) =
     (if k \<in> set ks then (case entity_map kf r k of Some x \<Rightarrow> if P x then Some x else None | None \<Rightarrow> None)
      else None)"
  by (induction ks) (auto simp: map_filter_simps split: option.splits dest: entity_map_SomeD)

lemma plan_family_upsert_find:
  "find (\<lambda>x. kf x = k) (fp_upserts (plan_family kf tf et keep admit l r lt rt)) =
     (if upsert_from_remote (kept_resolution kf tf et keep l r lt rt k)
      then (case entity_map kf r k of Some x \<Rightarrow> if admit x then Some x else None | None \<Rightarrow> None) else None)"
  unfolding plan_family_def Let_def family_plan.select_convs find_map_filter_entity
  using family_resolution_unknown [of k kf l r lt et rt tf]
  by (auto simp: kept_resolution_def no_resolution_def)

lemma map_key_map_filter:
  "map kf (List.map_filter (entity_map kf r) ks) = filter (\<lambda>k. entity_map kf r k \<noteq> None) ks"
  by (induction ks) (auto simp: map_filter_simps split: option.splits dest: entity_map_SomeD)

lemma distinct_fp_upserts: "distinct (map kf (fp_upserts (plan_family kf tf et keep admit l r lt rt)))"
  by (simp add: plan_family_def Let_def distinct_filter_rows map_key_map_filter)

lemma fp_upserts_admit:
  "x \<in> set (fp_upserts (plan_family kf tf et keep admit l r lt rt)) \<Longrightarrow> admit x"
  by (simp add: plan_family_def Let_def)

lemma fp_upserts_key:
  assumes "x \<in> set (fp_upserts (plan_family kf tf et keep admit l r lt rt))"
  shows "keep (kf x) \<and> upsert_from_remote (family_resolution kf tf et l r lt rt (kf x)) \<and>
    entity_map kf r (kf x) = Some x"
proof -
  let ?ks = "filter keep (union_keys (keyed kf l) (keyed kf r) (tombstone_list lt et) (tombstone_list rt et))"
  have "x \<in> set (List.map_filter (entity_map kf r)
      (filter (\<lambda>k. upsert_from_remote (family_resolution kf tf et l r lt rt k)) ?ks))"
    using assms by (simp add: plan_family_def Let_def)
  then obtain k where "keep k" "upsert_from_remote (family_resolution kf tf et l r lt rt k)"
    and k: "entity_map kf r k = Some x"
    unfolding set_map_filter set_filter by blast
  moreover have "kf x = k" using entity_map_SomeD [OF k] by blast
  ultimately show ?thesis by simp
qed

text \<open>The rows after the family's upserts and deletions, key by key.\<close>

lemma family_rows:
  fixes tf :: "'e \<Rightarrow> timestamp"
  defines "p \<equiv> \<lambda>kf et keep l r lt rt. plan_family kf tf et keep (\<lambda>_. True) l r lt rt"
  assumes same: "entity_map kf rows = entity_map kf l"
  shows "entity_map kf (fold (remove_key kf) (fp_deletes (p kf et keep l r lt rt))
      (fold (upsert_row kf) (fp_upserts (p kf et keep l r lt rt)) rows)) k =
    (let res = kept_resolution kf tf et keep l r lt rt k
     in if delete_local res then None
        else if upsert_from_remote res then entity_map kf r k else entity_map kf l k)"
proof -
  have "upsert_from_remote (kept_resolution kf tf et keep l r lt rt k) \<Longrightarrow> entity_map kf r k \<noteq> None"
    using upsert_remote_present by (auto simp: kept_resolution_def no_resolution_def split: if_splits)
  then show ?thesis
    unfolding p_def
    by (auto simp: tbl.get_batch [OF distinct_fp_upserts] plan_family_deletes plan_family_upsert_find
        Let_def same split: option.splits)
qed

text \<open>The tombstone actions of one key among those of all families.\<close>

lemma filter_concat_key:
  assumes "distinct ks" and "\<And>k' t. t \<in> set (f k') \<Longrightarrow> entity_type t = et \<and> entity_key t = k'"
  shows "filter (\<lambda>t. entity_type t = et \<and> entity_key t = k) (concat (map f ks)) = (if k \<in> set ks then f k else [])"
  using assms(1)
proof (induction ks)
  case (Cons k' ks)
  have "filter (\<lambda>t. entity_type t = et \<and> entity_key t = k) (f k') = (if k' = k then f k else [])"
    using assms(2) [of _ k'] by (auto simp: filter_id_conv filter_empty_conv)
  with Cons show ?case by auto
qed simp

lemma no_resolution_actions [simp]:
  "adopt_action et k no_resolution = []" "clear_action et k no_resolution = []"
  by (simp_all add: no_resolution_def adopt_action_def clear_action_def)

lemma action_Nil_iff:
  "adopt_action et k res = [] \<longleftrightarrow> adopt_tombstone_at res = None"
  "clear_action et k res = [] \<longleftrightarrow> \<not> clear_tombstone res"
  by (simp_all add: adopt_action_def clear_action_def split: option.splits)

lemma adopt_action_pk: "t \<in> set (adopt_action et k res) \<Longrightarrow> entity_type t = et \<and> entity_key t = k"
  by (auto simp: adopt_action_def split: option.splits)

lemma clear_action_pk: "t \<in> set (clear_action et k res) \<Longrightarrow> entity_type t = et \<and> entity_key t = k"
  by (auto simp: clear_action_def split: if_splits)

lemma fp_adopts_key:
  "filter (\<lambda>t. entity_type t = et \<and> entity_key t = k) (fp_adopts (plan_family kf tf et keep admit l r lt rt)) =
     adopt_action et k (kept_resolution kf tf et keep l r lt rt k)"
  using family_resolution_unknown [of k kf l r lt et rt tf]
  unfolding plan_family_def Let_def family_plan.select_convs
  by (subst filter_concat_key) (auto simp: kept_resolution_def dest: adopt_action_pk)

lemma fp_clears_key:
  "filter (\<lambda>t. entity_type t = et \<and> entity_key t = k) (fp_clears (plan_family kf tf et keep admit l r lt rt)) =
     clear_action et k (kept_resolution kf tf et keep l r lt rt k)"
  using family_resolution_unknown [of k kf l r lt et rt tf]
  unfolding plan_family_def Let_def family_plan.select_convs
  by (subst filter_concat_key) (auto simp: kept_resolution_def dest: clear_action_pk)

lemma fp_adopts_type: "t \<in> set (fp_adopts (plan_family kf tf et keep admit l r lt rt)) \<Longrightarrow> entity_type t = et"
  by (auto simp: plan_family_def Let_def dest: adopt_action_pk)

lemma fp_clears_type: "t \<in> set (fp_clears (plan_family kf tf et keep admit l r lt rt)) \<Longrightarrow> entity_type t = et"
  by (auto simp: plan_family_def Let_def dest: clear_action_pk)

lemma fp_other_type:
  assumes "et \<noteq> et'"
  shows "filter (\<lambda>t. entity_type t = et' \<and> entity_key t = k) (fp_adopts (plan_family kf tf et keep admit l r lt rt)) = []"
    and "filter (\<lambda>t. entity_type t = et' \<and> entity_key t = k) (fp_clears (plan_family kf tf et keep admit l r lt rt)) = []"
  using assms by (auto simp: filter_empty_conv dest: fp_adopts_type fp_clears_type)

subsection \<open>Families as registers\<close>

definition family_state ::
  "('e \<Rightarrow> string) \<Rightarrow> ('e \<Rightarrow> timestamp) \<Rightarrow> string \<Rightarrow> 'e list \<Rightarrow> ControlTombstone list \<Rightarrow> string \<Rightarrow> key_state" where
  "family_state kf tf et ents tombs k = (map_option tf (entity_map kf ents k), tombstone_map tombs et k)"

definition idle :: "'e family_plan \<Rightarrow> bool" where
  "idle p \<longleftrightarrow> fp_upserts p = [] \<and> fp_deletes p = [] \<and> fp_adopts p = [] \<and> fp_clears p = []"

lemma resolution_idle_iff:
  "\<not> upsert_from_remote (resolve_key la ld ra rd) \<and> \<not> delete_local (resolve_key la ld ra rd) \<and>
   adopt_tombstone_at (resolve_key la ld ra rd) = None \<and> \<not> clear_tombstone (resolve_key la ld ra rd)
   \<longleftrightarrow> merge_key (ra, rd) (la, ld) = (la, ld)"
proof (cases "is_dead (max la ra, max ld rd)")
  case True
  then show ?thesis
    by (cases "max ld rd") (auto simp: merge_key_def resolve_key_dead is_dead_def Let_def)
next
  case False
  then show ?thesis by (auto simp: merge_key_def resolve_key_alive Let_def)
qed

lemma fp_upserts_Nil:
  "fp_upserts (plan_family kf tf et (\<lambda>_. True) (\<lambda>_. True) l r lt rt) = [] \<longleftrightarrow>
   (\<forall>k. \<not> upsert_from_remote (family_resolution kf tf et l r lt rt k))" (is "?U = [] \<longleftrightarrow> ?R")
proof
  assume empty: "?U = []"
  show ?R
  proof (intro allI notI)
    fix k assume up: "upsert_from_remote (family_resolution kf tf et l r lt rt k)"
    then obtain x where "entity_map kf r k = Some x" using upsert_remote_present by blast
    with up have "find (\<lambda>x. kf x = k) ?U = Some x"
      unfolding plan_family_upsert_find by (simp add: kept_resolution_def)
    with empty show False by simp
  qed
qed (simp add: plan_family_def Let_def List.map_filter_def)

lemma fp_deletes_Nil:
  "fp_deletes (plan_family kf tf et (\<lambda>_. True) (\<lambda>_. True) l r lt rt) = [] \<longleftrightarrow>
   (\<forall>k. \<not> delete_local (family_resolution kf tf et l r lt rt k))"
  using plan_family_deletes [of _ kf tf et "\<lambda>_. True" "\<lambda>_. True" l r lt rt]
  by (simp add: kept_resolution_def) (metis empty_iff empty_set last_in_set)

lemma fp_adopts_Nil:
  "fp_adopts (plan_family kf tf et (\<lambda>_. True) (\<lambda>_. True) l r lt rt) = [] \<longleftrightarrow>
   (\<forall>k. adopt_tombstone_at (family_resolution kf tf et l r lt rt k) = None)" (is "?A = [] \<longleftrightarrow> ?R")
proof
  assume "?A = []"
  then have "adopt_action et k (family_resolution kf tf et l r lt rt k) = []" for k
    using fp_adopts_key [of et k kf tf "\<lambda>_. True" "\<lambda>_. True" l r lt rt] by (simp add: kept_resolution_def)
  then show ?R by (simp add: action_Nil_iff)
qed (simp add: plan_family_def Let_def adopt_action_def)

lemma fp_clears_Nil:
  "fp_clears (plan_family kf tf et (\<lambda>_. True) (\<lambda>_. True) l r lt rt) = [] \<longleftrightarrow>
   (\<forall>k. \<not> clear_tombstone (family_resolution kf tf et l r lt rt k))" (is "?C = [] \<longleftrightarrow> ?R")
proof
  assume "?C = []"
  then have "clear_action et k (family_resolution kf tf et l r lt rt k) = []" for k
    using fp_clears_key [of et k kf tf "\<lambda>_. True" "\<lambda>_. True" l r lt rt] by (simp add: kept_resolution_def)
  then show ?R by (simp add: action_Nil_iff)
qed (simp add: plan_family_def Let_def clear_action_def)

lemma family_idle_iff:
  "idle (plan_family kf tf et (\<lambda>_. True) (\<lambda>_. True) l r lt rt) \<longleftrightarrow>
   (\<forall>k. merge_key (family_state kf tf et r rt k) (family_state kf tf et l lt k) = family_state kf tf et l lt k)"
  unfolding idle_def fp_upserts_Nil fp_deletes_Nil fp_adopts_Nil fp_clears_Nil family_state_def
    resolution_idle_iff [symmetric] family_resolution_def
  by blast

end
