(* ===== verification/Control_Apply.thy ===== *)
theory Control_Apply
  imports Control_Merge Control_Db_Invariant
begin

section \<open>Applying a merge plan (control_merge.rs, sqlite/control_snapshot.rs, anti_entropy.rs)\<close>

text \<open>
  A reconcile round pulls a peer's snapshot, plans against the node's own and executes the plan
  statement by statement, each in its own transaction: the identity part stops at the first
  error, the metadata part only logs errors. The statements are values of \<open>control_write\<close> and
  \<open>metadata_write\<close>, so that a crash point is a prefix of the list. A snapshot is read here in one
  piece; in the code its tables are read by separate queries.
\<close>

subsection \<open>The snapshot\<close>

definition push_tag :: "TimestampedBucketTags list \<Rightarrow> tag_row \<Rightarrow> TimestampedBucketTags list" where
  "push_tag acc r =
     (if acc \<noteq> [] \<and> bt_bucket (last acc) = tr_bucket r
      then butlast acc @ [(last acc)\<lparr>bt_tags := bt_tags (last acc) @ [(tr_key r, tr_value r)],
                                    bt_updated_at := max (bt_updated_at (last acc)) (tr_updated_at r)\<rparr>]
      else acc @ [\<lparr>bt_bucket = tr_bucket r, bt_tags = [(tr_key r, tr_value r)],
                   bt_updated_at = tr_updated_at r\<rparr>])"

definition group_tags :: "tag_row list \<Rightarrow> TimestampedBucketTags list" where
  "group_tags rows = foldl push_tag [] (sort_key (\<lambda>r. (tr_bucket r, tr_key r)) rows)"

definition build_control_snapshot :: "control_db \<Rightarrow> ControlSnapshot" where
  "build_control_snapshot db =
     \<lparr>credentials = sort_key (c_created_at \<circ> credential) (db_credentials db),
      users = sort_key (u_created_at \<circ> user) (db_users db),
      teams = sort_key (t_created_at \<circ> team) (db_teams db),
      grants = list_grants db,
      buckets = list_buckets db,
      tombstones = db_tombstones db,
      user_grants = db_user_grants db,
      team_grants = db_team_grants db,
      team_members = db_team_members db,
      bucket_configs = db_bucket_config db,
      bucket_tags = group_tags (db_bucket_tags db),
      server_configs = filter (\<lambda>x. \<not> is_node_local_server_config_key (sc_key x)) (db_server_config db),
      multipart_uploads = db_uploads db,
      cs_parts = db_parts db\<rparr>"

subsection \<open>The identity part\<close>

datatype control_write =
    AdoptTombstone ControlTombstone
  | UpsertCredential TimestampedCredential
  | UpsertUser TimestampedUser
  | UpsertTeam TimestampedTeam
  | UpsertGrant Grant
  | UpsertUserGrant TimestampedUserGrant
  | UpsertTeamGrant TimestampedTeamGrant
  | UpsertTeamMember TimestampedTeamMember
  | UpsertServerConfig TimestampedServerConfig
  | DetachFromUser "string \<times> string"
  | DetachFromTeam "string \<times> string"
  | RemoveMember "string \<times> string"
  | DeleteServerConfig string
  | DeleteCredential string
  | DeleteUser string
  | DeleteTeam string
  | DeleteGrant string
  | ClearTombstone ControlTombstone

fun exec_write :: "bool \<Rightarrow> control_write \<Rightarrow> control_db \<Rightarrow> store_error + control_db" where
  "exec_write fk (AdoptTombstone t) db = Inr (apply_control_tombstone t db)"
| "exec_write fk (UpsertCredential c) db = Inr (apply_credential_at (credential c) (tc_updated_at c) db)"
| "exec_write fk (UpsertUser u) db = apply_user_at (user u) (tu_updated_at u) db"
| "exec_write fk (UpsertTeam t) db = apply_team_at (team t) (tt_updated_at t) db"
| "exec_write fk (UpsertGrant g) db = apply_remote_grant g db"
| "exec_write fk (UpsertUserGrant x) db =
     apply_user_grant_at fk (ug_user_id x) (ug_grant_id x) (ug_updated_at x) db"
| "exec_write fk (UpsertTeamGrant x) db =
     apply_team_grant_at fk (tg_team_id x) (tg_grant_id x) (tg_updated_at x) db"
| "exec_write fk (UpsertTeamMember x) db =
     apply_team_member_at fk (tm_team_id x) (tm_user_id x) (tm_updated_at x) db"
| "exec_write fk (UpsertServerConfig x) db =
     Inr (apply_server_config_at (sc_key x) (sc_value x) (sc_updated_at x) db)"
| "exec_write fk (DetachFromUser p) db = Inr (snd (detach_from_user (fst p) (snd p) db))"
| "exec_write fk (DetachFromTeam p) db = Inr (snd (detach_from_team (fst p) (snd p) db))"
| "exec_write fk (RemoveMember p) db = Inr (snd (remove_member (fst p) (snd p) db))"
| "exec_write fk (DeleteServerConfig k) db = Inr (snd (delete_server_config k db))"
| "exec_write fk (DeleteCredential k) db = Inr (snd (delete_credential k db))"
| "exec_write fk (DeleteUser k) db = Inr (snd (delete_user k db))"
| "exec_write fk (DeleteTeam k) db = Inr (snd (delete_team k db))"
| "exec_write fk (DeleteGrant k) db = Inr (snd (delete_grant k db))"
| "exec_write fk (ClearTombstone t) db =
     Inr (snd (delete_control_tombstone (entity_type t) (entity_key t) db))"

text \<open>Stops at the first error; the statements before it stay committed.\<close>

fun run_writes :: "bool \<Rightarrow> control_write list \<Rightarrow> control_db \<Rightarrow> store_error option \<times> control_db" where
  "run_writes fk [] db = (None, db)"
| "run_writes fk (w # ws) db =
     (case exec_write fk w db of Inl e \<Rightarrow> (Some e, db) | Inr db' \<Rightarrow> run_writes fk ws db')"

definition identity_writes :: "ControlMergePlan \<Rightarrow> control_write list" where
  "identity_writes plan =
     map AdoptTombstone (adopt_tombstones plan) @
     map UpsertCredential (upsert_credentials plan) @
     map UpsertUser (upsert_users plan) @
     map UpsertTeam (upsert_teams plan) @
     map UpsertGrant (upsert_grants plan) @
     map UpsertUserGrant (upsert_user_grants plan) @
     map UpsertTeamGrant (upsert_team_grants plan) @
     map UpsertTeamMember (upsert_team_members plan) @
     map UpsertServerConfig (upsert_server_configs plan) @
     map DetachFromUser (delete_user_grants plan) @
     map DetachFromTeam (delete_team_grants plan) @
     map RemoveMember (delete_team_members plan) @
     map DeleteServerConfig (delete_server_configs plan) @
     map DeleteCredential (delete_credentials plan) @
     map DeleteUser (delete_users plan) @
     map DeleteTeam (delete_teams plan) @
     map DeleteGrant (delete_grants plan) @
     map ClearTombstone (clear_tombstones plan)"

definition apply_control_merge_via_traits ::
  "bool \<Rightarrow> ControlMergePlan \<Rightarrow> control_db \<Rightarrow> store_error option \<times> control_db" where
  "apply_control_merge_via_traits fk plan db = run_writes fk (identity_writes plan) db"

subsection \<open>The metadata part and the round\<close>

datatype metadata_write =
    ApplyBucket BucketInfo
  | ApplyBucketConfig TimestampedBucketConfig
  | ApplyBucketTags TimestampedBucketTags
  | ApplyUpload MultipartUploadRecord
  | PutPart PartRecord
  | DeleteBucketConfig "string \<times> string"
  | DeleteBucketTags string
  | DeleteUpload string
  | DeleteBucket string

fun exec_metadata :: "metadata_write \<Rightarrow> control_db \<Rightarrow> store_error + control_db" where
  "exec_metadata (ApplyBucket b) db = Inr (apply_remote_bucket b db)"
| "exec_metadata (ApplyBucketConfig x) db =
     Inr (apply_bucket_config_at (bc_bucket x) (bc_key x) (bc_value x) (bc_updated_at x) db)"
| "exec_metadata (ApplyBucketTags x) db = apply_bucket_tags_at (bt_bucket x) (bt_tags x) (bt_updated_at x) db"
| "exec_metadata (ApplyUpload r) db = Inr (apply_remote_multipart_upload r db)"
| "exec_metadata (PutPart p) db = Inr (snd (put_part p db))"
| "exec_metadata (DeleteBucketConfig p) db = Inr (snd (delete_bucket_config (fst p) (snd p) db))"
| "exec_metadata (DeleteBucketTags b) db = Inr (snd (delete_bucket_tags b db))"
| "exec_metadata (DeleteUpload u) db = Inr (snd (delete_multipart_upload u db))"
| "exec_metadata (DeleteBucket b) db = Inr (snd (delete_bucket b db))"

text \<open>An error is logged and the loop goes on.\<close>

definition log_metadata :: "metadata_write \<Rightarrow> control_db \<Rightarrow> control_db" where
  "log_metadata w db = (case exec_metadata w db of Inl _ \<Rightarrow> db | Inr db' \<Rightarrow> db')"

definition metadata_writes :: "ControlMergePlan \<Rightarrow> metadata_write list" where
  "metadata_writes plan =
     map ApplyBucket (upsert_buckets plan) @
     map ApplyBucketConfig (upsert_bucket_configs plan) @
     map ApplyBucketTags (upsert_bucket_tags plan) @
     map ApplyUpload (upsert_multipart_uploads plan) @
     map PutPart (upsert_parts plan) @
     map DeleteBucketConfig (delete_bucket_configs plan) @
     map DeleteBucketTags (plan_delete_bucket_tags plan) @
     map DeleteUpload (delete_multipart_uploads plan) @
     map DeleteBucket (delete_buckets plan)"

definition reconcile_peer_control ::
  "bool \<Rightarrow> ControlSnapshot \<Rightarrow> control_db \<Rightarrow> store_error option \<times> control_db" where
  "reconcile_peer_control fk remote db =
     (let plan = plan_control_merge (build_control_snapshot db) remote
      in if plan_is_empty plan then (None, db)
         else case apply_control_merge_via_traits fk plan db of
                (Some e, db') \<Rightarrow> (Some e, db')
              | (None, db') \<Rightarrow> (None, fold log_metadata (metadata_writes plan) db'))"

subsection \<open>The effect of the statements on one table\<close>

fun users_effect :: "control_write \<Rightarrow> TimestampedUser list \<Rightarrow> TimestampedUser list" where
  "users_effect (UpsertUser u) rows = upsert_row user_pk u rows"
| "users_effect (DeleteUser k) rows = remove_key user_pk k rows"
| "users_effect _ rows = rows"

fun teams_effect :: "control_write \<Rightarrow> TimestampedTeam list \<Rightarrow> TimestampedTeam list" where
  "teams_effect (UpsertTeam t) rows = upsert_row team_pk t rows"
| "teams_effect (DeleteTeam k) rows = remove_key team_pk k rows"
| "teams_effect _ rows = rows"

fun grants_effect :: "control_write \<Rightarrow> Grant list \<Rightarrow> Grant list" where
  "grants_effect (UpsertGrant g) rows = upsert_row grant_id g rows"
| "grants_effect (DeleteGrant k) rows = remove_key grant_id k rows"
| "grants_effect _ rows = rows"

definition adopt_row :: "ControlTombstone \<Rightarrow> ControlTombstone list \<Rightarrow> ControlTombstone list" where
  "adopt_row t rows = upsert_row tomb_pk
     (case entity_map tomb_pk rows (tomb_pk t) of
        None \<Rightarrow> t
      | Some old \<Rightarrow> t\<lparr>deleted_at := max (deleted_at old) (deleted_at t)\<rparr>) rows"

fun tombs_effect :: "control_write \<Rightarrow> ControlTombstone list \<Rightarrow> ControlTombstone list" where
  "tombs_effect (AdoptTombstone t) rows = adopt_row t rows"
| "tombs_effect (ClearTombstone t) rows = remove_key tomb_pk (tomb_pk t) rows"
| "tombs_effect _ rows = rows"

lemma timestamped_eta [simp]:
  "\<lparr>credential = credential c, tc_updated_at = tc_updated_at c\<rparr> = c"
  "\<lparr>user = user u, tu_updated_at = tu_updated_at u\<rparr> = u"
  "\<lparr>team = team t, tt_updated_at = tt_updated_at t\<rparr> = t"
  by simp_all

lemma exec_users: "exec_write fk w db = Inr db' \<Longrightarrow> db_users db' = users_effect w (db_users db)"
  by (cases w) (auto simp: store_op_defs split: if_splits)

lemma exec_teams: "exec_write fk w db = Inr db' \<Longrightarrow> db_teams db' = teams_effect w (db_teams db)"
  by (cases w) (auto simp: store_op_defs split: if_splits)

lemma exec_grants: "exec_write fk w db = Inr db' \<Longrightarrow> db_grants db' = grants_effect w (db_grants db)"
  by (cases w) (auto simp: store_op_defs split: if_splits)

lemma exec_tombs: "exec_write fk w db = Inr db' \<Longrightarrow> db_tombstones db' = tombs_effect w (db_tombstones db)"
  by (cases w) (auto simp: store_op_defs adopt_row_def split: if_splits)

lemma run_writes_project:
  assumes "run_writes fk ws db = (None, db')"
    and "\<And>w d d'. exec_write fk w d = Inr d' \<Longrightarrow> sel d' = eff w (sel d)"
  shows "sel db' = fold eff ws (sel db)"
  using assms(1)
proof (induction ws arbitrary: db)
  case (Cons w ws)
  then obtain d where "exec_write fk w db = Inr d" and "run_writes fk ws d = (None, db')"
    by (auto split: sum.splits)
  with Cons.IH assms(2) show ?case by auto
qed simp

lemma run_users: "run_writes fk ws db = (None, db') \<Longrightarrow> db_users db' = fold users_effect ws (db_users db)"
  by (erule run_writes_project) (erule exec_users)

lemma run_teams: "run_writes fk ws db = (None, db') \<Longrightarrow> db_teams db' = fold teams_effect ws (db_teams db)"
  by (erule run_writes_project) (erule exec_teams)

lemma run_grants: "run_writes fk ws db = (None, db') \<Longrightarrow> db_grants db' = fold grants_effect ws (db_grants db)"
  by (erule run_writes_project) (erule exec_grants)

lemma run_tombstones: "run_writes fk ws db = (None, db') \<Longrightarrow> db_tombstones db' = fold tombs_effect ws (db_tombstones db)"
  by (erule run_writes_project) (erule exec_tombs)

lemma fold_map_other: "(\<And>x r. eff (c x) r = r) \<Longrightarrow> fold eff (map c xs) rows = rows"
  by (induction xs arbitrary: rows) auto

lemma fold_map_as: "(\<And>x r. eff (c x) r = g x r) \<Longrightarrow> fold eff (map c xs) rows = fold g xs rows"
  by (induction xs arbitrary: rows) auto

lemma identity_users:
  "fold users_effect (identity_writes p) rows =
     fold (remove_key user_pk) (delete_users p) (fold (upsert_row user_pk) (upsert_users p) rows)"
  by (simp add: identity_writes_def fold_map_other fold_map_as [where g = "upsert_row user_pk"]
      fold_map_as [where g = "remove_key user_pk"])

lemma identity_teams:
  "fold teams_effect (identity_writes p) rows =
     fold (remove_key team_pk) (delete_teams p) (fold (upsert_row team_pk) (upsert_teams p) rows)"
  by (simp add: identity_writes_def fold_map_other fold_map_as [where g = "upsert_row team_pk"]
      fold_map_as [where g = "remove_key team_pk"])

lemma identity_grants:
  "fold grants_effect (identity_writes p) rows =
     fold (remove_key grant_id) (delete_grants p) (fold (upsert_row grant_id) (upsert_grants p) rows)"
  by (simp add: identity_writes_def fold_map_other fold_map_as [where g = "upsert_row grant_id"]
      fold_map_as [where g = "remove_key grant_id"])

lemma identity_tombs:
  "fold tombs_effect (identity_writes p) rows =
     fold (\<lambda>t. remove_key tomb_pk (tomb_pk t)) (clear_tombstones p) (fold adopt_row (adopt_tombstones p) rows)"
  by (simp add: identity_writes_def fold_map_other fold_map_as [where g = adopt_row]
      fold_map_as [where g = "\<lambda>t. remove_key tomb_pk (tomb_pk t)"])

subsection \<open>The tombstones after a merge\<close>

lemma tombstone_map_entity: "tombstone_map ts et k = map_option deleted_at (entity_map tomb_pk ts (et, k))"
  by (induction ts rule: rev_induct)
     (auto simp: tombstone_map_def tombstone_list_def collect_map_def entity_map_snoc)

lemma adopt_row_lookup:
  "map_option deleted_at (entity_map tomb_pk (adopt_row t rows) (et, k)) =
     (if entity_type t = et \<and> entity_key t = k
      then max (map_option deleted_at (entity_map tomb_pk rows (et, k))) (Some (deleted_at t))
      else map_option deleted_at (entity_map tomb_pk rows (et, k)))"
  by (auto simp: adopt_row_def entity_map_upsert split: option.splits)

lemma fold_adopt_lookup:
  "map_option deleted_at (entity_map tomb_pk (fold adopt_row ts rows) (et, k)) =
     fold (\<lambda>t a. max a (Some (deleted_at t))) (filter (\<lambda>t. entity_type t = et \<and> entity_key t = k) ts)
       (map_option deleted_at (entity_map tomb_pk rows (et, k)))"
  by (induction ts arbitrary: rows) (simp_all add: adopt_row_lookup)

lemma fold_clear_lookup:
  "entity_map tomb_pk (fold (\<lambda>t. remove_key tomb_pk (tomb_pk t)) ts rows) (et, k) =
     (if filter (\<lambda>t. entity_type t = et \<and> entity_key t = k) ts = [] then entity_map tomb_pk rows (et, k)
      else None)"
  by (induction ts arbitrary: rows) (auto simp: entity_map_remove)

text \<open>The tombstone of one key after the adopts and clears of a plan that acts on it once.\<close>

lemma tombs_after_actions:
  assumes "filter (\<lambda>t. entity_type t = et \<and> entity_key t = k) adopts = adopt_action et k res"
    and "filter (\<lambda>t. entity_type t = et \<and> entity_key t = k) clears = clear_action et k res"
  shows "tombstone_map (fold (\<lambda>t. remove_key tomb_pk (tomb_pk t)) clears (fold adopt_row adopts rows)) et k =
    (if clear_tombstone res then None
     else case adopt_tombstone_at res of None \<Rightarrow> tombstone_map rows et k
        | Some d \<Rightarrow> max (tombstone_map rows et k) (Some d))"
  using assms fold_adopt_lookup [of adopts rows et k]
  by (auto simp: tombstone_map_entity fold_clear_lookup adopt_action_def clear_action_def
      split: option.splits)

lemmas plan_family_defs =
  plan_credentials_def plan_users_def plan_teams_def plan_grants_def plan_buckets_def
  plan_user_grants_def plan_team_grants_def plan_team_members_def plan_bucket_configs_def
  plan_bucket_tags_def plan_server_configs_def plan_multipart_uploads_def

abbreviation user_resolution :: "ControlSnapshot \<Rightarrow> ControlSnapshot \<Rightarrow> string \<Rightarrow> KeyResolution" where
  "user_resolution l r \<equiv>
     family_resolution user_pk tu_updated_at TOMBSTONE_USER (users l) (users r) (tombstones l) (tombstones r)"

abbreviation team_resolution :: "ControlSnapshot \<Rightarrow> ControlSnapshot \<Rightarrow> string \<Rightarrow> KeyResolution" where
  "team_resolution l r \<equiv>
     family_resolution team_pk tt_updated_at TOMBSTONE_TEAM (teams l) (teams r) (tombstones l) (tombstones r)"

abbreviation grant_resolution :: "ControlSnapshot \<Rightarrow> ControlSnapshot \<Rightarrow> string \<Rightarrow> KeyResolution" where
  "grant_resolution l r \<equiv>
     family_resolution grant_id g_updated_at TOMBSTONE_GRANT (grants l) (grants r) (tombstones l) (tombstones r)"

abbreviation cred_resolution :: "ControlSnapshot \<Rightarrow> ControlSnapshot \<Rightarrow> string \<Rightarrow> KeyResolution" where
  "cred_resolution l r \<equiv>
     family_resolution cred_pk tc_updated_at TOMBSTONE_CREDENTIAL (credentials l) (credentials r)
       (tombstones l) (tombstones r)"

lemma tombstone_types_distinct:
  "distinct [TOMBSTONE_CREDENTIAL, TOMBSTONE_USER, TOMBSTONE_TEAM, TOMBSTONE_GRANT, TOMBSTONE_BUCKET,
     TOMBSTONE_USER_GRANT, TOMBSTONE_TEAM_GRANT, TOMBSTONE_TEAM_MEMBER, TOMBSTONE_BUCKET_CONFIG,
     TOMBSTONE_BUCKET_TAGS, TOMBSTONE_SERVER_CONFIG, TOMBSTONE_MULTIPART]"
  by (simp add: tombstone_types)

lemmas type_neq = tombstone_types_distinct [simplified]

lemma plan_actions_user:
  "filter (\<lambda>t. entity_type t = TOMBSTONE_USER \<and> entity_key t = k) (adopt_tombstones (plan_control_merge l r)) =
     adopt_action TOMBSTONE_USER k (user_resolution l r k)"
  "filter (\<lambda>t. entity_type t = TOMBSTONE_USER \<and> entity_key t = k) (clear_tombstones (plan_control_merge l r)) =
     clear_action TOMBSTONE_USER k (user_resolution l r k)"
  using type_neq
  by (simp_all add: plan_control_merge_def Let_def plan_family_defs fp_adopts_key fp_clears_key fp_other_type fp_other_type [OF not_sym]
      kept_resolution_def)

lemma plan_actions_team:
  "filter (\<lambda>t. entity_type t = TOMBSTONE_TEAM \<and> entity_key t = k) (adopt_tombstones (plan_control_merge l r)) =
     adopt_action TOMBSTONE_TEAM k (team_resolution l r k)"
  "filter (\<lambda>t. entity_type t = TOMBSTONE_TEAM \<and> entity_key t = k) (clear_tombstones (plan_control_merge l r)) =
     clear_action TOMBSTONE_TEAM k (team_resolution l r k)"
  using type_neq
  by (simp_all add: plan_control_merge_def Let_def plan_family_defs fp_adopts_key fp_clears_key fp_other_type fp_other_type [OF not_sym]
      kept_resolution_def)

lemma plan_actions_grant:
  "filter (\<lambda>t. entity_type t = TOMBSTONE_GRANT \<and> entity_key t = k) (adopt_tombstones (plan_control_merge l r)) =
     adopt_action TOMBSTONE_GRANT k (grant_resolution l r k)"
  "filter (\<lambda>t. entity_type t = TOMBSTONE_GRANT \<and> entity_key t = k) (clear_tombstones (plan_control_merge l r)) =
     clear_action TOMBSTONE_GRANT k (grant_resolution l r k)"
  using type_neq
  by (simp_all add: plan_control_merge_def Let_def plan_family_defs fp_adopts_key fp_clears_key fp_other_type fp_other_type [OF not_sym]
      kept_resolution_def)

lemma plan_actions_credential:
  "filter (\<lambda>t. entity_type t = TOMBSTONE_CREDENTIAL \<and> entity_key t = k) (adopt_tombstones (plan_control_merge l r)) =
     adopt_action TOMBSTONE_CREDENTIAL k (cred_resolution l r k)"
  "filter (\<lambda>t. entity_type t = TOMBSTONE_CREDENTIAL \<and> entity_key t = k) (clear_tombstones (plan_control_merge l r)) =
     clear_action TOMBSTONE_CREDENTIAL k (cred_resolution l r k)"
  using type_neq
  by (simp_all add: plan_control_merge_def Let_def plan_family_defs fp_adopts_key fp_clears_key fp_other_type fp_other_type [OF not_sym]
      kept_resolution_def)

subsection \<open>The merge refines the newest event\<close>

lemma entity_map_sort:
  assumes "distinct (map kf rows)"
  shows "entity_map kf (sort_key f rows) = entity_map kf rows"
proof
  fix k
  have "distinct (map kf (sort_key f rows))"
    using assms by (simp add: distinct_map)
  then show "entity_map kf (sort_key f rows) k = entity_map kf rows k"
    using assms by (cases "k \<in> kf ` set rows") (auto simp: entity_map_in entity_map_None_iff [THEN iffD2])
qed

lemma family_state_after:
  assumes same: "entity_map kf rows = entity_map kf l"
    and adopts: "filter (\<lambda>t. entity_type t = et \<and> entity_key t = k) adopts =
      adopt_action et k (family_resolution kf tf et l r lt rt k)"
    and clears: "filter (\<lambda>t. entity_type t = et \<and> entity_key t = k) clears =
      clear_action et k (family_resolution kf tf et l r lt rt k)"
  shows "family_state kf tf et
      (fold (remove_key kf) (fp_deletes (plan_family kf tf et (\<lambda>_. True) (\<lambda>_. True) l r lt rt))
        (fold (upsert_row kf) (fp_upserts (plan_family kf tf et (\<lambda>_. True) (\<lambda>_. True) l r lt rt)) rows))
      (fold (\<lambda>t. remove_key tomb_pk (tomb_pk t)) clears (fold adopt_row adopts lt)) k =
    merge_key (family_state kf tf et r rt k) (family_state kf tf et l lt k)"
proof -
  let ?res = "family_resolution kf tf et l r lt rt k"
  have adopt_max: "adopt_tombstone_at ?res = Some d \<Longrightarrow> max (tombstone_map lt et k) (Some d) = Some d" for d
    by (auto simp: family_resolution_def resolve_key_def Let_def max_def split: if_splits option.splits)
  show ?thesis
    unfolding family_state_def family_rows [OF same] tombs_after_actions [OF adopts clears] merge_key_def
    using adopt_max
    by (auto simp: kept_resolution_def Let_def family_resolution_def [symmetric] split: option.splits)
qed

definition user_state :: "control_db \<Rightarrow> string \<Rightarrow> key_state" where
  "user_state db = family_state user_pk tu_updated_at TOMBSTONE_USER (db_users db) (db_tombstones db)"

definition team_state :: "control_db \<Rightarrow> string \<Rightarrow> key_state" where
  "team_state db = family_state team_pk tt_updated_at TOMBSTONE_TEAM (db_teams db) (db_tombstones db)"

definition grant_state :: "control_db \<Rightarrow> string \<Rightarrow> key_state" where
  "grant_state db = family_state grant_id g_updated_at TOMBSTONE_GRANT (db_grants db) (db_tombstones db)"

abbreviation merge_from :: "bool \<Rightarrow> control_db \<Rightarrow> control_db \<Rightarrow> store_error option \<times> control_db" where
  "merge_from fk peer db \<equiv>
     apply_control_merge_via_traits fk
       (plan_control_merge (build_control_snapshot db) (build_control_snapshot peer)) db"

lemma family_state_cong:
  "entity_map kf rows = entity_map kf rows' \<Longrightarrow> family_state kf tf et rows ts k = family_state kf tf et rows' ts k"
  by (simp add: family_state_def)

lemma merge_family_state:
  fixes l r :: ControlSnapshot
  assumes run: "run_writes fk (identity_writes (plan_control_merge l r)) db = (None, db')"
    and rows': "rows' = fold (remove_key kf) (fp_deletes p) (fold (upsert_row kf) (fp_upserts p) rows)"
    and p: "p = plan_family kf tf et (\<lambda>_. True) (\<lambda>_. True) lrows rrows (tombstones l) (tombstones r)"
    and same: "entity_map kf rows = entity_map kf lrows"
    and actions: "filter (\<lambda>t. entity_type t = et \<and> entity_key t = k) (adopt_tombstones (plan_control_merge l r)) =
        adopt_action et k (family_resolution kf tf et lrows rrows (tombstones l) (tombstones r) k)"
      "filter (\<lambda>t. entity_type t = et \<and> entity_key t = k) (clear_tombstones (plan_control_merge l r)) =
        clear_action et k (family_resolution kf tf et lrows rrows (tombstones l) (tombstones r) k)"
    and tombs: "tombstones l = db_tombstones db"
  shows "family_state kf tf et rows' (db_tombstones db') k =
    merge_key (family_state kf tf et rrows (tombstones r) k) (family_state kf tf et rows (db_tombstones db) k)"
  unfolding family_state_cong [OF same] rows' p run_tombstones [OF run] identity_tombs tombs [symmetric]
  by (rule family_state_after [OF same actions])

lemma merge_user_state:
  assumes ok: "keys_ok db" "keys_ok peer" and merge: "merge_from fk peer db = (None, db')"
  shows "user_state db' k = merge_key (user_state peer k) (user_state db k)"
proof -
  let ?l = "build_control_snapshot db" and ?r = "build_control_snapshot peer"
  have run: "run_writes fk (identity_writes (plan_control_merge ?l ?r)) db = (None, db')"
    using merge by (simp add: apply_control_merge_via_traits_def)
  have maps: "entity_map user_pk (db_users db) = entity_map user_pk (users ?l)"
    "entity_map user_pk (users ?r) = entity_map user_pk (db_users peer)"
    using ok by (simp_all add: build_control_snapshot_def entity_map_sort keys_ok_def list_grants_def)
  have "user_state db' k = merge_key
      (family_state user_pk tu_updated_at TOMBSTONE_USER (users ?r) (tombstones ?r) k) (user_state db k)"
    unfolding user_state_def
    by (rule merge_family_state [OF run _ plan_users_def maps(1) plan_actions_user])
       (simp_all add: run_users [OF run] identity_users plan_control_merge_def Let_def build_control_snapshot_def)
  then show ?thesis
    by (simp add: user_state_def [of peer] family_state_cong [OF maps(2)])
       (simp add: build_control_snapshot_def)
qed

lemma merge_team_state:
  assumes ok: "keys_ok db" "keys_ok peer" and merge: "merge_from fk peer db = (None, db')"
  shows "team_state db' k = merge_key (team_state peer k) (team_state db k)"
proof -
  let ?l = "build_control_snapshot db" and ?r = "build_control_snapshot peer"
  have run: "run_writes fk (identity_writes (plan_control_merge ?l ?r)) db = (None, db')"
    using merge by (simp add: apply_control_merge_via_traits_def)
  have maps: "entity_map team_pk (db_teams db) = entity_map team_pk (teams ?l)"
    "entity_map team_pk (teams ?r) = entity_map team_pk (db_teams peer)"
    using ok by (simp_all add: build_control_snapshot_def entity_map_sort keys_ok_def list_grants_def)
  have "team_state db' k = merge_key
      (family_state team_pk tt_updated_at TOMBSTONE_TEAM (teams ?r) (tombstones ?r) k) (team_state db k)"
    unfolding team_state_def
    by (rule merge_family_state [OF run _ plan_teams_def maps(1) plan_actions_team])
       (simp_all add: run_teams [OF run] identity_teams plan_control_merge_def Let_def build_control_snapshot_def)
  then show ?thesis
    by (simp add: team_state_def [of peer] family_state_cong [OF maps(2)])
       (simp add: build_control_snapshot_def)
qed

lemma merge_grant_state:
  assumes ok: "keys_ok db" "keys_ok peer" and merge: "merge_from fk peer db = (None, db')"
  shows "grant_state db' k = merge_key (grant_state peer k) (grant_state db k)"
proof -
  let ?l = "build_control_snapshot db" and ?r = "build_control_snapshot peer"
  have run: "run_writes fk (identity_writes (plan_control_merge ?l ?r)) db = (None, db')"
    using merge by (simp add: apply_control_merge_via_traits_def)
  have maps: "entity_map grant_id (db_grants db) = entity_map grant_id (grants ?l)"
    "entity_map grant_id (grants ?r) = entity_map grant_id (db_grants peer)"
    using ok by (simp_all add: build_control_snapshot_def entity_map_sort keys_ok_def list_grants_def)
  have "grant_state db' k = merge_key
      (family_state grant_id g_updated_at TOMBSTONE_GRANT (grants ?r) (tombstones ?r) k) (grant_state db k)"
    unfolding grant_state_def
    by (rule merge_family_state [OF run _ plan_grants_def maps(1) plan_actions_grant])
       (simp_all add: run_grants [OF run] identity_grants plan_control_merge_def Let_def build_control_snapshot_def)
  then show ?thesis
    by (simp add: grant_state_def [of peer] family_state_cong [OF maps(2)])
       (simp add: build_control_snapshot_def)
qed

definition peer_a :: control_db where
  "peer_a = sample_db\<lparr>db_teams := [\<lparr>team = \<lparr>team_id = ''t1'', t_name = ''ops'', t_description = [],
       t_created_at = 3\<rparr>, tt_updated_at = 3\<rparr>]\<rparr>"

definition peer_b :: control_db where
  "peer_b = empty_db\<lparr>db_tombstones := [\<lparr>entity_type = ''team'', entity_key = ''t1'', deleted_at = 9\<rparr>]\<rparr>"

lemma keys_ok_peers: "keys_ok peer_a" "keys_ok peer_b"
  by (simp_all add: keys_ok_def peer_a_def peer_b_def sample_db_def empty_db_def)

lemma merge_a_from_b:
  "fst (merge_from True peer_b peer_a) = None"
  "fst (merge_from True peer_a peer_b) = None"
  by code_simp+

text \<open>
  C9: merging a peer's snapshot leaves, for every user, team and grant, the newer of the two
  nodes' last events on it, creation or deletion (at equal times the entity is alive).
\<close>

theorem merge_keeps_newest_event:
  assumes "keys_ok db" and "keys_ok peer"
    and "apply_control_merge_via_traits fk
      (plan_control_merge (build_control_snapshot db) (build_control_snapshot peer)) db = (None, db')"
  shows "last_event (user_state db' k) = max (last_event (user_state peer k)) (last_event (user_state db k)) \<and>
    last_event (team_state db' k) = max (last_event (team_state peer k)) (last_event (team_state db k)) \<and>
    last_event (grant_state db' k) = max (last_event (grant_state peer k)) (last_event (grant_state db k))"
  by (simp add: merge_user_state [OF assms] merge_team_state [OF assms] merge_grant_state [OF assms]
      merge_key_last_event)

theorem merge_keeps_newest_event_witness:
  "last_event (team_state (snd (merge_from True peer_b peer_a)) ''t1'') = Some (9, False) \<and>
   last_event (user_state (snd (merge_from True peer_b peer_a)) ''u1'') = Some (5, True)"
proof -
  have "merge_from True peer_b peer_a = (None, snd (merge_from True peer_b peer_a))"
    using merge_a_from_b(1) by (metis prod.collapse)
  note merged = merge_keeps_newest_event [OF keys_ok_peers(1,2) this]
  have "last_event (team_state peer_b ''t1'') = Some (9, False)"
    "last_event (team_state peer_a ''t1'') = Some (3, True)"
    "last_event (user_state peer_b ''u1'') = None" "last_event (user_state peer_a ''u1'') = Some (5, True)"
    by code_simp+
  then show ?thesis by (simp add: merged)
qed

lemma merge_key_commute: "merge_key x y = merge_key y x"
  by (simp add: merge_key_closed max.commute)

text \<open>
  C12: two nodes that merge each other's snapshots agree on which users, teams and grants exist,
  with the same timestamps, and on which are deleted.
\<close>

theorem two_stores_converge:
  assumes "keys_ok a" and "keys_ok b"
    and "apply_control_merge_via_traits fk
      (plan_control_merge (build_control_snapshot a) (build_control_snapshot b)) a = (None, a')"
    and "apply_control_merge_via_traits fk
      (plan_control_merge (build_control_snapshot b) (build_control_snapshot a)) b = (None, b')"
  shows "user_state a' = user_state b' \<and> team_state a' = team_state b' \<and> grant_state a' = grant_state b'"
  using merge_user_state [OF assms(1-3)] merge_user_state [OF assms(2,1,4)]
    merge_team_state [OF assms(1-3)] merge_team_state [OF assms(2,1,4)]
    merge_grant_state [OF assms(1-3)] merge_grant_state [OF assms(2,1,4)]
  by (simp add: fun_eq_iff) (metis merge_key_commute)

theorem two_stores_converge_witness:
  "team_state (snd (merge_from True peer_b peer_a)) = team_state (snd (merge_from True peer_a peer_b))"
proof -
  have "merge_from True peer_b peer_a = (None, snd (merge_from True peer_b peer_a))"
    "merge_from True peer_a peer_b = (None, snd (merge_from True peer_a peer_b))"
    using merge_a_from_b by (metis prod.collapse)+
  from two_stores_converge [OF keys_ok_peers this] show ?thesis by blast
qed

lemma exec_keys_ok: "exec_write fk w db = Inr db' \<Longrightarrow> keys_ok db \<Longrightarrow> keys_ok db'"
  by (cases w) (auto simp: keys_ok_def store_op_defs distinct_upsert distinct_filter_rows distinct_remove
      split: if_splits)

lemma run_keys_ok: "keys_ok db \<Longrightarrow> keys_ok (snd (run_writes fk ws db))"
  by (induction ws arbitrary: db) (auto split: sum.splits intro: exec_keys_ok)

lemma merge_key_again: "merge_key r (merge_key r l) = merge_key r l"
  by (rule ctl.deliver_below) (simp_all add: merge_key_settled merge_key_last_event)

lemma snapshot_state:
  assumes "keys_ok db"
  shows "family_state user_pk tu_updated_at TOMBSTONE_USER (users (build_control_snapshot db))
      (tombstones (build_control_snapshot db)) = user_state db"
    and "family_state team_pk tt_updated_at TOMBSTONE_TEAM (teams (build_control_snapshot db))
      (tombstones (build_control_snapshot db)) = team_state db"
    and "family_state grant_id g_updated_at TOMBSTONE_GRANT (grants (build_control_snapshot db))
      (tombstones (build_control_snapshot db)) = grant_state db"
  using assms
  by (simp_all add: fun_eq_iff family_state_def user_state_def team_state_def grant_state_def
      build_control_snapshot_def entity_map_sort keys_ok_def list_grants_def)

text \<open>
  once a node has merged a peer's snapshot, planning against the same snapshot again finds
  nothing to do for users, teams and grants.
\<close>

theorem merge_is_idempotent:
  assumes "keys_ok db" and "keys_ok peer"
    and "apply_control_merge_via_traits fk
      (plan_control_merge (build_control_snapshot db) (build_control_snapshot peer)) db = (None, db')"
  shows "idle (plan_users (build_control_snapshot db') (build_control_snapshot peer)) \<and>
    idle (plan_teams (build_control_snapshot db') (build_control_snapshot peer)) \<and>
    idle (plan_grants (build_control_snapshot db') (build_control_snapshot peer))"
proof -
  have "keys_ok db'"
    using run_keys_ok [OF assms(1), of fk "identity_writes (plan_control_merge (build_control_snapshot db)
      (build_control_snapshot peer))"] assms(3)
    by (simp add: apply_control_merge_via_traits_def)
  then show ?thesis
    by (simp add: plan_users_def plan_teams_def plan_grants_def family_idle_iff snapshot_state assms(2)
        merge_user_state [OF assms] merge_team_state [OF assms] merge_grant_state [OF assms] merge_key_again)
qed

theorem merge_is_idempotent_witness:
  "idle (plan_teams (build_control_snapshot (snd (merge_from True peer_b peer_a))) (build_control_snapshot peer_b))"
proof -
  have "merge_from True peer_b peer_a = (None, snd (merge_from True peer_b peer_a))"
    using merge_a_from_b(1) by (metis prod.collapse)
  from merge_is_idempotent [OF keys_ok_peers this] show ?thesis by blast
qed

subsection \<open>Crash safety\<close>

text \<open>The credential table only loses rows to a deletion, and every tombstone is adopted before.\<close>

lemma run_writes_append:
  "run_writes fk (ws @ vs) db =
     (case run_writes fk ws db of (None, db') \<Rightarrow> run_writes fk vs db' | (Some e, db') \<Rightarrow> (Some e, db'))"
  by (induction ws arbitrary: db) (auto split: sum.splits)

lemma run_adopts:
  "run_writes fk (map AdoptTombstone ts) db = (None, db\<lparr>db_tombstones := fold adopt_row ts (db_tombstones db)\<rparr>)"
  by (induction ts arbitrary: db) (auto simp: apply_control_tombstone_def adopt_row_def)

definition clears_key :: "string \<Rightarrow> string \<Rightarrow> control_write \<Rightarrow> bool" where
  "clears_key et k w \<longleftrightarrow> (case w of ClearTombstone t \<Rightarrow> entity_type t = et \<and> entity_key t = k | _ \<Rightarrow> False)"

lemma tombs_effect_keeps:
  assumes "tombstone_map rows et k \<ge> Some d" and "\<not> clears_key et k w"
  shows "tombstone_map (tombs_effect w rows) et k \<ge> Some d"
  using assms
  by (cases w)
     (auto simp: tombstone_map_entity adopt_row_lookup clears_key_def entity_map_remove le_max_iff_disj)

lemma run_keeps_tombstone:
  assumes "tombstone_map (db_tombstones db) et k \<ge> Some d" and "list_all (\<lambda>w. \<not> clears_key et k w) ws"
  shows "tombstone_map (db_tombstones (snd (run_writes fk ws db))) et k \<ge> Some d"
  using assms
proof (induction ws arbitrary: db)
  case (Cons w ws)
  show ?case
  proof (cases "exec_write fk w db")
    case (Inr d')
    have "tombstone_map (db_tombstones d') et k \<ge> Some d"
      unfolding exec_tombs [OF Inr] using Cons.prems by (intro tombs_effect_keeps) simp_all
    with Inr Cons show ?thesis by simp
  qed (use Cons.prems in simp)
qed simp

lemma dead_key_actions:
  assumes "delete_local (resolve_key la ld ra rd)"
  obtains a d where "la = Some a" "a < d" "adopt_tombstone_at (resolve_key la ld ra rd) = Some d \<or>
      (adopt_tombstone_at (resolve_key la ld ra rd) = None \<and> ld = Some d)"
    "\<not> clear_tombstone (resolve_key la ld ra rd)"
proof -
  have dead: "is_dead (max la ra, max ld rd)"
    using assms resolve_key_alive by (metis KeyResolution.select_convs(3))
  with assms obtain a where a: "la = Some a" by (auto simp: resolve_key_dead)
  from dead obtain d where d: "max ld rd = Some d" and "max la ra < Some d"
    by (cases "max ld rd") (auto simp: is_dead_def)
  with a have "a < d" by (cases ra) auto
  moreover have "ld = Some d" if "\<not> ld < max ld rd" using that d by (auto simp: max_def split: if_splits)
  ultimately show ?thesis using that [OF a \<open>a < d\<close>] d by (auto simp: resolve_key_dead [OF dead])
qed

lemma adopted_tombstone:
  assumes "delete_local (cred_resolution l r k)"
  obtains a d where "map_option tc_updated_at (entity_map cred_pk (credentials l) k) = Some a" "a < d"
    "tombstone_map (fold adopt_row (adopt_tombstones (plan_control_merge l r)) (tombstones l))
       TOMBSTONE_CREDENTIAL k \<ge> Some d"
    "\<not> clear_tombstone (cred_resolution l r k)"
proof -
  let ?res = "cred_resolution l r k"
  from assms obtain a d where *: "map_option tc_updated_at (entity_map cred_pk (credentials l) k) = Some a"
    "a < d" "adopt_tombstone_at ?res = Some d \<or>
       (adopt_tombstone_at ?res = None \<and> tombstone_map (tombstones l) TOMBSTONE_CREDENTIAL k = Some d)"
    "\<not> clear_tombstone ?res"
    unfolding family_resolution_def by (rule dead_key_actions)
  have "tombstone_map (fold adopt_row (adopt_tombstones (plan_control_merge l r)) (tombstones l))
       TOMBSTONE_CREDENTIAL k \<ge> Some d"
    using *(3) by (auto simp: tombstone_map_entity fold_adopt_lookup plan_actions_credential adopt_action_def)
  with * show ?thesis using that by blast
qed

lemma no_clear_of_dead:
  assumes "\<not> clear_tombstone (cred_resolution l r k)" and "w \<in> set (identity_writes (plan_control_merge l r))"
  shows "\<not> clears_key TOMBSTONE_CREDENTIAL k w"
proof
  assume "clears_key TOMBSTONE_CREDENTIAL k w"
  with assms(2) obtain t where "t \<in> set (clear_tombstones (plan_control_merge l r))"
    "entity_type t = TOMBSTONE_CREDENTIAL" "entity_key t = k"
    by (auto simp: clears_key_def identity_writes_def)
  then have "filter (\<lambda>t. entity_type t = TOMBSTONE_CREDENTIAL \<and> entity_key t = k)
      (clear_tombstones (plan_control_merge l r)) \<noteq> []"
    by (auto simp: filter_empty_conv)
  with assms(1) show False by (simp add: plan_actions_credential clear_action_def)
qed

lemma identity_writes_adopts_first:
  obtains rest where "identity_writes p = map AdoptTombstone (adopt_tombstones p) @ rest"
  by (simp add: identity_writes_def)

text \<open>
  C18: whatever prefix of a merge has run when the node stops, a credential that the merge deletes
  and that is already gone has a tombstone newer than the row it replaces, so a peer that still
  holds the revoked credential cannot bring it back.
\<close>

theorem crash_leaves_tombstone:
  assumes "keys_ok db"
    and "k \<in> set (delete_credentials (plan_control_merge (build_control_snapshot db) remote))"
    and "get_credential k (snd (run_writes fk
      (take n (identity_writes (plan_control_merge (build_control_snapshot db) remote))) db)) = None"
  shows "\<exists>a d. map_option tc_updated_at (entity_map cred_pk (db_credentials db) k) = Some a \<and> a < d \<and>
    Some d \<le> tombstone_map (db_tombstones (snd (run_writes fk
      (take n (identity_writes (plan_control_merge (build_control_snapshot db) remote))) db)))
      TOMBSTONE_CREDENTIAL k"
proof -
  let ?l = "build_control_snapshot db"
  let ?p = "plan_control_merge ?l remote"
  have "delete_local (cred_resolution ?l remote k)"
    using assms(2)
    by (simp add: plan_control_merge_def Let_def plan_credentials_def plan_family_deletes kept_resolution_def)
  then obtain a d where *: "map_option tc_updated_at (entity_map cred_pk (credentials ?l) k) = Some a" "a < d"
    "tombstone_map (fold adopt_row (adopt_tombstones ?p) (tombstones ?l)) TOMBSTONE_CREDENTIAL k \<ge> Some d"
    "\<not> clear_tombstone (cred_resolution ?l remote k)"
    by (rule adopted_tombstone)
  have alive: "map_option tc_updated_at (entity_map cred_pk (db_credentials db) k) = Some a"
    using *(1) assms(1) by (simp add: build_control_snapshot_def entity_map_sort keys_ok_def)
  obtain rest where split: "identity_writes ?p = map AdoptTombstone (adopt_tombstones ?p) @ rest"
    by (rule identity_writes_adopts_first)
  have "\<not> n \<le> length (adopt_tombstones ?p)"
    using assms(3) alive by (auto simp: split take_map run_adopts get_credential_def)
  then have "snd (run_writes fk (take n (identity_writes ?p)) db) =
      snd (run_writes fk (take (n - length (adopt_tombstones ?p)) rest)
        (db\<lparr>db_tombstones := fold adopt_row (adopt_tombstones ?p) (db_tombstones db)\<rparr>))"
    by (simp add: split run_writes_append run_adopts)
  moreover have "list_all (\<lambda>w. \<not> clears_key TOMBSTONE_CREDENTIAL k w)
      (take (n - length (adopt_tombstones ?p)) rest)"
    using no_clear_of_dead [OF *(4)] by (auto simp: split list_all_iff dest!: in_set_takeD)
  ultimately show ?thesis
    using *(2,3) alive run_keeps_tombstone [of d "db\<lparr>db_tombstones := fold adopt_row (adopt_tombstones ?p) (db_tombstones db)\<rparr>"
        TOMBSTONE_CREDENTIAL k "take (n - length (adopt_tombstones ?p)) rest" fk]
    by (auto simp: build_control_snapshot_def)
qed

definition revoked_key :: TimestampedCredential where
  "revoked_key = \<lparr>credential = \<lparr>access_key_id = ''AK'', secret_access_key = ''s'', c_description = [],
     c_created_at = 2, active = True, c_user_id = ''u1''\<rparr>, tc_updated_at = 2\<rparr>"

definition holder_db :: control_db where
  "holder_db = empty_db\<lparr>db_credentials := [revoked_key]\<rparr>"

definition revoker_db :: control_db where
  "revoker_db = empty_db\<lparr>db_tombstones := [\<lparr>entity_type = ''credential'', entity_key = ''AK'', deleted_at = 6\<rparr>]\<rparr>"

theorem crash_leaves_tombstone_witness:
  "\<exists>a d. map_option tc_updated_at (entity_map cred_pk (db_credentials holder_db) ''AK'') = Some a \<and> a < d \<and>
    Some d \<le> tombstone_map (db_tombstones (snd (run_writes True
      (take 2 (identity_writes (plan_control_merge (build_control_snapshot holder_db)
        (build_control_snapshot revoker_db)))) holder_db))) TOMBSTONE_CREDENTIAL ''AK''"
proof (rule crash_leaves_tombstone)
  show "keys_ok holder_db" by (simp add: keys_ok_def holder_db_def empty_db_def)
  show "''AK'' \<in> set (delete_credentials (plan_control_merge (build_control_snapshot holder_db)
      (build_control_snapshot revoker_db)))"
    by code_simp
  show "get_credential ''AK'' (snd (run_writes True (take 2 (identity_writes (plan_control_merge
      (build_control_snapshot holder_db) (build_control_snapshot revoker_db)))) holder_db)) = None"
    by code_simp
qed

subsection \<open>The node's own identity\<close>

definition touches_server_key :: "string \<Rightarrow> control_write \<Rightarrow> bool" where
  "touches_server_key k w \<longleftrightarrow>
     (case w of UpsertServerConfig x \<Rightarrow> sc_key x = k | DeleteServerConfig k' \<Rightarrow> k' = k | _ \<Rightarrow> False)"

lemma exec_server_config:
  "exec_write fk w db = Inr db' \<Longrightarrow> \<not> touches_server_key k w \<Longrightarrow> get_server_config k db' = get_server_config k db"
  by (cases w) (auto simp: store_op_defs touches_server_key_def get_server_config_def entity_map_upsert
      entity_map_remove split: if_splits)

lemma run_server_config:
  "list_all (\<lambda>w. \<not> touches_server_key k w) ws \<Longrightarrow>
   get_server_config k (snd (run_writes fk ws db)) = get_server_config k db"
  by (induction ws arbitrary: db) (auto split: sum.splits simp: exec_server_config)

lemma metadata_server_config: "db_server_config (log_metadata w db) = db_server_config db"
  by (cases w) (auto simp: log_metadata_def store_op_defs delete_multipart_upload_def)

lemma fold_metadata_server_config: "db_server_config (fold log_metadata ws db) = db_server_config db"
  by (induction ws arbitrary: db) (simp_all add: metadata_server_config)

lemma plan_keeps_node_id:
  assumes "w \<in> set (identity_writes (plan_control_merge l r))"
  shows "\<not> touches_server_key NODE_ID_KEY w"
proof
  assume "touches_server_key NODE_ID_KEY w"
  with assms consider
    x where "x \<in> set (upsert_server_configs (plan_control_merge l r))" "sc_key x = NODE_ID_KEY"
  | "NODE_ID_KEY \<in> set (delete_server_configs (plan_control_merge l r))"
    by (auto simp: identity_writes_def touches_server_key_def)
  then show False
  proof cases
    case 1
    then show False
      using fp_upserts_key by (fastforce simp: plan_control_merge_def Let_def plan_server_configs_def
          is_node_local_server_config_key_def)
  next
    case 2
    then show False
      by (simp add: plan_control_merge_def Let_def plan_server_configs_def plan_family_deletes
          kept_resolution_def is_node_local_server_config_key_def no_resolution_def)
  qed
qed

text \<open>
  no snapshot a peer can send, well-formed or not, changes the node id: a reconcile round
  leaves it as it was, also when it stops with an error.
\<close>

theorem reconcile_keeps_node_id:
  "get_server_config NODE_ID_KEY (snd (reconcile_peer_control fk remote db)) = get_server_config NODE_ID_KEY db"
proof -
  let ?p = "plan_control_merge (build_control_snapshot db) remote"
  have "get_server_config NODE_ID_KEY (snd (run_writes fk (identity_writes ?p) db)) =
      get_server_config NODE_ID_KEY db"
    by (rule run_server_config) (simp add: list_all_iff plan_keeps_node_id)
  then show ?thesis
    by (auto simp: reconcile_peer_control_def Let_def apply_control_merge_via_traits_def get_server_config_def
        fold_metadata_server_config split: prod.splits option.splits)
qed

subsection \<open>Where a merge gets stuck, and what it brings back\<close>

definition alice :: "string \<Rightarrow> timestamp \<Rightarrow> TimestampedUser" where
  "alice uid t = \<lparr>user = \<lparr>user_id = uid, username = ''alice'', u_description = [], is_root = False,
     u_created_at = t\<rparr>, tu_updated_at = t\<rparr>"

text \<open>A node that still has the first \<open>alice\<close>; a peer that deleted and re-created the user.\<close>

definition lagging_db :: control_db where
  "lagging_db = empty_db\<lparr>db_users := [alice ''u1'' 1]\<rparr>"

definition recreated_db :: control_db where
  "recreated_db = empty_db\<lparr>db_users := [alice ''u2'' 5],
     db_tombstones := [\<lparr>entity_type = ''user'', entity_key = ''u1'', deleted_at = 4\<rparr>]\<rparr>"

definition round_with :: "control_db \<Rightarrow> control_db \<Rightarrow> control_db" where
  "round_with peer db = snd (reconcile_peer_control True (build_control_snapshot peer) db)"

lemma stuck_after_one:
  "round_with recreated_db lagging_db = lagging_db\<lparr>db_tombstones := db_tombstones recreated_db\<rparr>"
  "round_with recreated_db (lagging_db\<lparr>db_tombstones := db_tombstones recreated_db\<rparr>) =
     lagging_db\<lparr>db_tombstones := db_tombstones recreated_db\<rparr>"
  by code_simp+

lemma stuck_after_n:
  "(round_with recreated_db ^^ Suc n) lagging_db = lagging_db\<lparr>db_tombstones := db_tombstones recreated_db\<rparr>"
  by (induction n) (simp_all add: stuck_after_one)


definition ghost_db :: control_db where
  "ghost_db = empty_db\<lparr>db_users := [alice ''u1'' 1], db_credentials := [revoked_key]\<rparr>"

definition user_deleted_db :: control_db where
  "user_deleted_db = empty_db\<lparr>db_tombstones := [\<lparr>entity_type = ''user'', entity_key = ''u1'', deleted_at = 4\<rparr>]\<rparr>"

text \<open>
  a credential can outlive its user: the planner filters attachments by their parents but
  not credentials, so a node that has deleted the user adopts the credential a stale peer still
  holds, and hands it back to that peer after the peer has deleted both.
\<close>

theorem credential_outlives_user:
  "let node = round_with ghost_db user_deleted_db; peer = round_with node (round_with user_deleted_db ghost_db)
   in get_user ''u1'' node = None \<and> get_credential ''AK'' node = Some (credential revoked_key) \<and>
      get_user ''u1'' peer = None \<and> get_credential ''AK'' peer = Some (credential revoked_key)"
  by code_simp

subsection \<open>References are never violated\<close>

definition is_fk :: "store_error \<Rightarrow> bool" where
  "is_fk e \<longleftrightarrow> (case e of ForeignKeyViolation _ \<Rightarrow> True | _ \<Rightarrow> False)"

fun is_child :: "control_write \<Rightarrow> bool" where
  "is_child (UpsertUserGrant _) = True"
| "is_child (UpsertTeamGrant _) = True"
| "is_child (UpsertTeamMember _) = True"
| "is_child _ = False"

lemma exec_no_fk: "\<not> is_child w \<Longrightarrow> exec_write fk w db = Inl e \<Longrightarrow> \<not> is_fk e"
  by (cases w) (auto simp: store_op_defs is_fk_def split: if_splits)

lemma run_no_fk:
  assumes "\<And>w. w \<in> set ws \<Longrightarrow> \<not> is_child w" and "fst (run_writes fk ws db) = Some e"
  shows "\<not> is_fk e"
  using assms
proof (induction ws arbitrary: db)
  case (Cons w ws)
  then show ?case by (auto split: sum.splits dest: exec_no_fk)
qed simp

text \<open>The parents a child statement refers to.\<close>

fun parents_present :: "control_db \<Rightarrow> control_write \<Rightarrow> bool" where
  "parents_present d (UpsertUserGrant x) \<longleftrightarrow>
     has_key user_pk (ug_user_id x) (db_users d) \<and> has_key grant_id (ug_grant_id x) (db_grants d)"
| "parents_present d (UpsertTeamGrant x) \<longleftrightarrow>
     has_key team_pk (tg_team_id x) (db_teams d) \<and> has_key grant_id (tg_grant_id x) (db_grants d)"
| "parents_present d (UpsertTeamMember x) \<longleftrightarrow>
     has_key team_pk (tm_team_id x) (db_teams d) \<and> has_key user_pk (tm_user_id x) (db_users d)"
| "parents_present d _ \<longleftrightarrow> False"

lemma exec_child:
  assumes "parents_present d w"
  obtains d' where "exec_write fk w d = Inr d'" "\<And>v. parents_present d' v = parents_present d v"
proof -
  from assms obtain d' where ex: "exec_write fk w d = Inr d'"
    and tabs: "db_users d' = db_users d" "db_teams d' = db_teams d" "db_grants d' = db_grants d"
    by (cases w) (auto simp: store_op_defs)
  have "parents_present d' v = parents_present d v" for v
    by (cases v) (simp_all add: tabs)
  with ex show ?thesis using that by blast
qed

lemma run_children: "list_all (parents_present d) ws \<Longrightarrow> fst (run_writes fk ws d) = None"
proof (induction ws arbitrary: d)
  case (Cons w ws)
  then have "parents_present d w" by simp
  then obtain d' where "exec_write fk w d = Inr d'" "\<And>v. parents_present d' v = parents_present d v"
    using exec_child [of d w fk] by blast
  with Cons show ?case by (simp add: list_all_iff)
qed simp

lemma has_key_fold_upsert:
  "has_key kf k (fold (upsert_row kf) xs rows) \<longleftrightarrow> k \<in> kf ` set xs \<or> has_key kf k rows"
  by (induction xs arbitrary: rows) (auto simp: has_key_upsert)

lemma alive_parent_present:
  assumes alive: "k \<in> set (fp_alive (plan_family kf tf et (\<lambda>_. True) (\<lambda>_. True) l r lt rt))"
    and same: "entity_map kf rows = entity_map kf l"
  shows "has_key kf k (fold (upsert_row kf) (fp_upserts (plan_family kf tf et (\<lambda>_. True) (\<lambda>_. True) l r lt rt)) rows)"
proof (cases "entity_map kf l k")
  case None
  have res: "kr_alive (family_resolution kf tf et l r lt rt k)"
    using alive unfolding plan_family_alive by (simp add: kept_resolution_def)
  with None obtain x where x: "entity_map kf r k = Some x"
    by (cases "entity_map kf r k")
       (auto simp: family_resolution_def resolve_key_def Let_def split: if_splits)
  with None res have "upsert_from_remote (family_resolution kf tf et l r lt rt k)"
    by (auto simp: family_resolution_def resolve_key_def Let_def split: if_splits)
  with x have "find (\<lambda>x. kf x = k) (fp_upserts (plan_family kf tf et (\<lambda>_. True) (\<lambda>_. True) l r lt rt)) = Some x"
    unfolding plan_family_upsert_find by (simp add: kept_resolution_def)
  then show ?thesis by (auto simp: has_key_fold_upsert find_Some_iff)
next
  case (Some x)
  then have "has_key kf k rows" by (simp add: has_key_entity_map same)
  then show ?thesis by (simp add: has_key_fold_upsert)
qed

text \<open>The three phases of the identity part, seen from the references.\<close>

definition parent_writes :: "ControlMergePlan \<Rightarrow> control_write list" where
  "parent_writes p = map AdoptTombstone (adopt_tombstones p) @ map UpsertCredential (upsert_credentials p) @
     map UpsertUser (upsert_users p) @ map UpsertTeam (upsert_teams p) @ map UpsertGrant (upsert_grants p)"

definition child_writes :: "ControlMergePlan \<Rightarrow> control_write list" where
  "child_writes p = map UpsertUserGrant (upsert_user_grants p) @ map UpsertTeamGrant (upsert_team_grants p) @
     map UpsertTeamMember (upsert_team_members p)"

lemma identity_writes_phases:
  obtains post where "identity_writes p = parent_writes p @ child_writes p @ post"
    and "\<And>w. w \<in> set post \<Longrightarrow> \<not> is_child w"
proof
  show "identity_writes p = parent_writes p @ child_writes p @
      drop (length (parent_writes p @ child_writes p)) (identity_writes p)"
    by (simp add: identity_writes_def parent_writes_def child_writes_def)
  show "\<not> is_child w" if "w \<in> set (drop (length (parent_writes p @ child_writes p)) (identity_writes p))" for w
    using that by (auto simp: identity_writes_def parent_writes_def child_writes_def)
qed

lemma run_phases_no_fk:
  assumes "\<And>w. w \<in> set pre \<Longrightarrow> \<not> is_child w" and "\<And>w. w \<in> set post \<Longrightarrow> \<not> is_child w"
    and ch: "\<And>d. run_writes fk pre db = (None, d) \<Longrightarrow> list_all (parents_present d) ch"
    and err: "fst (run_writes fk (pre @ ch @ post) db) = Some e"
  shows "\<not> is_fk e"
proof (cases "run_writes fk pre db")
  case (Pair err' d)
  show ?thesis
  proof (cases err')
    case (Some e')
    with err Pair have "fst (run_writes fk pre db) = Some e" by (simp add: run_writes_append)
    with assms(1) show ?thesis by (rule run_no_fk)
  next
    case None
    with Pair ch have "fst (run_writes fk ch d) = None" by (simp add: run_children)
    then obtain d' where "run_writes fk ch d = (None, d')" by (metis prod.collapse)
    with err Pair None have "fst (run_writes fk post d') = Some e" by (simp add: run_writes_append)
    with assms(2) show ?thesis by (rule run_no_fk)
  qed
qed

lemma children_parents_present:
  fixes l r :: ControlSnapshot
  defines "p \<equiv> plan_control_merge l r"
  assumes users: "db_users d = fold (upsert_row user_pk) (upsert_users p) urows"
      "entity_map user_pk urows = entity_map user_pk (users l)"
    and teams: "db_teams d = fold (upsert_row team_pk) (upsert_teams p) trows"
      "entity_map team_pk trows = entity_map team_pk (teams l)"
    and grants: "db_grants d = fold (upsert_row grant_id) (upsert_grants p) grows"
      "entity_map grant_id grows = entity_map grant_id (grants l)"
  shows "list_all (parents_present d) (child_writes p)"
proof -
  have u: "has_key user_pk k (db_users d)" if "k \<in> set (fp_alive (plan_users l r))" for k
    using alive_parent_present [OF that [unfolded plan_users_def] users(2)] users(1)
    by (simp add: p_def plan_control_merge_def Let_def plan_users_def)
  have t: "has_key team_pk k (db_teams d)" if "k \<in> set (fp_alive (plan_teams l r))" for k
    using alive_parent_present [OF that [unfolded plan_teams_def] teams(2)] teams(1)
    by (simp add: p_def plan_control_merge_def Let_def plan_teams_def)
  have g: "has_key grant_id k (db_grants d)" if "k \<in> set (fp_alive (plan_grants l r))" for k
    using alive_parent_present [OF that [unfolded plan_grants_def] grants(2)] grants(1)
    by (simp add: p_def plan_control_merge_def Let_def plan_grants_def)
  have "ug_user_id x \<in> set (fp_alive (plan_users l r)) \<and> ug_grant_id x \<in> set (fp_alive (plan_grants l r))"
    if "x \<in> set (upsert_user_grants p)" for x
    using that fp_upserts_admit by (fastforce simp: p_def plan_control_merge_def Let_def plan_user_grants_def)
  moreover have "tg_team_id x \<in> set (fp_alive (plan_teams l r)) \<and> tg_grant_id x \<in> set (fp_alive (plan_grants l r))"
    if "x \<in> set (upsert_team_grants p)" for x
    using that fp_upserts_admit by (fastforce simp: p_def plan_control_merge_def Let_def plan_team_grants_def)
  moreover have "tm_team_id x \<in> set (fp_alive (plan_teams l r)) \<and> tm_user_id x \<in> set (fp_alive (plan_users l r))"
    if "x \<in> set (upsert_team_members p)" for x
    using that fp_upserts_admit by (fastforce simp: p_def plan_control_merge_def Let_def plan_team_members_def)
  ultimately show ?thesis using u t g unfolding child_writes_def list_all_iff by auto
qed



end
