(* ===== verification/Cluster_State.thy ===== *)
theory Cluster_State
  imports Arca_Prelude
begin

section \<open>A node's view of the cluster (arca-core/src/cluster.rs)\<close>

text \<open>
  Peers and their eligibility, the admission gate and the acknowledgement quorum, the worker
  leader, the capacity minimum, the per-peer synchronisation status with rewind detection, the
  guards of tombstone and blob garbage collection, and the stuck-entry tracker of
  anti_entropy.rs. The locks around the fields are taken for one field access each, so a method
  is one transition of the record.
\<close>

record PeerNode =
  peer_id :: string
  endpoint :: string
  alive :: bool
  last_seen :: "timestamp option"
  authenticated :: bool
  config_ok :: bool
  disk_total :: "nat option"
  disk_available :: "nat option"
  max_seq :: "nat option"

definition eligible :: "PeerNode \<Rightarrow> bool" where
  "eligible p \<longleftrightarrow> alive p \<and> authenticated p \<and> config_ok p"

definition tombstone_gc_blockers :: "PeerNode list \<Rightarrow> timestamp \<Rightarrow> int \<Rightarrow> PeerNode list" where
  "tombstone_gc_blockers ps now grace =
     filter (\<lambda>p. \<not> alive p \<and> (case last_seen p of None \<Rightarrow> True | Some seen \<Rightarrow> seen < now - grace)) ps"

record PeerSyncStatus =
  hwm :: nat
  hwm_at :: "timestamp option"
  last_reconcile :: "timestamp option"
  first_pass_done :: bool
  skipped_entries :: nat

definition default_sync :: PeerSyncStatus where
  "default_sync = \<lparr>hwm = 0, hwm_at = None, last_reconcile = None, first_pass_done = False, skipped_entries = 0\<rparr>"

definition sync_rewound :: "nat \<Rightarrow> timestamp option \<Rightarrow> nat option \<Rightarrow> timestamp option \<Rightarrow> bool" where
  "sync_rewound mark at peer_max_seq peer_last_seen =
     (case (peer_max_seq, peer_last_seen) of
        (Some ms, Some seen) \<Rightarrow>
          if ms \<ge> mark then False
          else (case at of Some a \<Rightarrow> seen > a | None \<Rightarrow> True)
      | _ \<Rightarrow> False)"

definition min_opt :: "nat option \<Rightarrow> nat option \<Rightarrow> nat option" where
  "min_opt a b =
     (case (a, b) of
        (Some x, Some y) \<Rightarrow> Some (min x y)
      | (Some x, None) \<Rightarrow> Some x
      | (None, Some x) \<Rightarrow> Some x
      | (None, None) \<Rightarrow> None)"

datatype WriteGate = Open | NoQuorum nat nat | SizeExceeded nat nat

definition quorum_satisfied :: "nat \<Rightarrow> nat option \<Rightarrow> bool" where
  "quorum_satisfied acks wq = (case wq of None \<Rightarrow> True | Some q \<Rightarrow> acks \<ge> q)"

text \<open>The configured quorum (config.rs): the majority of the configured size in quorum mode.\<close>

datatype ClusterMode = Quorum | Available

definition config_write_quorum :: "ClusterMode \<Rightarrow> nat option \<Rightarrow> nat option" where
  "config_write_quorum mode csize =
     (case mode of Quorum \<Rightarrow> map_option (\<lambda>n. n div 2 + 1) csize | Available \<Rightarrow> None)"

record ClusterState =
  node_id :: string
  write_quorum :: "nat option"
  cluster_size :: "nat option"
  peers :: "PeerNode list"
  local_endpoint :: "string option"
  config_fingerprint :: "string option"
  config_fingerprint_v2 :: "string option"
  tombstone_gc_blocked :: bool
  sync :: "string \<rightharpoonup> PeerSyncStatus"

definition new_state :: "string \<Rightarrow> nat option \<Rightarrow> nat option \<Rightarrow> ClusterState" where
  "new_state nid wq csize =
     \<lparr>node_id = nid, write_quorum = wq, cluster_size = csize, peers = [], local_endpoint = None,
      config_fingerprint = None, config_fingerprint_v2 = None, tombstone_gc_blocked = False,
      sync = Map.empty\<rparr>"

definition set_config_fingerprint :: "string \<Rightarrow> ClusterState \<Rightarrow> ClusterState" where
  "set_config_fingerprint fp c = c\<lparr>config_fingerprint := Some fp\<rparr>"

definition set_config_fingerprint_v2 :: "string \<Rightarrow> ClusterState \<Rightarrow> ClusterState" where
  "set_config_fingerprint_v2 fp c = c\<lparr>config_fingerprint_v2 := Some fp\<rparr>"

definition set_local_endpoint :: "string \<Rightarrow> ClusterState \<Rightarrow> ClusterState" where
  "set_local_endpoint e c = c\<lparr>local_endpoint := Some e\<rparr>"

definition set_tombstone_gc_blocked :: "bool \<Rightarrow> ClusterState \<Rightarrow> ClusterState" where
  "set_tombstone_gc_blocked b c = c\<lparr>tombstone_gc_blocked := b\<rparr>"

definition min_disk :: "ClusterState \<Rightarrow> nat option \<Rightarrow> nat option \<Rightarrow> nat option \<times> nat option" where
  "min_disk c local_total local_available =
     fold (\<lambda>p (t, a). (min_opt t (disk_total p), min_opt a (disk_available p)))
       (filter eligible (peers c)) (local_total, local_available)"

definition set_peers :: "PeerNode list \<Rightarrow> ClusterState \<Rightarrow> ClusterState" where
  "set_peers ps c =
     c\<lparr>sync := (\<lambda>i. if list_ex (\<lambda>p. peer_id p = i) ps then sync c i else None), peers := ps\<rparr>"

definition peer_sync :: "ClusterState \<Rightarrow> string \<Rightarrow> PeerSyncStatus" where
  "peer_sync c i = (case sync c i of None \<Rightarrow> default_sync | Some s \<Rightarrow> s)"

definition set_sync_hwm :: "string \<Rightarrow> nat \<Rightarrow> timestamp \<Rightarrow> ClusterState \<Rightarrow> ClusterState" where
  "set_sync_hwm i h at c = c\<lparr>sync := (sync c)(i \<mapsto> (peer_sync c i)\<lparr>hwm := h, hwm_at := Some at\<rparr>)\<rparr>"

definition reset_sync_hwm :: "string \<Rightarrow> ClusterState \<Rightarrow> ClusterState" where
  "reset_sync_hwm i c = c\<lparr>sync := (sync c)(i \<mapsto> (peer_sync c i)\<lparr>hwm := 0, hwm_at := None\<rparr>)\<rparr>"

definition record_reconcile_complete :: "string \<Rightarrow> timestamp \<Rightarrow> ClusterState \<Rightarrow> ClusterState" where
  "record_reconcile_complete i at c =
     c\<lparr>sync := (sync c)(i \<mapsto> (peer_sync c i)\<lparr>last_reconcile := Some at, first_pass_done := True\<rparr>)\<rparr>"

definition record_skipped_entry :: "string \<Rightarrow> ClusterState \<Rightarrow> ClusterState" where
  "record_skipped_entry i c =
     c\<lparr>sync := (sync c)(i \<mapsto> (peer_sync c i)\<lparr>skipped_entries := skipped_entries (peer_sync c i) + 1\<rparr>)\<rparr>"

definition is_syncing :: "ClusterState \<Rightarrow> bool" where
  "is_syncing c =
     list_ex (\<lambda>p. \<not> (case sync c (peer_id p) of None \<Rightarrow> False | Some s \<Rightarrow> first_pass_done s))
       (filter eligible (peers c))"

definition live_peer_count :: "ClusterState \<Rightarrow> nat" where
  "live_peer_count c = length (filter alive (peers c))"

definition live_node_count :: "ClusterState \<Rightarrow> nat" where
  "live_node_count c = live_peer_count c + 1"

definition eligible_peer_count :: "ClusterState \<Rightarrow> nat" where
  "eligible_peer_count c = length (filter eligible (peers c))"

definition eligible_node_count :: "ClusterState \<Rightarrow> nat" where
  "eligible_node_count c = eligible_peer_count c + 1"

definition write_gate :: "ClusterState \<Rightarrow> WriteGate" where
  "write_gate c =
     (case write_quorum c of
        None \<Rightarrow> Open
      | Some q \<Rightarrow>
          let el = eligible_node_count c
          in case cluster_size c of
               Some csize \<Rightarrow>
                 if el > csize then SizeExceeded el csize
                 else if el < q then NoQuorum el q else Open
             | None \<Rightarrow> if el < q then NoQuorum el q else Open)"

definition has_write_quorum :: "ClusterState \<Rightarrow> bool" where
  "has_write_quorum c \<longleftrightarrow> write_gate c = Open"

definition is_worker_leader :: "ClusterState \<Rightarrow> bool" where
  "is_worker_leader c = list_all (\<lambda>p. peer_id p > node_id c) (filter eligible (peers c))"

record ClusterSnapshot =
  s_node_id :: string
  s_local_endpoint :: "string option"
  s_write_quorum :: "nat option"
  s_has_write_quorum :: bool
  s_live_node_count :: nat
  s_eligible_node_count :: nat
  s_size_exceeded :: bool
  s_tombstone_gc_blocked :: bool
  s_worker_leader :: bool
  s_syncing :: bool
  s_peers :: "PeerNode list"

definition snapshot :: "ClusterState \<Rightarrow> ClusterSnapshot" where
  "snapshot c =
     \<lparr>s_node_id = node_id c, s_local_endpoint = local_endpoint c, s_write_quorum = write_quorum c,
      s_has_write_quorum = (write_gate c = Open),
      s_live_node_count = length (filter alive (peers c)) + 1,
      s_eligible_node_count = length (filter eligible (peers c)) + 1,
      s_size_exceeded = (case write_gate c of SizeExceeded _ _ \<Rightarrow> True | _ \<Rightarrow> False),
      s_tombstone_gc_blocked = tombstone_gc_blocked c,
      s_worker_leader = is_worker_leader c, s_syncing = is_syncing c, s_peers = peers c\<rparr>"

text \<open>
  Blob garbage collection. \<^verbatim>\<open>now.duration_since(mtime)\<close> fails for a file from the future, which is then
  kept.
\<close>

definition plan_blob_gc :: "(string \<times> int) list \<Rightarrow> string set \<Rightarrow> int \<Rightarrow> int \<Rightarrow> string list" where
  "plan_blob_gc on_disk referenced now grace =
     map fst (filter (\<lambda>(i, mtime). i \<notin> referenced \<and> (if mtime \<le> now then now - mtime \<ge> grace else False)) on_disk)"

subsection \<open>The stuck-entry tracker (anti_entropy.rs)\<close>

definition STUCK_SKIP_AFTER :: nat where
  "STUCK_SKIP_AFTER = 5"

type_synonym stuck_tracker = "string \<rightharpoonup> nat \<times> nat"

definition observe :: "string \<Rightarrow> nat option \<Rightarrow> stuck_tracker \<Rightarrow> bool \<times> stuck_tracker" where
  "observe i failed_seq tr =
     (case failed_seq of
        None \<Rightarrow> (False, tr(i := None))
      | Some s \<Rightarrow>
          let entry = (case tr i of None \<Rightarrow> (s, 0) | Some e \<Rightarrow> e)
          in if fst entry \<noteq> s then (False, tr(i \<mapsto> (s, 1)))
             else if snd entry + 1 \<ge> STUCK_SKIP_AFTER then (True, tr(i := None))
             else (False, tr(i \<mapsto> (s, snd entry + 1))))"

subsection \<open>Quorums\<close>

lemma write_gate_open_iff:
  "write_gate c = Open \<longleftrightarrow>
     (case write_quorum c of None \<Rightarrow> True
      | Some q \<Rightarrow> q \<le> eligible_node_count c \<and>
          (case cluster_size c of None \<Rightarrow> True | Some n \<Rightarrow> eligible_node_count c \<le> n))"
  by (auto simp: write_gate_def Let_def split: option.splits)

text \<open>
  C17: in quorum mode two acknowledged writes always share a node: in a membership no larger than
  the configured cluster size, any two sets of nodes that satisfy the configured quorum meet.
\<close>

theorem quorum_writes_intersect:
  assumes "finite members" and "card members \<le> n"
    and "a \<subseteq> members" and "b \<subseteq> members"
    and "quorum_satisfied (card a) (config_write_quorum Quorum (Some n))"
    and "quorum_satisfied (card b) (config_write_quorum Quorum (Some n))"
  shows "a \<inter> b \<noteq> {}"
proof
  assume "a \<inter> b = {}"
  then have "card a + card b \<le> card members"
    using assms(1,3,4) by (metis Un_least card_Un_disjoint card_mono finite_subset)
  with assms(2,5,6) show False by (simp add: quorum_satisfied_def config_write_quorum_def)
qed

theorem quorum_writes_intersect_witness: "{1::nat, 2} \<inter> {2, 3} \<noteq> {}"
  by (rule quorum_writes_intersect [where members = "{1, 2, 3}" and n = 3])
     (simp_all add: quorum_satisfied_def config_write_quorum_def)

text \<open>
  the size guard is what makes this safe: as soon as the eligible nodes outnumber the
  configured size the write gate is closed, and an open gate means the quorum can be reached.
\<close>

theorem open_gate_bounds_membership:
  assumes "write_quorum c = config_write_quorum Quorum (Some n)" and "cluster_size c = Some n"
  shows "has_write_quorum c \<longleftrightarrow> n div 2 < eligible_node_count c \<and> eligible_node_count c \<le> n"
  using assms by (auto simp: has_write_quorum_def write_gate_open_iff config_write_quorum_def)

definition sample_peer :: "string \<Rightarrow> PeerNode" where
  "sample_peer i = \<lparr>peer_id = i, endpoint = ''https://'' @ i, alive = True, last_seen = Some 10,
     authenticated = True, config_ok = True, disk_total = Some 100, disk_available = Some 40, max_seq = Some 7\<rparr>"

definition sample_state :: ClusterState where
  "sample_state = set_peers [sample_peer ''b'', sample_peer ''c'']
     (new_state ''a'' (config_write_quorum Quorum (Some 3)) (Some 3))"

theorem open_gate_bounds_membership_witness:
  "has_write_quorum sample_state \<and> eligible_node_count sample_state = 3"
  using open_gate_bounds_membership [of sample_state 3]
  by (simp add: sample_state_def set_peers_def new_state_def eligible_node_count_def eligible_peer_count_def
      eligible_def sample_peer_def)

subsection \<open>Peers that are not eligible\<close>

text \<open>
  a peer that did not prove the cluster secret, or whose configuration differs, or that is
  dead has no say: adding it to the peer list changes neither the write gate, nor the leader,
  nor the capacity, nor readiness.
\<close>

theorem ineligible_peer_is_inert:
  assumes "\<not> eligible p"
  shows "write_gate (c\<lparr>peers := ps @ p # qs\<rparr>) = write_gate (c\<lparr>peers := ps @ qs\<rparr>) \<and>
    is_worker_leader (c\<lparr>peers := ps @ p # qs\<rparr>) = is_worker_leader (c\<lparr>peers := ps @ qs\<rparr>) \<and>
    min_disk (c\<lparr>peers := ps @ p # qs\<rparr>) t a = min_disk (c\<lparr>peers := ps @ qs\<rparr>) t a \<and>
    is_syncing (c\<lparr>peers := ps @ p # qs\<rparr>) = is_syncing (c\<lparr>peers := ps @ qs\<rparr>)"
  using assms
  by (simp add: write_gate_def eligible_node_count_def eligible_peer_count_def is_worker_leader_def
      min_disk_def is_syncing_def Let_def split: option.splits)

theorem ineligible_peer_is_inert_witness:
  "write_gate (sample_state\<lparr>peers := [(sample_peer ''0'')\<lparr>authenticated := False\<rparr>]\<rparr>) =
   write_gate (sample_state\<lparr>peers := []\<rparr>)"
  using ineligible_peer_is_inert [where p = "(sample_peer ''0'')\<lparr>authenticated := False\<rparr>"
      and c = sample_state and ps = "[]" and qs = "[]"]
  by (simp add: eligible_def)

subsection \<open>The worker leader\<close>

text \<open>What a node sees: its eligible peers are the other members.\<close>

definition sees :: "string set \<Rightarrow> ClusterState \<Rightarrow> bool" where
  "sees members c \<longleftrightarrow> peer_id ` set (filter eligible (peers c)) = members - {node_id c}"

lemma leader_iff_least:
  "sees members c \<Longrightarrow> is_worker_leader c \<longleftrightarrow> (\<forall>i \<in> members. i \<noteq> node_id c \<longrightarrow> node_id c < i)"
proof -
  assume "sees members c"
  moreover have "is_worker_leader c \<longleftrightarrow> (\<forall>i \<in> peer_id ` set (filter eligible (peers c)). node_id c < i)"
    by (simp add: is_worker_leader_def list_all_iff)
  ultimately show ?thesis unfolding sees_def by auto
qed

text \<open>
  C24: when the nodes of a cluster agree on the membership, exactly one of them is the worker
  leader, the one with the lowest id.
\<close>

theorem exactly_one_leader:
  assumes "finite members" and "members \<noteq> {}"
    and "\<And>i. i \<in> members \<Longrightarrow> node_id (view i) = i \<and> sees members (view i)"
  shows "\<exists>!i. i \<in> members \<and> is_worker_leader (view i)"
proof -
  have lead: "is_worker_leader (view i) \<longleftrightarrow> i = Min members" if "i \<in> members" for i
  proof -
    have "is_worker_leader (view i) \<longleftrightarrow> (\<forall>j \<in> members. j \<noteq> i \<longrightarrow> i < j)"
      using leader_iff_least [of members "view i"] assms(3) [OF that] by simp
    also have "\<dots> \<longleftrightarrow> i = Min members"
      using assms(1) that by (metis Min_eqI Min_le le_neq_trans order_less_imp_le order_refl)
    finally show ?thesis .
  qed
  show ?thesis
    by (rule ex1I [of _ "Min members"]) (use assms(1,2) lead Min_in in auto)
qed

definition pair_view :: "string \<Rightarrow> ClusterState" where
  "pair_view i = set_peers [sample_peer (if i = ''a'' then ''b'' else ''a'')] (new_state i None None)"

theorem exactly_one_leader_witness:
  "\<exists>!i. i \<in> {''a'', ''b''} \<and> is_worker_leader (pair_view i)"
  by (rule exactly_one_leader)
     (auto simp: pair_view_def set_peers_def new_state_def sees_def sample_peer_def eligible_def)

subsection \<open>Synchronisation status\<close>

text \<open>
  a peer whose counter never goes back is never taken for restored: if the mark was read from
  it no later than its recorded time and the counter only grows, the rewind check stays silent.
\<close>

theorem no_false_rewind:
  assumes "mono counter" and "mark \<le> counter at" and "ms = counter seen"
  shows "\<not> sync_rewound mark (Some at) (Some ms) (Some seen)"
proof
  assume "sync_rewound mark (Some at) (Some ms) (Some seen)"
  then have "ms < mark" and "at < seen" by (auto simp: sync_rewound_def split: if_splits)
  moreover from \<open>at < seen\<close> assms(1) have "counter at \<le> counter seen" by (simp add: monoD)
  ultimately show False using assms(2,3) by simp
qed

theorem no_false_rewind_witness: "\<not> sync_rewound 5 (Some 5) (Some 9) (Some 9)"
  by (rule no_false_rewind [where counter = nat]) (simp_all add: mono_def nat_mono)

text \<open>
  replacing the peer list forgets the status of peers that are gone and keeps that of every
  remembered one, dead or alive, and a node is ready exactly when every eligible peer has had a
  full pass; recording a pass toward the last missing one makes it ready.
\<close>

theorem sync_status_lifecycle:
  "(list_ex (\<lambda>p. peer_id p = i) ps \<longrightarrow> peer_sync (set_peers ps c) i = peer_sync c i) \<and>
   (\<not> list_ex (\<lambda>p. peer_id p = i) ps \<longrightarrow> peer_sync (set_peers ps c) i = default_sync) \<and>
   (\<not> is_syncing c \<longleftrightarrow> list_all (\<lambda>p. eligible p \<longrightarrow> first_pass_done (peer_sync c (peer_id p))) (peers c)) \<and>
   first_pass_done (peer_sync (record_reconcile_complete i at c) i) \<and>
   (j \<noteq> i \<longrightarrow> peer_sync (record_reconcile_complete i at c) j = peer_sync c j)"
  by (auto simp: peer_sync_def set_peers_def is_syncing_def list_ex_iff list_all_iff
      record_reconcile_complete_def default_sync_def split: option.splits)

theorem sync_status_lifecycle_witness:
  "peer_sync (set_peers [sample_peer ''b''] (set_sync_hwm ''b'' 4 9 sample_state)) ''b'' =
     default_sync\<lparr>hwm := 4, hwm_at := Some 9\<rparr>"
  using sync_status_lifecycle [of "''b''" "[sample_peer ''b'']" "set_sync_hwm ''b'' 4 9 sample_state"]
  by (simp add: set_sync_hwm_def sample_state_def set_peers_def new_state_def peer_sync_def sample_peer_def)

subsection \<open>Garbage collection guards\<close>

text \<open>
  blob collection returns exactly the files that no row references and that are at least as
  old as the grace period; a referenced file, a young one and one dated in the future stay.
\<close>

theorem plan_blob_gc_iff:
  "i \<in> set (plan_blob_gc on_disk referenced now grace) \<longleftrightarrow>
     i \<notin> referenced \<and> (\<exists>mtime. (i, mtime) \<in> set on_disk \<and> mtime \<le> now \<and> grace \<le> now - mtime)"
  by (force simp: plan_blob_gc_def split: if_splits)

subsection \<open>Stuck entries\<close>

fun observe_run :: "string \<Rightarrow> nat option list \<Rightarrow> stuck_tracker \<Rightarrow> bool list" where
  "observe_run i [] tr = []"
| "observe_run i (f # fs) tr = (case observe i f tr of (b, tr') \<Rightarrow> b # observe_run i fs tr')"

text \<open>
  a manifest entry is skipped at exactly the fifth consecutive failed pass: four failures on
  the same entry never skip, the fifth does, and the streak then starts over.
\<close>

theorem stuck_entry_skipped_at_fifth:
  assumes "tr i = None"
  shows "observe_run i (replicate 5 (Some s) @ fs) tr = [False, False, False, False, True] @ observe_run i fs (tr(i := None))"
  using assms by (simp add: numeral_eq_Suc observe_def STUCK_SKIP_AFTER_def)

theorem stuck_entry_skipped_at_fifth_witness:
  "observe_run ''b'' (replicate 5 (Some 3) @ [Some 3]) Map.empty = [False, False, False, False, True, False]"
  using stuck_entry_skipped_at_fifth [of Map.empty "''b''" 3 "[Some 3]"]
  by (simp add: observe_def STUCK_SKIP_AFTER_def Let_def)

end
