(* ===== verification/Anti_Entropy.thy ===== *)
theory Anti_Entropy
  imports Object_Replication Control_Apply Cluster_State
begin

section \<open>Anti-entropy: a node pulls what it missed (arca-server/src/cluster/anti_entropy.rs)\<close>

text \<open>
  The pull of a peer's change manifest page by page, the bookkeeping of one pass toward a peer, and
  the tombstone collection behind the liveness guard. The network is a parameter: \<open>fetch\<close> answers the
  manifest request with a given number, so it may answer the same request differently each time;
  \<open>honest\<close> is the peer that serves the manifest handler of its own store. \<open>valid\<close> is the \<^verbatim>\<open>uuid\<close> crate's
  check of a blob id and \<open>fails\<close> says which applications end in a database error.
\<close>

subsection \<open>The manifest of a node (arca-proto/src/handlers/cluster.rs)\<close>

record ClusterManifest =
  entries :: "(nat \<times> ObjectRecord) list"
  manifest_cursor :: nat

definition MANIFEST_MAX_LIMIT :: nat where
  "MANIFEST_MAX_LIMIT = 1000"

definition manifest :: "nat \<Rightarrow> nat \<Rightarrow> object_db \<Rightarrow> ClusterManifest" where
  "manifest since limit db =
     (let rows = list_rows_changed_since since (max 1 (min limit MANIFEST_MAX_LIMIT)) db in
      \<lparr>entries = rows, manifest_cursor = (if rows = [] then since else fst (last rows))\<rparr>)"

subsection \<open>Pulling it\<close>

definition MANIFEST_BATCH :: nat where
  "MANIFEST_BATCH = 500"

definition has_valid_blob_ref :: "(string \<Rightarrow> bool) \<Rightarrow> ObjectRecord \<Rightarrow> bool" where
  "has_valid_blob_ref valid r \<longleftrightarrow> blob_id r = [] \<or> valid (blob_id r)"

fun apply_entries ::
  "(string \<Rightarrow> bool) \<Rightarrow> (ObjectRecord \<Rightarrow> object_db \<Rightarrow> bool) \<Rightarrow> (nat \<times> ObjectRecord) list \<Rightarrow> nat \<Rightarrow> object_db
     \<Rightarrow> (nat \<times> nat option) \<times> object_db" where
  "apply_entries valid fails [] cursor db = ((cursor, None), db)"
| "apply_entries valid fails ((s, r) # es) cursor db =
     (if \<not> has_valid_blob_ref valid r then apply_entries valid fails es s db
      else if fails r db then ((cursor, Some s), db)
      else apply_entries valid fails es s (apply_remote_object r db))"

record ObjectsReconcileOutcome =
  oc_cursor :: nat
  caught_up :: bool
  failed_seq :: "nat option"

type_synonym manifest_source = "nat \<Rightarrow> nat \<Rightarrow> nat \<Rightarrow> string + ClusterManifest"

partial_function (option) reconcile_loop ::
  "(string \<Rightarrow> bool) \<Rightarrow> (ObjectRecord \<Rightarrow> object_db \<Rightarrow> bool) \<Rightarrow> manifest_source \<Rightarrow> nat \<Rightarrow> nat \<Rightarrow> object_db
     \<Rightarrow> ((string + ObjectsReconcileOutcome) \<times> object_db) option" where
  "reconcile_loop valid fails fetch i cursor db =
     (case fetch i cursor MANIFEST_BATCH of
        Inl e \<Rightarrow> Some (Inl e, db)
      | Inr m \<Rightarrow>
          (case apply_entries valid fails (entries m) cursor db of
             ((new, failed), db1) \<Rightarrow>
               if failed \<noteq> None \<or> \<not> cursor < new then
                 Some (Inr \<lparr>oc_cursor = new,
                   caught_up = (failed = None \<and> length (entries m) < MANIFEST_BATCH), failed_seq = failed\<rparr>, db1)
               else if length (entries m) < MANIFEST_BATCH then
                 Some (Inr \<lparr>oc_cursor = new, caught_up = True, failed_seq = None\<rparr>, db1)
               else reconcile_loop valid fails fetch (Suc i) new db1))"

definition reconcile_peer_objects ::
  "(string \<Rightarrow> bool) \<Rightarrow> (ObjectRecord \<Rightarrow> object_db \<Rightarrow> bool) \<Rightarrow> manifest_source \<Rightarrow> nat \<Rightarrow> object_db
     \<Rightarrow> ((string + ObjectsReconcileOutcome) \<times> object_db) option" where
  "reconcile_peer_objects valid fails fetch since db = reconcile_loop valid fails fetch 0 since db"

definition honest :: "object_db \<Rightarrow> manifest_source" where
  "honest peer i since limit = Inr (manifest since limit peer)"

subsection \<open>One pass toward a peer\<close>

text \<open>The cluster state, the stuck-entry tracker and the store of the node; \<open>now\<close> is \<^verbatim>\<open>Utc::now()\<close>.\<close>

type_synonym node = "ClusterState \<times> stuck_tracker \<times> object_db"

definition check_rewind :: "PeerNode \<Rightarrow> ClusterState \<Rightarrow> ClusterState" where
  "check_rewind p c =
     (let s = peer_sync c (peer_id p) in
      if sync_rewound (hwm s) (hwm_at s) (max_seq p) (last_seen p) then reset_sync_hwm (peer_id p) c else c)"

definition record_objects ::
  "string \<Rightarrow> nat \<Rightarrow> timestamp \<Rightarrow> ObjectsReconcileOutcome \<Rightarrow> ClusterState \<Rightarrow> stuck_tracker
     \<Rightarrow> ClusterState \<times> stuck_tracker" where
  "record_objects i since now oc c tr =
     (case observe i (failed_seq oc) tr of
        (skip, tr1) \<Rightarrow>
          let c1 = (if skip then record_skipped_entry i c else c);
              cursor = (if skip then (case failed_seq oc of Some s \<Rightarrow> s | None \<Rightarrow> oc_cursor oc) else oc_cursor oc)
          in (if since < cursor then set_sync_hwm i cursor now c1 else c1, tr1))"

definition reconcile_peer ::
  "(string \<Rightarrow> bool) \<Rightarrow> (ObjectRecord \<Rightarrow> object_db \<Rightarrow> bool) \<Rightarrow> bool \<Rightarrow> manifest_source
     \<Rightarrow> string + ControlSnapshot \<Rightarrow> timestamp \<Rightarrow> PeerNode \<Rightarrow> node \<Rightarrow> node option" where
  "reconcile_peer valid fails fk fetch snap now p n =
     (case n of (c, tr, db) \<Rightarrow>
        let i = peer_id p; c1 = check_rewind p c; since = hwm (peer_sync c1 i) in
        case reconcile_peer_objects valid fails fetch since db of
          None \<Rightarrow> None
        | Some (res, db1) \<Rightarrow>
            (case (case res of
                     Inl e \<Rightarrow> (False, c1, tr)
                   | Inr oc \<Rightarrow> (caught_up oc, record_objects i since now oc c1 tr)) of
               (objects_caught_up, c2, tr1) \<Rightarrow>
                 (case snap of
                    Inl e \<Rightarrow> Some (c2, tr1, db1)
                  | Inr remote \<Rightarrow>
                      (case reconcile_peer_control fk remote (tables db1) of
                         (err, ct) \<Rightarrow>
                           Some (if err = None \<and> objects_caught_up then record_reconcile_complete i now c2 else c2,
                             tr1, db1\<lparr>tables := ct\<rparr>)))))"

text \<open>Tombstone collection, held back while a peer has been unseen for longer than the grace.\<close>

definition collect_tombstones ::
  "timestamp \<Rightarrow> int \<Rightarrow> ClusterState \<Rightarrow> object_db \<Rightarrow> ClusterState \<times> object_db" where
  "collect_tombstones now grace c db =
     (let blockers = tombstone_gc_blockers (peers c) now grace;
          c1 = set_tombstone_gc_blocked (blockers \<noteq> []) c
      in if blockers \<noteq> [] then (c1, db)
         else (let db1 = snd (purge_tombstones (now - grace) db) in
               (c1, db1\<lparr>tables := snd (purge_control_tombstones (now - grace) (tables db1))\<rparr>)))"

subsection \<open>The loop returns, whatever the peer answers\<close>

lemma apply_entries_cursor:
  "apply_entries valid fails es cursor db = ((new, failed), db1) \<Longrightarrow> new = cursor \<or> new \<in> fst ` set es"
  by (induction valid fails es cursor db rule: apply_entries.induct) (auto split: if_splits)

lemma loop_returns:
  assumes bound: "\<And>i s m e. fetch i s MANIFEST_BATCH = Inr m \<Longrightarrow> e \<in> set (entries m) \<Longrightarrow> fst e \<le> B"
  shows "\<exists>res. reconcile_loop valid fails fetch i cursor db = Some res"
proof (induction "B - cursor" arbitrary: i cursor db rule: less_induct)
  case less
  show ?case
  proof (cases "fetch i cursor MANIFEST_BATCH")
    case (Inl e)
    then show ?thesis by (subst reconcile_loop.simps) simp
  next
    case (Inr m)
    obtain new failed db1 where step: "apply_entries valid fails (entries m) cursor db = ((new, failed), db1)"
      by (rule pair_of_pair)
    have "\<exists>res. reconcile_loop valid fails fetch (Suc i) new db1 = Some res" if "cursor < new"
    proof (rule less)
      have "new \<in> fst ` set (entries m)" using apply_entries_cursor [OF step] that by blast
      then show "B - new < B - cursor" using bound [OF Inr] that by force
    qed
    then show ?thesis by (subst reconcile_loop.simps) (simp add: Inr step)
  qed
qed

text \<open>
  C14: pulling a manifest always ends, whatever the peer answers and whichever rows fail to apply: the
  sequence numbers it sends are 64-bit numbers, and the loop goes on only when its cursor has grown.
\<close>

theorem reconcile_objects_returns:
  assumes "\<And>i s m e. fetch i s MANIFEST_BATCH = Inr m \<Longrightarrow> e \<in> set (entries m) \<Longrightarrow> fst e < 2 ^ 64"
  shows "\<exists>outcome db'. reconcile_peer_objects valid fails fetch since db = Some (outcome, db')"
proof -
  have "fst e \<le> 2 ^ 64 - 1" if "fetch i s MANIFEST_BATCH = Inr m" "e \<in> set (entries m)" for i s m e
    using assms [OF that] by simp
  then have "\<exists>res. reconcile_loop valid fails fetch 0 since db = Some res" by (rule loop_returns)
  then show ?thesis by (simp add: reconcile_peer_objects_def)
qed

text \<open>A peer that sends one full page of new rows after another, as long as 64 bits last.\<close>

definition endless :: manifest_source where
  "endless i since limit = (if since + limit < 2 ^ 64
     then Inr \<lparr>entries = map (\<lambda>s. (s, sample_row 7 ''e'' [])) [since + 1..<since + limit + 1], manifest_cursor = since + limit\<rparr>
     else Inl ''closed'')"

theorem reconcile_objects_returns_witness:
  "\<exists>outcome db'. reconcile_peer_objects (\<lambda>_. True) (\<lambda>_ _. False) endless 0 (empty_objects empty_db) = Some (outcome, db')"
  by (rule reconcile_objects_returns) (auto simp: endless_def split: if_splits)

subsection \<open>Draining an honest peer\<close>

text \<open>
  The rows past a cursor in the order of their sequence numbers. The numbers of a store are positive
  and, where no operation stamped several rows at once, distinct.
\<close>

definition manifest_rows :: "nat \<Rightarrow> object_db \<Rightarrow> stored_row list" where
  "manifest_rows since db = filter (\<lambda>x. since < seq x) (sort_key seq (objects db))"

definition seqs_ok :: "object_db \<Rightarrow> bool" where
  "seqs_ok db \<longleftrightarrow> distinct (map seq (objects db)) \<and> (\<forall>x \<in> set (objects db). 0 < seq x)"

abbreviation manifest_page :: "nat \<Rightarrow> object_db \<Rightarrow> (nat \<times> ObjectRecord) list" where
  "manifest_page since db \<equiv> map (\<lambda>x. (seq x, obj x)) (take MANIFEST_BATCH (manifest_rows since db))"

lemma manifest_entries: "entries (manifest since MANIFEST_BATCH db) = manifest_page since db"
  by (simp add: manifest_def Let_def list_rows_changed_since_def manifest_rows_def filter_sort
      MANIFEST_BATCH_def MANIFEST_MAX_LIMIT_def)

lemma manifest_rows_sorted:
  assumes "seqs_ok db"
  shows "sorted_wrt (<) (map seq (manifest_rows since db))"
proof -
  have "distinct (map seq (sort_key seq (objects db)))"
    using assms by (simp add: seqs_ok_def distinct_map)
  then show ?thesis unfolding manifest_rows_def
    by (simp add: strict_sorted_iff sorted_filter distinct_map_filter)
qed

lemma filter_above_nth:
  assumes "sorted_wrt (<) (map f xs)" and "0 < n" and "n \<le> length xs"
  shows "filter (\<lambda>x. f (last (take n xs)) < (f x :: 'a::linorder)) xs = drop n xs"
proof -
  have split: "sorted_wrt (<) (map f (take n xs) @ map f (drop n xs))"
    using assms(1) by (metis append_take_drop_id map_append)
  have ne: "take n xs \<noteq> []" using assms(2,3) by auto
  then have taken: "take n xs = butlast (take n xs) @ [last (take n xs)]" by simp
  have "sorted_wrt (<) (map f (butlast (take n xs)) @ [f (last (take n xs))])"
    using split taken by (metis list.simps(8,9) map_append sorted_wrt_append)
  then have "\<not> f (last (take n xs)) < f x" if "x \<in> set (take n xs)" for x
    using that taken by (auto simp: sorted_wrt_append) (metis Un_iff insert_iff less_asym' list.set(2) order_less_irrefl set_append sup_bot.right_neutral empty_set)
  moreover have "f (last (take n xs)) < f x" if "x \<in> set (drop n xs)" for x
    using split that ne by (auto simp: sorted_wrt_append)
  ultimately have "filter (\<lambda>x. f (last (take n xs)) < f x) (take n xs @ drop n xs) = drop n xs"
    by (simp only: filter_append) (simp add: filter_empty_conv filter_id_conv)
  then show ?thesis by simp
qed

lemma manifest_rows_after:
  assumes "seqs_ok db" and "0 < n" and "n \<le> length (manifest_rows since db)"
  shows "manifest_rows (seq (last (take n (manifest_rows since db)))) db = drop n (manifest_rows since db)"
proof -
  let ?rows = "manifest_rows since db"
  let ?s = "seq (last (take n ?rows))"
  have "last (take n ?rows) \<in> set ?rows"
    using assms(2,3) by (metis last_in_set in_set_takeD length_0_conv not_less_zero take_eq_Nil2 neq0_conv order.strict_trans2)
  then have "since < ?s" by (simp add: manifest_rows_def)
  then have "manifest_rows ?s db = filter (\<lambda>x. ?s < seq x) ?rows"
    unfolding manifest_rows_def filter_filter by (intro filter_cong) auto
  also have "\<dots> = drop n ?rows" by (rule filter_above_nth [OF manifest_rows_sorted [OF assms(1)] assms(2,3)])
  finally show ?thesis .
qed

lemma apply_entries_all:
  "apply_entries valid fails es cursor db = ((new, None), db1) \<Longrightarrow>
     db1 = fold apply_remote_object (filter (has_valid_blob_ref valid) (map snd es)) db \<and>
     new = (if es = [] then cursor else fst (last es))"
  by (induction valid fails es cursor db rule: apply_entries.induct) (auto split: if_splits)

lemma apply_entries_never_fails:
  assumes "\<And>r d. \<not> fails r d"
  shows "snd (fst (apply_entries valid fails es cursor db)) = None"
  using assms by (induction es arbitrary: cursor db) auto

text \<open>A page either fails, or ends the manifest, or is full and the loop goes on behind it.\<close>

lemma loop_honest:
  assumes "seqs_ok peer"
  shows "reconcile_loop valid fails (honest peer) i cursor db =
    (case apply_entries valid fails (manifest_page cursor peer) cursor db of
       ((new, Some s), db1) \<Rightarrow> Some (Inr \<lparr>oc_cursor = new, caught_up = False, failed_seq = Some s\<rparr>, db1)
     | ((new, None), db1) \<Rightarrow>
         if length (manifest_rows cursor peer) < MANIFEST_BATCH
         then Some (Inr \<lparr>oc_cursor = new, caught_up = True, failed_seq = None\<rparr>, db1)
         else reconcile_loop valid fails (honest peer) (Suc i) new db1)"
proof -
  let ?page = "manifest_page cursor peer"
  obtain new failed db1 where step: "apply_entries valid fails ?page cursor db = ((new, failed), db1)"
    by (rule pair_of_pair)
  have len: "length ?page < MANIFEST_BATCH \<longleftrightarrow> length (manifest_rows cursor peer) < MANIFEST_BATCH"
    by (simp add: min_less_iff_disj)
  show ?thesis
  proof (cases failed)
    case (Some s)
    then show ?thesis by (subst reconcile_loop.simps) (simp add: honest_def manifest_entries step)
  next
    case None
    have new: "new = (if ?page = [] then cursor else fst (last ?page))"
      using apply_entries_all [OF step [unfolded None]] by blast
    have above: "cursor < fst e" if "e \<in> set ?page" for e
      using that by (auto dest!: in_set_takeD simp: manifest_rows_def)
    show ?thesis
    proof (cases "?page = []")
      case True
      then have "length (manifest_rows cursor peer) < MANIFEST_BATCH" by (auto simp: MANIFEST_BATCH_def)
      then show ?thesis using True new None
        by (subst reconcile_loop.simps) (simp add: honest_def manifest_entries step)
    next
      case False
      then have "cursor < new" using new above last_in_set [OF False] by simp
      then show ?thesis
        by (subst reconcile_loop.simps) (simp only: honest_def manifest_entries step None len sum.case prod.case
            option.case simp_thms if_True if_False)
    qed
  qed
qed

definition valid_rows :: "(string \<Rightarrow> bool) \<Rightarrow> nat \<Rightarrow> object_db \<Rightarrow> ObjectRecord list" where
  "valid_rows valid since db = filter (has_valid_blob_ref valid) (map obj (manifest_rows since db))"

definition last_seq :: "nat \<Rightarrow> object_db \<Rightarrow> nat" where
  "last_seq since db = (if manifest_rows since db = [] then since else seq (last (manifest_rows since db)))"

lemma loop_drained:
  assumes ok: "seqs_ok peer"
    and "reconcile_loop valid fails (honest peer) i cursor db = Some (Inr oc, db')" and "caught_up oc"
  shows "db' = fold apply_remote_object (valid_rows valid cursor peer) db \<and> oc_cursor oc = last_seq cursor peer"
  using assms(2,3)
proof (induction "length (manifest_rows cursor peer)" arbitrary: i cursor db rule: less_induct)
  case less
  let ?rows = "manifest_rows cursor peer" and ?page = "manifest_page cursor peer"
  obtain new failed db1 where step: "apply_entries valid fails ?page cursor db = ((new, failed), db1)"
    by (rule pair_of_pair)
  have none: "failed = None"
    using less.prems by (subst (asm) loop_honest [OF ok]) (auto simp: step split: option.splits)
  have new: "new = (if ?page = [] then cursor else fst (last ?page))"
    and db1: "db1 = fold apply_remote_object (filter (has_valid_blob_ref valid) (map snd ?page)) db"
    using apply_entries_all step none by blast+
  note eq = loop_honest [OF ok, of valid fails i cursor db, unfolded step none prod.case option.case]
  show ?case
  proof (cases "length ?rows < MANIFEST_BATCH")
    case True
    then have "oc = \<lparr>oc_cursor = new, caught_up = True, failed_seq = None\<rparr> \<and> db' = db1"
      using less.prems(1) unfolding eq by auto
    then show ?thesis using True new db1
      by (auto simp: valid_rows_def last_seq_def o_def last_map)
  next
    case False
    let ?n = MANIFEST_BATCH
    have n: "0 < ?n" "?n \<le> length ?rows" using False by (simp_all add: MANIFEST_BATCH_def)
    then have ne: "take ?n ?rows \<noteq> []" by auto
    then have new': "new = seq (last (take ?n ?rows))" using new by (simp add: last_map)
    have rest: "manifest_rows new peer = drop ?n ?rows"
      unfolding new' by (rule manifest_rows_after [OF ok n])
    have "reconcile_loop valid fails (honest peer) (Suc i) new db1 = Some (Inr oc, db')"
      using less.prems(1) False unfolding eq by simp
    then have IH: "db' = fold apply_remote_object (valid_rows valid new peer) db1 \<and> oc_cursor oc = last_seq new peer"
      by (rule less.hyps [rotated]) (use less.prems(2) rest n in auto)
    have "valid_rows valid cursor peer =
        filter (has_valid_blob_ref valid) (map snd ?page) @ valid_rows valid new peer"
      unfolding valid_rows_def rest by (simp add: o_def) (metis append_take_drop_id filter_append map_append)
    moreover have "last_seq new peer = last_seq cursor peer"
      unfolding last_seq_def rest using ne n by (auto simp: last_drop new')
    ultimately show ?thesis using IH db1 by simp
  qed
qed

lemma loop_succeeds:
  assumes ok: "seqs_ok peer" and "\<And>r d. \<not> fails r d"
  shows "\<exists>oc db'. reconcile_loop valid fails (honest peer) i cursor db = Some (Inr oc, db') \<and> caught_up oc"
proof (induction "length (manifest_rows cursor peer)" arbitrary: i cursor db rule: less_induct)
  case less
  let ?rows = "manifest_rows cursor peer" and ?page = "manifest_page cursor peer"
  obtain new failed db1 where "apply_entries valid fails ?page cursor db = ((new, failed), db1)"
    by (rule pair_of_pair)
  moreover from this have "failed = None"
    using apply_entries_never_fails [where fails = fails and es = ?page, OF assms(2)] by (metis fst_conv snd_conv)
  ultimately have step: "apply_entries valid fails ?page cursor db = ((new, None), db1)" by simp
  note eq = loop_honest [OF ok, of valid fails i cursor db, unfolded step prod.case option.case]
  show ?case
  proof (cases "length ?rows < MANIFEST_BATCH")
    case True
    then show ?thesis unfolding eq by simp
  next
    case False
    have n: "0 < MANIFEST_BATCH" "MANIFEST_BATCH \<le> length ?rows" using False by (simp_all add: MANIFEST_BATCH_def)
    then have "new = seq (last (take MANIFEST_BATCH ?rows))"
      using apply_entries_all [OF step] by (auto simp: last_map)
    then have "length (manifest_rows new peer) < length ?rows"
      using manifest_rows_after [OF ok n] n by simp
    from less [OF this] show ?thesis using False unfolding eq by simp
  qed
qed

lemma pull_succeeds:
  assumes "seqs_ok peer"
  shows "\<exists>oc db'. reconcile_peer_objects valid (\<lambda>_ _. False) (honest peer) since db = Some (Inr oc, db') \<and> caught_up oc"
  unfolding reconcile_peer_objects_def by (rule loop_succeeds [OF assms]) simp

lemma pull_drained:
  assumes "seqs_ok peer" and "reconcile_peer_objects valid fails (honest peer) since db = Some (Inr oc, db')" and "caught_up oc"
  shows "db' = fold apply_remote_object (valid_rows valid since peer) db \<and> oc_cursor oc = last_seq since peer"
  using assms(2,3) unfolding reconcile_peer_objects_def by (rule loop_drained [OF assms(1)])

text \<open>
  C15: a pass that reports itself caught up with a peer has applied every row the peer's store holds
  past the cursor, in the order of the peer's writes and none twice, except those with a malformed
  blob id, and leaves the cursor at the last of them, however many pages the manifest takes.
\<close>

theorem caught_up_means_drained:
  assumes "seqs_ok peer"
    and "reconcile_peer_objects valid fails (honest peer) since db = Some (Inr oc, db')" and "caught_up oc"
  shows "db' = fold apply_remote_object
      (filter (has_valid_blob_ref valid) (map obj (sort_key seq (filter (\<lambda>x. since < seq x) (objects peer))))) db \<and>
    (\<forall>x \<in> set (objects peer). seq x \<le> max since (oc_cursor oc))"
proof -
  have drained: "db' = fold apply_remote_object (valid_rows valid since peer) db \<and> oc_cursor oc = last_seq since peer"
    by (rule pull_drained [OF assms])
  let ?rows = "manifest_rows since peer"
  have "seq x \<le> max since (last_seq since peer)" if x: "x \<in> set (objects peer)" for x
  proof (cases "since < seq x")
    case True
    then have "x \<in> set ?rows" using x by (simp add: manifest_rows_def)
    then obtain ys zs where "?rows = ys @ x # zs" by (meson split_list)
    then have "seq x \<le> seq (last ?rows)" using manifest_rows_sorted [OF assms(1), of since]
      by (cases zs rule: rev_cases) (auto simp: sorted_wrt_append)
    moreover have "?rows \<noteq> []" using \<open>x \<in> set ?rows\<close> by auto
    ultimately show ?thesis by (simp add: last_seq_def)
  qed simp
  then show ?thesis using drained by (simp add: valid_rows_def manifest_rows_def filter_sort)
qed

text \<open>A peer with two rows, pulled by an empty node.\<close>

definition two_row_peer :: object_db where
  "two_row_peer = (empty_objects empty_db)\<lparr>objects :=
     [\<lparr>rowid = 1, obj = sample_row 9 ''f'' ''y'', seq = 4\<rparr>,
      \<lparr>rowid = 2, obj = (sample_row 7 ''e'' ''x'')\<lparr>key := ''k2''\<rparr>, seq = 2\<rparr>], object_seq := 4\<rparr>"

lemma seqs_ok_two_row_peer: "seqs_ok two_row_peer"
  by (simp add: seqs_ok_def two_row_peer_def)

theorem caught_up_means_drained_witness:
  "\<exists>oc db'. reconcile_peer_objects (\<lambda>_. True) (\<lambda>_ _. False) (honest two_row_peer) 0 (empty_objects empty_db) =
      Some (Inr oc, db') \<and>
    db' = fold apply_remote_object [(sample_row 7 ''e'' ''x'')\<lparr>key := ''k2''\<rparr>, sample_row 9 ''f'' ''y'']
      (empty_objects empty_db) \<and> oc_cursor oc \<ge> 4"
proof -
  obtain oc db' where pull: "reconcile_peer_objects (\<lambda>_. True) (\<lambda>_ _. False) (honest two_row_peer) 0
      (empty_objects empty_db) = Some (Inr oc, db')" "caught_up oc"
    using pull_succeeds [OF seqs_ok_two_row_peer, of "\<lambda>_. True" 0 "empty_objects empty_db"] by blast
  have rows: "sort_key seq (filter (\<lambda>x. 0 < seq x) (objects two_row_peer)) =
      [\<lparr>rowid = 2, obj = (sample_row 7 ''e'' ''x'')\<lparr>key := ''k2''\<rparr>, seq = 2\<rparr>,
       \<lparr>rowid = 1, obj = sample_row 9 ''f'' ''y'', seq = 4\<rparr>]"
    by (simp add: two_row_peer_def)
  have "db' = fold apply_remote_object [(sample_row 7 ''e'' ''x'')\<lparr>key := ''k2''\<rparr>, sample_row 9 ''f'' ''y'']
      (empty_objects empty_db) \<and> (\<forall>x \<in> set (objects two_row_peer). seq x \<le> max 0 (oc_cursor oc))"
    using caught_up_means_drained [OF seqs_ok_two_row_peer pull] unfolding rows
    by (simp add: has_valid_blob_ref_def)
  with pull show ?thesis by (auto simp: two_row_peer_def)
qed

end
