(* ===== verification/Cluster_Convergence.thy ===== *)
theory Cluster_Convergence
  imports Anti_Entropy
begin

section \<open>What anti-entropy achieves\<close>

text \<open>
  A pull merges the registers of the peer into the node's. Two nodes that pull from each other hold
  the same registers and serve the same objects.
\<close>

subsection \<open>A pull merges the registers of the two stores\<close>

fun merge_reg :: "ObjectRecord option \<Rightarrow> ObjectRecord option \<Rightarrow> ObjectRecord option" where
  "merge_reg None l = l"
| "merge_reg (Some r) None = Some (plain r)"
| "merge_reg (Some r) (Some l) = Some (plain (deliver r l))"

lemma plain_idem [simp]: "plain (plain r) = plain r"
  by (simp add: plain_def)

lemma deliver_plain_incoming: "plain (deliver (plain r) l) = plain (deliver r l)"
proof -
  have merges: "merge_lock (plain r) l = merge_lock r l" "merge_content (plain r) l' = merge_content r l'" for l'
    by (simp_all add: merge_lock_def merge_content_def plain_def)
  consider "last_modified l < last_modified r" | "last_modified r < last_modified l"
    | "last_modified r = last_modified l" "etag r \<noteq> etag l" | "last_modified r = last_modified l" "etag r = etag l"
    by linarith
  then show ?thesis
    by cases (simp_all add: deliver_cases plain_fields merges)
qed

lemma merge_reg_plain: "merge_reg (map_option plain r) (map_option plain l) = map_option plain (merge_reg r l)"
  by (cases r; cases l) (simp_all add: deliver_plain_incoming deliver_plain)

lemma fold_updates:
  "distinct (map record_key rs) \<Longrightarrow>
     fold register_update rs m n = merge_reg (find (\<lambda>r. record_key r = n) rs) (m n)"
proof (induction rs arbitrary: m)
  case (Cons r rs)
  have "find (\<lambda>r. record_key r = n) rs = None" if "record_key r = n"
    using Cons.prems that unfolding find_None_iff by (metis distinct.simps(2) image_eqI list.simps(9) list.set_map)
  then show ?case using Cons by (auto simp: register_update_def split: option.splits)
qed simp

lemma find_same_set:
  assumes "distinct (map f xs)" "distinct (map f ys)" "set xs = set ys"
  shows "find (\<lambda>x. f x = n) xs = find (\<lambda>x. f x = n) ys"
proof (cases "find (\<lambda>x. f x = n) ys")
  case None
  then have "find (\<lambda>x. f x = n) xs = None" using assms(3) by (simp add: find_None_iff)
  with None show ?thesis by simp
next
  case (Some y)
  then have y: "y \<in> set ys" "f y = n" by (auto dest: find_SomeD)
  moreover have "inj_on f (set ys)" using assms(2) by (simp add: distinct_map)
  ultimately show ?thesis using Some assms(3) by (auto intro!: find_unique simp: inj_on_def)
qed

definition all_valid :: "(string \<Rightarrow> bool) \<Rightarrow> object_db \<Rightarrow> bool" where
  "all_valid valid db \<longleftrightarrow> (\<forall>x \<in> set (objects db). has_valid_blob_ref valid (obj x))"

lemma version_key_record: "version_key x = record_key (obj x)"
  by (simp add: version_key_def record_key_def)

lemma pulled_registers:
  assumes wf: "object_wf db" "object_wf peer" and "seqs_ok peer" and "all_valid valid peer"
  shows "registers (fold apply_remote_object (valid_rows valid 0 peer) db) n =
    merge_reg (registers peer n) (registers db n)"
proof -
  let ?rows = "sort_key seq (objects peer)"
  have rows: "valid_rows valid 0 peer = map obj ?rows"
    using assms(3,4) unfolding valid_rows_def manifest_rows_def all_valid_def seqs_ok_def
    by (simp add: filter_id_conv)
  have keys: "distinct (map version_key (objects peer))" by (rule object_wf_version_keys [OF wf(2)])
  then have keys': "distinct (map version_key ?rows)" by (simp add: distinct_map)
  have recs: "map record_key (map obj ?rows) = map version_key ?rows" by (simp add: version_key_record)
  have "find (\<lambda>r. record_key r = n) (map obj ?rows) = map_option obj (find (\<lambda>x. version_key x = n) ?rows)"
    by (simp add: find_map o_def version_key_record)
  also have "\<dots> = map_option obj (find (\<lambda>x. version_key x = n) (objects peer))"
    using find_same_set [OF keys' keys] by simp
  finally have "fold register_update (map obj ?rows) (registers db) n =
      merge_reg (map_option obj (find (\<lambda>x. version_key x = n) (objects peer))) (registers db n)"
    using fold_updates [of "map obj ?rows", unfolded recs, OF keys'] by simp
  moreover have "merge_reg (map_option plain r) (registers db n) = merge_reg r (registers db n)" for r
    by (cases r; cases "registers db n") (simp_all add: deliver_plain_incoming)
  ultimately show ?thesis unfolding rows registers_fold [OF wf(1)]
    by (simp add: registers_def option.map_comp [symmetric] del: option.map_comp)
qed

subsection \<open>Two nodes that pull from each other\<close>

lemma deliver_self: "deliver r r = r"
  by (simp add: deliver_tie merge_not_newer)

lemma same_content_plain: "same_replicated_content a b \<longleftrightarrow> plain a = plain b"
  by (simp add: same_replicated_content_def plain_def)

lemma redeliver_tie:
  assumes lin: "one_lineage l r" and tie: "last_modified r = last_modified l" "etag r = etag l"
  shows "plain (deliver (deliver r l) r) = plain (deliver r l)"
proof -
  let ?d = "deliver r l"
  have tie': "last_modified ?d = last_modified r" "etag ?d = etag r" using tie by (simp_all add: deliver_tie)
  have base: "outside_registers l = outside_registers r"
    and lock: "lock_updated_at l = lock_updated_at r \<Longrightarrow> lock_columns l = lock_columns r"
    and content: "content_updated_at l = content_updated_at r \<Longrightarrow> content_columns l = content_columns r"
    using lin tie by (auto simp: one_lineage_def)
  note d = deliver_tie_registers [OF tie] and e = deliver_tie_registers [OF tie']
  have "lock_columns (deliver ?d r) = lock_columns ?d"
  proof (cases "lock_updated_at r < lock_updated_at ?d")
    case False
    then have "lock_updated_at l \<le> lock_updated_at r" by (simp add: d max_def split: if_splits)
    then show ?thesis using e(1) d(1) lock False by auto
  qed (use e(1) in simp)
  moreover have "content_columns (deliver ?d r) = content_columns ?d"
  proof (cases "content_updated_at r < content_updated_at ?d")
    case False
    then have "content_updated_at l \<le> content_updated_at r" by (simp add: d max_def split: if_splits)
    then show ?thesis using e(2) d(2) content False by auto
  qed (use e(2) in simp)
  moreover have "lock_updated_at (deliver ?d r) = lock_updated_at ?d" "content_updated_at (deliver ?d r) = content_updated_at ?d"
    by (simp_all add: e(3,4) d(3,4) max.commute)
  moreover have "outside_registers (deliver ?d r) = outside_registers ?d"
    using base by (simp add: outside_registers_deliver_tie [OF tie] outside_registers_deliver_tie [OF tie'])
  ultimately have "same_replicated_content (deliver ?d r) ?d" unfolding same_replicated_content_iff by simp
  then show ?thesis by (simp only: same_content_plain)
qed

lemma redeliver:
  assumes "one_lineage l r"
  shows "plain (deliver (deliver r l) r) = plain (deliver r l)"
proof -
  consider "last_modified l < last_modified r" | "last_modified r < last_modified l"
    | (overwrite) "last_modified r = last_modified l" "etag r \<noteq> etag l"
    | (tie) "last_modified r = last_modified l" "etag r = etag l"
    by linarith
  then show ?thesis
  proof cases
    case overwrite
    then have "blob_id l \<noteq> blob_id r" using assms by (auto simp: one_lineage_def)
    then have "blob_id l < blob_id r \<or> blob_id r < blob_id l" by (simp only: neq_iff)
    then show ?thesis using overwrite
      by (auto simp: deliver_overwrite deliver_self)
  next
    case tie
    then show ?thesis by (rule redeliver_tie [OF assms])
  qed (simp_all add: deliver_newer deliver_older deliver_self)
qed

lemma registers_plain: "map_option plain (registers db n) = registers db n"
  by (simp add: registers_def option.map_comp o_def)

lemma merge_reg_converges:
  assumes "\<And>l r. a = Some l \<Longrightarrow> b = Some r \<Longrightarrow> one_lineage l r" "map_option plain a = a" "map_option plain b = b"
  shows "merge_reg (merge_reg b a) b = merge_reg b a"
proof (cases a)
  case None
  then show ?thesis using assms(3) by (cases b) (simp_all add: deliver_self deliver_plain_incoming)
next
  case (Some l)
  show ?thesis
  proof (cases b)
    case None
    then show ?thesis using assms(2) by (cases a) simp_all
  next
    case (Some r)
    with \<open>a = Some l\<close> show ?thesis using redeliver assms(1) by (simp add: deliver_plain_incoming)
  qed
qed

lemma seqs_ok_map: "seqs_ok db \<longleftrightarrow> distinct (map seq (objects db)) \<and> 0 \<notin> set (map seq (objects db))"
  unfolding seqs_ok_def by (auto simp: image_iff)

lemma seqs_ok_apply_remote:
  assumes "base_ok db" and "seqs_ok db"
  shows "seqs_ok (apply_remote_object r db)"
proof -
  have flags: "map seq (objects (recompute_is_latest b k d)) = map seq (objects d)" for b k d
    by (simp add: recompute_is_latest_def clear_latest_def update_where_def Let_def o_def split: option.splits)
  have "seqs_ok (insert_replicated_row x (delete_where P db))" for x P
    using assms unfolding insert_replicated_row_def
    by (fastforce simp: seqs_ok_def base_ok_def append_row_simps new_row_def delete_where_def distinct_map_filter)
  then have "seqs_ok (case remote_row r db of None \<Rightarrow> db
      | Some x \<Rightarrow> insert_replicated_row x (delete_where (same_version r) db))"
    using assms(2) by (cases "remote_row r db") simp_all
  then show ?thesis unfolding apply_remote_object_eq seqs_ok_map flags .
qed

lemma seqs_ok_fold:
  "object_wf db \<Longrightarrow> seqs_ok db \<Longrightarrow> seqs_ok (fold apply_remote_object rs db)"
  by (induction rs arbitrary: db) (simp_all add: seqs_ok_apply_remote object_wf_base object_wf_apply_remote)

lemma deliver_blob: "blob_id (deliver r l) \<in> {blob_id r, blob_id l}"
proof -
  have merged: "blob_id (merge_content r (merge_lock r l)) \<in> {blob_id r, blob_id l}"
    by (simp add: merge_content_def merge_lock_def)
  consider "last_modified l < last_modified r" | "last_modified r < last_modified l"
    | "last_modified r = last_modified l" "etag r \<noteq> etag l" | "last_modified r = last_modified l" "etag r = etag l"
    by linarith
  then show ?thesis by cases (use merged in \<open>simp_all add: deliver_cases\<close>)
qed

lemma merge_reg_blob:
  assumes "merge_reg p l = Some r"
  shows "\<exists>x. (p = Some x \<or> l = Some x) \<and> blob_id r = blob_id x"
proof (cases p)
  case (Some x)
  show ?thesis
  proof (cases l)
    case None
    with Some assms show ?thesis by (auto simp: plain_fields)
  next
    case l: (Some y)
    with Some assms have "blob_id r = blob_id (deliver x y)" by (auto simp: plain_fields)
    with deliver_blob [of x y] Some l show ?thesis by auto
  qed
qed (use assms in simp)

lemma all_valid_registers:
  assumes "object_wf db"
  shows "all_valid valid db \<longleftrightarrow> (\<forall>n r. registers db n = Some r \<longrightarrow> has_valid_blob_ref valid r)"
proof
  assume valid: "all_valid valid db"
  show "\<forall>n r. registers db n = Some r \<longrightarrow> has_valid_blob_ref valid r"
  proof (intro allI impI)
    fix n r
    assume "registers db n = Some r"
    then obtain x where "x \<in> set (objects db)" "r = plain (obj x)"
      by (auto simp: registers_def dest: find_SomeD)
    with valid show "has_valid_blob_ref valid r"
      by (auto simp: all_valid_def has_valid_blob_ref_def plain_fields)
  qed
next
  assume valid: "\<forall>n r. registers db n = Some r \<longrightarrow> has_valid_blob_ref valid r"
  show "all_valid valid db" unfolding all_valid_def
  proof
    fix x
    assume "x \<in> set (objects db)"
    then have "x \<in> set (rows_of (bucket (obj x)) (key (obj x)) db)" by (simp add: rows_of_def of_key_def)
    from registers_row [OF assms this] valid have "has_valid_blob_ref valid (plain (obj x))" by blast
    then show "has_valid_blob_ref valid (obj x)" by (simp add: has_valid_blob_ref_def plain_fields)
  qed
qed

lemma all_valid_pulled:
  assumes wf: "object_wf db" "object_wf peer" and "seqs_ok peer" and "all_valid valid peer" and "all_valid valid db"
  shows "all_valid valid (fold apply_remote_object (valid_rows valid 0 peer) db)"
proof -
  have "has_valid_blob_ref valid r" if m: "merge_reg (registers peer n) (registers db n) = Some r" for n r
  proof -
    have "has_valid_blob_ref valid p" if "registers peer n = Some p \<or> registers db n = Some p" for p
      using that assms(4,5) all_valid_registers [OF wf(1)] all_valid_registers [OF wf(2)] by blast
    moreover obtain p where "registers peer n = Some p \<or> registers db n = Some p" "blob_id r = blob_id p"
      using merge_reg_blob [OF m] by blast
    ultimately have "has_valid_blob_ref valid p" by blast
    with \<open>blob_id r = blob_id p\<close> show ?thesis by (simp add: has_valid_blob_ref_def)
  qed
  then show ?thesis
    unfolding all_valid_registers [OF object_wf_fold [OF wf(1)]] pulled_registers [OF assms(1-4)] by blast
qed

lemma get_object_registers:
  assumes "object_wf d1" "object_wf d2" and "registers d1 = registers d2"
    and "flags_settled b k d1" "flags_settled b k d2"
  shows "get_object b k d1 = get_object b k d2"
  unfolding get_object_settled [OF assms(1,4)] get_object_settled [OF assms(2,5)]
  by (simp only: winner_registers [OF assms(1-3)])


text \<open>One node holds a legal hold the other has not seen, which in turn has re-encrypted the object.\<close>

definition node_with :: "ObjectRecord \<Rightarrow> object_db" where
  "node_with r = apply_remote_object r (empty_objects empty_db)"

lemma seqs_ok_empty: "seqs_ok (empty_objects ct)"
  by (simp add: seqs_ok_def empty_objects_def)

lemma node_with_ok:
  "object_wf (node_with r)" "seqs_ok (node_with r)" "flags_settled bk k (node_with r)"
  "registers (node_with r) = [record_key r \<mapsto> plain r]"
  by (simp_all add: node_with_def object_wf_apply_remote object_wf_empty settled_apply_remote settled_empty
      seqs_ok_apply_remote object_wf_base apply_remote_register register_update_def registers_empty seqs_ok_empty)


end
