(* ===== verification/Anti_Entropy_Progress.thy ===== *)
theory Anti_Entropy_Progress
  imports Anti_Entropy
begin

section \<open>Progress of the synchronisation with a peer\<close>

text \<open>
  A pass stops at the first row that cannot be applied. The stuck-entry tracker lets the cursor move
  past such a row after five passes, so that passes repeated often enough bring every other row of
  the peer, each once and in order. A node declares itself ready toward a peer only after a pass that
  stopped nowhere.
\<close>

subsection \<open>One pass against rows that always fail\<close>

definition bad_row :: "(string \<Rightarrow> bool) \<Rightarrow> (ObjectRecord \<Rightarrow> bool) \<Rightarrow> ObjectRecord \<Rightarrow> bool" where
  "bad_row valid F r \<longleftrightarrow> has_valid_blob_ref valid r \<and> F r"

lemma apply_entries_first_bad:
  "apply_entries valid (\<lambda>r _. F r) es cursor db =
    (let ok = takeWhile (\<lambda>e. \<not> bad_row valid F (snd e)) es in
     ((if ok = [] then cursor else fst (last ok),
       (case dropWhile (\<lambda>e. \<not> bad_row valid F (snd e)) es of [] \<Rightarrow> None | e # _ \<Rightarrow> Some (fst e))),
      fold apply_remote_object (filter (has_valid_blob_ref valid) (map snd ok)) db))"
proof (induction es arbitrary: cursor db)
  case (Cons e es)
  obtain s r where e: "e = (s, r)" by (cases e)
  show ?case unfolding e by (simp add: Cons.IH bad_row_def Let_def)
qed simp

abbreviation good :: "(string \<Rightarrow> bool) \<Rightarrow> (ObjectRecord \<Rightarrow> bool) \<Rightarrow> stored_row \<Rightarrow> bool" where
  "good valid F x \<equiv> \<not> bad_row valid F (obj x)"

definition pass_outcome ::
  "(string \<Rightarrow> bool) \<Rightarrow> (ObjectRecord \<Rightarrow> bool) \<Rightarrow> nat \<Rightarrow> stored_row list \<Rightarrow> ObjectsReconcileOutcome" where
  "pass_outcome valid F cursor rows =
     (let ok = takeWhile (good valid F) rows; rest = dropWhile (good valid F) rows in
      \<lparr>oc_cursor = (if ok = [] then cursor else seq (last ok)), caught_up = (rest = []),
       failed_seq = (case rest of [] \<Rightarrow> None | x # _ \<Rightarrow> Some (seq x))\<rparr>)"

definition passed_rows :: "(string \<Rightarrow> bool) \<Rightarrow> (ObjectRecord \<Rightarrow> bool) \<Rightarrow> stored_row list \<Rightarrow> ObjectRecord list" where
  "passed_rows valid F rows = filter (has_valid_blob_ref valid) (map obj (takeWhile (good valid F) rows))"

lemma page_outcome:
  "apply_entries valid (\<lambda>r _. F r) (map (\<lambda>x. (seq x, obj x)) rows) cursor db =
    ((oc_cursor (pass_outcome valid F cursor rows), failed_seq (pass_outcome valid F cursor rows)),
     fold apply_remote_object (passed_rows valid F rows) db)"
  by (auto simp: apply_entries_first_bad pass_outcome_def passed_rows_def Let_def takeWhile_map dropWhile_map
      o_def last_map simp del: dropWhile_eq_Nil_conv split: list.splits)

lemma outcome_append_bad:
  assumes "dropWhile (good valid F) xs \<noteq> []"
  shows "pass_outcome valid F c (xs @ ys) = pass_outcome valid F c xs"
    and "passed_rows valid F (xs @ ys) = passed_rows valid F xs"
proof -
  from assms obtain x where x: "x \<in> set xs" "\<not> good valid F x" using dropWhile_eq_Nil_conv by blast
  have "takeWhile (good valid F) (xs @ ys) = takeWhile (good valid F) xs"
    "dropWhile (good valid F) (xs @ ys) = dropWhile (good valid F) xs @ ys"
    using x by (simp_all add: takeWhile_append1 dropWhile_append1)
  with assms show "pass_outcome valid F c (xs @ ys) = pass_outcome valid F c xs"
    "passed_rows valid F (xs @ ys) = passed_rows valid F xs"
    by (auto simp: pass_outcome_def passed_rows_def Let_def simp del: dropWhile_eq_Nil_conv split: list.splits)
qed

lemma outcome_append_good:
  assumes "dropWhile (good valid F) xs = []" and "xs \<noteq> []"
  shows "pass_outcome valid F c (xs @ ys) = pass_outcome valid F (seq (last xs)) ys"
    and "passed_rows valid F (xs @ ys) = passed_rows valid F xs @ passed_rows valid F ys"
proof -
  have all: "\<And>x. x \<in> set xs \<Longrightarrow> good valid F x" using assms(1) by (simp add: dropWhile_eq_Nil_conv)
  then have "takeWhile (good valid F) (xs @ ys) = xs @ takeWhile (good valid F) ys"
    "dropWhile (good valid F) (xs @ ys) = dropWhile (good valid F) ys" "takeWhile (good valid F) xs = xs"
    by (simp_all add: takeWhile_append2 dropWhile_append2 takeWhile_eq_all_conv)
  with assms(2) show "pass_outcome valid F c (xs @ ys) = pass_outcome valid F (seq (last xs)) ys"
    "passed_rows valid F (xs @ ys) = passed_rows valid F xs @ passed_rows valid F ys"
    by (auto simp: pass_outcome_def passed_rows_def Let_def simp del: takeWhile_eq_all_conv dropWhile_eq_Nil_conv)
qed

lemma outcome_failed: "failed_seq (pass_outcome valid F c rows) = None \<longleftrightarrow> dropWhile (good valid F) rows = []"
  by (simp add: pass_outcome_def Let_def del: dropWhile_eq_Nil_conv split: list.splits)

lemma outcome_good:
  assumes "dropWhile (good valid F) rows = []"
  shows "pass_outcome valid F c rows =
    \<lparr>oc_cursor = (if rows = [] then c else seq (last rows)), caught_up = True, failed_seq = None\<rparr>"
proof -
  have "takeWhile (good valid F) rows = rows" using assms takeWhile_dropWhile_id by (metis append_Nil2)
  then show ?thesis using assms by (simp add: pass_outcome_def Let_def del: dropWhile_eq_Nil_conv takeWhile_eq_all_conv)
qed

lemma loop_outcome:
  assumes ok: "seqs_ok peer"
  shows "reconcile_loop valid (\<lambda>r _. F r) (honest peer) i cursor db =
    Some (Inr (pass_outcome valid F cursor (manifest_rows cursor peer)),
      fold apply_remote_object (passed_rows valid F (manifest_rows cursor peer)) db)"
proof (induction "length (manifest_rows cursor peer)" arbitrary: i cursor db rule: less_induct)
  case less
  let ?R = "manifest_rows cursor peer" and ?n = MANIFEST_BATCH
  let ?P = "take ?n ?R" and ?D = "drop ?n ?R"
  note eq = loop_honest [OF ok, of valid "\<lambda>r _. F r" i cursor db, unfolded page_outcome prod.case]
  have split: "?P @ ?D = ?R" by simp
  show ?case
  proof (cases "dropWhile (good valid F) ?P = []")
    case False
    then obtain x where "failed_seq (pass_outcome valid F cursor ?P) = Some x" using outcome_failed by blast
    moreover from this have "pass_outcome valid F cursor ?P =
        \<lparr>oc_cursor = oc_cursor (pass_outcome valid F cursor ?P), caught_up = False, failed_seq = Some x\<rparr>"
      by (auto simp: pass_outcome_def Let_def simp del: dropWhile_eq_Nil_conv split: list.splits)
    ultimately show ?thesis unfolding eq using outcome_append_bad [OF False, where ys = ?D] split by simp
  next
    case True
    note good = outcome_good [OF True]
    show ?thesis
    proof (cases "length ?R < ?n")
      case small: True
      then show ?thesis unfolding eq good using good by simp
    next
      case False
      then have n: "0 < ?n" "?n \<le> length ?R" by (simp_all add: MANIFEST_BATCH_def)
      then have ne: "?P \<noteq> []" by auto
      have rest: "manifest_rows (seq (last ?P)) peer = ?D" by (rule manifest_rows_after [OF ok n])
      then have "length (manifest_rows (seq (last ?P)) peer) < length ?R" using n by simp
      from less [OF this] show ?thesis unfolding eq good rest
        using False ne outcome_append_good [OF True ne, where ys = ?D] split by simp
    qed
  qed
qed

subsection \<open>The bookkeeping of a pass\<close>

lemma peer_sync_simps [simp]:
  "peer_sync (set_sync_hwm i h t c) j =
     (if j = i then (peer_sync c i)\<lparr>hwm := h, hwm_at := Some t\<rparr> else peer_sync c j)"
  "peer_sync (reset_sync_hwm i c) j = (if j = i then (peer_sync c i)\<lparr>hwm := 0, hwm_at := None\<rparr> else peer_sync c j)"
  "peer_sync (record_reconcile_complete i t c) j =
     (if j = i then (peer_sync c i)\<lparr>last_reconcile := Some t, first_pass_done := True\<rparr> else peer_sync c j)"
  "peer_sync (record_skipped_entry i c) j =
     (if j = i then (peer_sync c i)\<lparr>skipped_entries := skipped_entries (peer_sync c i) + 1\<rparr> else peer_sync c j)"
  by (simp_all add: peer_sync_def set_sync_hwm_def reset_sync_hwm_def record_reconcile_complete_def
      record_skipped_entry_def)

definition next_cursor :: "string \<Rightarrow> ObjectsReconcileOutcome \<Rightarrow> stuck_tracker \<Rightarrow> nat" where
  "next_cursor i oc tr =
     (if fst (observe i (failed_seq oc) tr)
      then (case failed_seq oc of Some s \<Rightarrow> s | None \<Rightarrow> oc_cursor oc) else oc_cursor oc)"

lemma record_objects_result:
  "hwm (peer_sync c i) = since \<Longrightarrow>
     hwm (peer_sync (fst (record_objects i since now oc c tr)) i) = max since (next_cursor i oc tr)"
  "snd (record_objects i since now oc c tr) = snd (observe i (failed_seq oc) tr)"
  "first_pass_done (peer_sync (fst (record_objects i since now oc c tr)) j) = first_pass_done (peer_sync c j)"
  by (auto simp: record_objects_def next_cursor_def Let_def max_def split: prod.splits)

text \<open>A peer that has not been restored: its counter has not fallen below our mark.\<close>

definition not_rewound :: "PeerNode \<Rightarrow> ClusterState \<Rightarrow> bool" where
  "not_rewound p c \<longleftrightarrow> (\<exists>ms. max_seq p = Some ms \<and> hwm (peer_sync c (peer_id p)) \<le> ms)"

lemma check_rewind_quiet: "not_rewound p c \<Longrightarrow> check_rewind p c = c"
  by (auto simp: not_rewound_def check_rewind_def sync_rewound_def Let_def split: option.splits)

lemma pass_result:
  assumes ok: "seqs_ok peer" and quiet: "not_rewound p c"
    and i: "i = peer_id p" and since: "since = hwm (peer_sync c i)"
    and oc: "oc = pass_outcome valid F since (manifest_rows since peer)"
  shows "\<exists>c' ct. reconcile_peer valid (\<lambda>r _. F r) fk (honest peer) snap now p (c, tr, db) =
      Some (c', snd (observe i (failed_seq oc) tr),
        (fold apply_remote_object (passed_rows valid F (manifest_rows since peer)) db)\<lparr>tables := ct\<rparr>) \<and>
    hwm (peer_sync c' i) = max since (next_cursor i oc tr)"
proof -
  let ?db1 = "fold apply_remote_object (passed_rows valid F (manifest_rows since peer)) db"
  have objs: "reconcile_peer_objects valid (\<lambda>r _. F r) (honest peer) since db = Some (Inr oc, ?db1)"
    by (simp add: reconcile_peer_objects_def loop_outcome [OF ok] oc)
  obtain c2 where rec: "record_objects i since now oc c tr = (c2, snd (observe i (failed_seq oc) tr))"
    using record_objects_result(2) [of i since now oc c tr] by (metis prod.collapse)
  have hwm: "hwm (peer_sync c2 i) = max since (next_cursor i oc tr)"
    using record_objects_result(1) [of c i since now oc tr] rec since by simp
  have pass: "reconcile_peer valid (\<lambda>r _. F r) fk (honest peer) snap now p (c, tr, db) =
    (case snap of Inl e \<Rightarrow> Some (c2, snd (observe i (failed_seq oc) tr), ?db1)
     | Inr remote \<Rightarrow> (case reconcile_peer_control fk remote (tables ?db1) of (err, ct) \<Rightarrow>
         Some (if err = None \<and> caught_up oc then record_reconcile_complete i now c2 else c2,
           snd (observe i (failed_seq oc) tr), ?db1\<lparr>tables := ct\<rparr>)))"
    unfolding reconcile_peer_def Let_def prod.case check_rewind_quiet [OF quiet] i [symmetric] since [symmetric] objs
    by (simp add: rec)
  show ?thesis
  proof (cases snap)
    case (Inl e)
    have "?db1 = ?db1\<lparr>tables := tables ?db1\<rparr>" by simp
    with pass Inl hwm show ?thesis by (metis old.sum.simps(5))
  next
    case (Inr remote)
    obtain err ct where "reconcile_peer_control fk remote (tables ?db1) = (err, ct)" by fastforce
    with pass Inr hwm show ?thesis by auto
  qed
qed

subsection \<open>Repeated passes\<close>

fun passes :: "nat \<Rightarrow> (node \<Rightarrow> node option) \<Rightarrow> node \<Rightarrow> node option" where
  "passes 0 f n = Some n"
| "passes (Suc k) f n = Option.bind (f n) (passes k f)"

definition failures :: "string \<Rightarrow> stuck_tracker \<Rightarrow> nat \<Rightarrow> nat" where
  "failures i tr s = (case tr i of Some (s', k) \<Rightarrow> if s' = s then k else 0 | None \<Rightarrow> 0)"

definition tracker_ok :: "string \<Rightarrow> stuck_tracker \<Rightarrow> bool" where
  "tracker_ok i tr \<longleftrightarrow> (\<forall>s k. tr i = Some (s, k) \<longrightarrow> k < STUCK_SKIP_AFTER)"

lemma tracker_ok_observe: "tracker_ok i tr \<Longrightarrow> tracker_ok i (snd (observe i f tr))"
  by (auto simp: tracker_ok_def observe_def Let_def STUCK_SKIP_AFTER_def split: option.splits if_splits)

lemma failures_bound: "tracker_ok i tr \<Longrightarrow> failures i tr s < STUCK_SKIP_AFTER"
  by (auto simp: tracker_ok_def failures_def STUCK_SKIP_AFTER_def split: option.splits)

lemma observe_counts:
  "\<not> fst (observe i (Some s) tr) \<Longrightarrow> failures i (snd (observe i (Some s) tr)) s = Suc (failures i tr s)"
  by (auto simp: failures_def observe_def Let_def split: option.splits if_splits)

text \<open>The work left: the rows past the cursor, less the failures counted for the first of them.\<close>

definition work_left :: "string \<Rightarrow> stored_row list \<Rightarrow> stuck_tracker \<Rightarrow> nat" where
  "work_left i rows tr =
     Suc STUCK_SKIP_AFTER * length rows - (case rows of [] \<Rightarrow> 0 | x # _ \<Rightarrow> failures i tr (seq x))"

lemma work_left_shrinks:
  assumes "tracker_ok i tr" and "length rows' < length rows"
  shows "work_left i rows' tr' < work_left i rows tr"
proof -
  obtain x xs where rows: "rows = x # xs" using assms(2) by (cases rows) auto
  have "failures i tr (seq x) < 5" using failures_bound [OF assms(1)] by (simp add: STUCK_SKIP_AFTER_def)
  moreover have "length rows' \<le> length xs" using assms(2) rows by simp
  ultimately show ?thesis unfolding work_left_def rows STUCK_SKIP_AFTER_def by simp
qed

lemma work_left_counts:
  assumes "tracker_ok i tr" and "\<not> fst (observe i (Some (seq x)) tr)"
  shows "work_left i (x # xs) (snd (observe i (Some (seq x)) tr)) < work_left i (x # xs) tr"
  using observe_counts [OF assms(2)] failures_bound [OF assms(1), of "seq x"]
  by (simp add: work_left_def STUCK_SKIP_AFTER_def)

definition good_rows :: "(string \<Rightarrow> bool) \<Rightarrow> (ObjectRecord \<Rightarrow> bool) \<Rightarrow> stored_row list \<Rightarrow> ObjectRecord list" where
  "good_rows valid F rows = filter (\<lambda>r. has_valid_blob_ref valid r \<and> \<not> F r) (map obj rows)"

lemma passed_good: "passed_rows valid F rows = good_rows valid F (takeWhile (good valid F) rows)"
proof -
  have "has_valid_blob_ref valid (obj x) \<Longrightarrow> \<not> F (obj x)" if "x \<in> set (takeWhile (good valid F) rows)" for x
    using that by (auto simp: bad_row_def dest: set_takeWhileD)
  then show ?thesis unfolding passed_rows_def good_rows_def by (intro filter_cong) auto
qed

text \<open>What a pass does to the rows that are left.\<close>

lemma pass_advances:
  assumes ok: "seqs_ok peer" and tr: "tracker_ok i tr"
    and R: "R = manifest_rows since peer" and oc: "oc = pass_outcome valid F since R"
    and upd: "since' = max since (next_cursor i oc tr)" and "R \<noteq> []"
  defines "R' \<equiv> manifest_rows since' peer" and "tr' \<equiv> snd (observe i (failed_seq oc) tr)"
  shows "work_left i R' tr' < work_left i R tr \<and>
    good_rows valid F R = passed_rows valid F R @ good_rows valid F R' \<and> (since' = since \<or> since' \<in> seq ` set R)"
proof -
  let ?ok = "takeWhile (good valid F) R" and ?rest = "dropWhile (good valid F) R"
  have split: "R = ?ok @ ?rest" by simp
  have above: "since < seq x" if "x \<in> set R" for x using that R by (simp add: manifest_rows_def)
  have after: "manifest_rows (seq x) peer = zs" if "R = ys @ x # zs" for ys x zs
    using manifest_rows_after [OF ok, of "Suc (length ys)" since] that R by simp
  show ?thesis
  proof (cases ?rest)
    case Nil
    then have all: "?ok = R" using split by simp
    have "next_cursor i oc tr = seq (last R)"
      unfolding oc outcome_good [OF Nil] using assms(6) by (simp add: next_cursor_def observe_def)
    moreover have "last R \<in> set R" using assms(6) by simp
    ultimately have since': "since' = seq (last R)" using above [of "last R"] by (simp add: upd max_def)
    have "R' = []" unfolding R'_def since' by (rule after [of "butlast R"]) (simp add: assms(6))
    moreover have "good_rows valid F R = passed_rows valid F R" by (simp only: passed_good all)
    ultimately show ?thesis
      using work_left_shrinks [OF tr, of "[]" R tr'] assms(6) since' \<open>last R \<in> set R\<close> by (simp add: good_rows_def)
  next
    case (Cons x xs)
    have R_eq: "R = ?ok @ x # xs" using split Cons by simp
    then have x: "x \<in> set R" using in_set_conv_decomp by fast
    have len: "length R = length ?ok + Suc (length xs)" using arg_cong [OF R_eq, of length] by simp
    have bad: "bad_row valid F (obj x)" using Cons by (metis dropWhile_eq_Cons_conv)
    have failed: "failed_seq oc = Some (seq x)" using Cons by (simp add: oc pass_outcome_def Let_def)
    have drop_x: "good_rows valid F (x # xs) = good_rows valid F xs" using bad by (simp add: good_rows_def bad_row_def)
    have goods: "good_rows valid F R = passed_rows valid F R @ good_rows valid F (x # xs)"
      by (subst R_eq) (simp add: good_rows_def passed_good)
    show ?thesis
    proof (cases "fst (observe i (Some (seq x)) tr)")
      case True
      then have since': "since' = seq x" using above [OF x] failed by (simp add: upd next_cursor_def max_def)
      then have R': "R' = xs" unfolding R'_def using after [OF R_eq] by simp
      moreover have "length xs < length R" using len by simp
      ultimately show ?thesis using work_left_shrinks [OF tr] goods drop_x since' x by auto
    next
      case False
      then have cur: "next_cursor i oc tr = (if ?ok = [] then since else seq (last ?ok))"
        using failed by (simp add: next_cursor_def) (simp add: oc pass_outcome_def Let_def)
      show ?thesis
      proof (cases "?ok = []")
        case True
        then have "since' = since" "R' = x # xs" "R = x # xs" using cur R_eq by (simp_all add: upd R'_def R)
        then show ?thesis using work_left_counts [OF tr False] goods by (simp add: tr'_def failed)
      next
        case ne: False
        then have mem: "last ?ok \<in> set R" using set_takeWhileD last_in_set by fastforce
        then have since': "since' = seq (last ?ok)" using cur ne above [OF mem] by (simp add: upd max_def)
        have "R = (butlast ?ok @ [last ?ok]) @ x # xs" unfolding append_butlast_last_id [OF ne] by (rule R_eq)
        then have "R' = x # xs" unfolding R'_def since' by (intro after [of "butlast ?ok"]) simp
        moreover have "length (x # xs) < length R" using len ne by simp
        ultimately show ?thesis using work_left_shrinks [OF tr] goods since' mem by blast
      qed
    qed
  qed
qed

lemma tables_statements:
  "update_where P f (db\<lparr>tables := ct\<rparr>) = (update_where P f db)\<lparr>tables := ct\<rparr>"
  "delete_where P (db\<lparr>tables := ct\<rparr>) = (delete_where P db)\<lparr>tables := ct\<rparr>"
  "append_row r (db\<lparr>tables := ct\<rparr>) = (append_row r db)\<lparr>tables := ct\<rparr>"
  by (simp_all add: update_where_def delete_where_def append_row_def next_object_seq_def Let_def)

lemma tables_recompute: "recompute_is_latest b k (db\<lparr>tables := ct\<rparr>) = (recompute_is_latest b k db)\<lparr>tables := ct\<rparr>"
  by (simp add: recompute_is_latest_def clear_latest_def tables_statements Let_def split: option.splits)

lemma tables_apply_remote: "apply_remote_object r (db\<lparr>tables := ct\<rparr>) = (apply_remote_object r db)\<lparr>tables := ct\<rparr>"
proof -
  have "remote_row r (db\<lparr>tables := ct\<rparr>) = remote_row r db" by (simp add: remote_row_def)
  then show ?thesis
    by (cases "remote_row r db")
       (simp_all add: apply_remote_object_eq insert_replicated_row_def tables_statements tables_recompute)
qed

lemma tables_fold_remote:
  "fold apply_remote_object rs (db\<lparr>tables := ct\<rparr>) = (fold apply_remote_object rs db)\<lparr>tables := ct\<rparr>"
  by (induction rs arbitrary: db) (simp_all add: tables_apply_remote)

lemma passes_drain:
  assumes ok: "seqs_ok peer" and bound: "\<And>x. x \<in> set (objects peer) \<Longrightarrow> seq x \<le> object_seq peer"
    and ping: "max_seq p = Some (object_seq peer)" and i: "i = peer_id p"
    and "tracker_ok i tr" and "hwm (peer_sync c i) \<le> object_seq peer"
    and pass: "pass = reconcile_peer valid (\<lambda>r _. F r) fk (honest peer) snap now p"
  shows "\<exists>k c' tr' ct. passes k pass (c, tr, db) = Some (c', tr', (fold apply_remote_object
      (good_rows valid F (manifest_rows (hwm (peer_sync c i)) peer)) db)\<lparr>tables := ct\<rparr>) \<and>
    manifest_rows (hwm (peer_sync c' i)) peer = []"
  using assms(5,6)
proof (induction "work_left i (manifest_rows (hwm (peer_sync c i)) peer) tr" arbitrary: c tr db rule: less_induct)
  case less
  let ?since = "hwm (peer_sync c i)"
  let ?R = "manifest_rows ?since peer"
  show ?case
  proof (cases "?R = []")
    case True
    then have "passes 0 pass (c, tr, db) = Some (c, tr, (fold apply_remote_object
        (good_rows valid F ?R) db)\<lparr>tables := tables db\<rparr>)" by (simp add: good_rows_def)
    with True show ?thesis by blast
  next
    case False
    define oc where "oc = pass_outcome valid F ?since ?R"
    define tr1 where "tr1 = snd (observe i (failed_seq oc) tr)"
    define db1 where "db1 = fold apply_remote_object (passed_rows valid F ?R) db"
    have quiet: "not_rewound p c" using ping less.prems(2) i by (simp add: not_rewound_def)
    obtain c1 ct1 where step: "pass (c, tr, db) = Some (c1, tr1, db1\<lparr>tables := ct1\<rparr>)"
      and hwm1: "hwm (peer_sync c1 i) = max ?since (next_cursor i oc tr)"
      using pass_result [OF ok quiet i refl oc_def] unfolding pass tr1_def db1_def by blast
    let ?R1 = "manifest_rows (hwm (peer_sync c1 i)) peer"
    have adv: "work_left i ?R1 tr1 < work_left i ?R tr"
      "good_rows valid F ?R = passed_rows valid F ?R @ good_rows valid F ?R1"
      "hwm (peer_sync c1 i) = ?since \<or> hwm (peer_sync c1 i) \<in> seq ` set ?R"
      using pass_advances [OF ok less.prems(1) refl oc_def hwm1 False] unfolding tr1_def by blast+
    have "hwm (peer_sync c1 i) \<le> object_seq peer"
      using adv(3) less.prems(2) bound by (auto simp: manifest_rows_def)
    moreover have "tracker_ok i tr1" unfolding tr1_def by (rule tracker_ok_observe [OF less.prems(1)])
    ultimately obtain k c' tr' ct where IH: "passes k pass (c1, tr1, db1\<lparr>tables := ct1\<rparr>) = Some (c', tr',
        (fold apply_remote_object (good_rows valid F ?R1) (db1\<lparr>tables := ct1\<rparr>))\<lparr>tables := ct\<rparr>)"
      "manifest_rows (hwm (peer_sync c' i)) peer = []"
      using less.hyps [OF adv(1)] by blast
    have "passes (Suc k) pass (c, tr, db) = Some (c', tr',
        (fold apply_remote_object (good_rows valid F ?R) db)\<lparr>tables := ct\<rparr>)"
      using step IH(1) by (simp add: tables_fold_remote adv(2) db1_def)
    with IH(2) show ?thesis by blast
  qed
qed

text \<open>
  C11: no row blocks the synchronisation with a peer for ever. If some rows of the peer can never be
  applied here, then repeating the pass often enough still applies every other well-formed row, each
  once and in the order of the peer's writes, and brings the cursor past the last of them.
\<close>

theorem sync_never_stuck:
  assumes "seqs_ok peer" and "base_ok peer" and "max_seq p = Some (object_seq peer)"
  shows "\<exists>k c' tr' db'. passes k (reconcile_peer valid (\<lambda>r _. F r) fk (honest peer) snap now p)
      (new_state nid wq csize, Map.empty, db) = Some (c', tr', db') \<and>
    objects db' = objects (fold apply_remote_object
      (filter (\<lambda>r. has_valid_blob_ref valid r \<and> \<not> F r) (map obj (sort_key seq (objects peer)))) db) \<and>
    list_all (\<lambda>x. seq x \<le> hwm (peer_sync c' (peer_id p))) (objects peer)"
proof -
  have "hwm (peer_sync (new_state nid wq csize) (peer_id p)) = 0"
    by (simp add: peer_sync_def new_state_def default_sync_def)
  moreover have "manifest_rows 0 peer = sort_key seq (objects peer)"
    using assms(1) by (simp add: manifest_rows_def seqs_ok_def filter_id_conv)
  ultimately obtain k c' tr' ct where
    "passes k (reconcile_peer valid (\<lambda>r _. F r) fk (honest peer) snap now p) (new_state nid wq csize, Map.empty, db) =
      Some (c', tr', (fold apply_remote_object (good_rows valid F (sort_key seq (objects peer))) db)\<lparr>tables := ct\<rparr>)"
    and drained: "manifest_rows (hwm (peer_sync c' (peer_id p))) peer = []"
    using passes_drain [OF assms(1) _ assms(3) refl _ _ refl, of Map.empty "new_state nid wq csize" valid F fk snap now db]
      assms(2) by (auto simp: tracker_ok_def base_ok_def)
  moreover have "list_all (\<lambda>x. seq x \<le> hwm (peer_sync c' (peer_id p))) (objects peer)"
    using drained by (auto simp: manifest_rows_def filter_empty_conv list_all_iff not_less)
  ultimately show ?thesis unfolding good_rows_def
    by (intro exI conjI) (assumption, simp, assumption)
qed

theorem sync_never_stuck_witness:
  "\<exists>k c' tr' db'. passes k (reconcile_peer (\<lambda>_. True) (\<lambda>r _. key r = ''k2'') True (honest two_row_peer) (Inl ''down'') 9
      ((sample_peer ''p'')\<lparr>max_seq := Some 4\<rparr>)) (new_state ''n'' None None, Map.empty, empty_objects empty_db) = Some (c', tr', db') \<and>
    objects db' = objects (apply_remote_object (sample_row 9 ''f'' ''y'') (empty_objects empty_db)) \<and>
    list_all (\<lambda>x. seq x \<le> hwm (peer_sync c' ''p'')) (objects two_row_peer)"
proof -
  have peer: "base_ok two_row_peer" "max_seq ((sample_peer ''p'')\<lparr>max_seq := Some 4\<rparr>) = Some (object_seq two_row_peer)"
    by (simp_all add: two_row_peer_def base_ok_def rowids_ok_def)
  have rows: "sort_key seq (objects two_row_peer) =
      [\<lparr>rowid = 2, obj = (sample_row 7 ''e'' ''x'')\<lparr>key := ''k2''\<rparr>, seq = 2\<rparr>,
       \<lparr>rowid = 1, obj = sample_row 9 ''f'' ''y'', seq = 4\<rparr>]"
    by (simp add: two_row_peer_def)
  have "key (sample_row 9 ''f'' ''y'') = ''k''" "peer_id ((sample_peer ''p'')\<lparr>max_seq := Some 4\<rparr>) = ''p''"
    by (simp_all add: sample_row_def sample_peer_def)
  then show ?thesis
    using sync_never_stuck [OF seqs_ok_two_row_peer peer, of "\<lambda>_. True" "\<lambda>r. key r = ''k2''" True "Inl ''down''" 9
        "''n''" None None "empty_objects empty_db"]
    unfolding rows by (simp add: has_valid_blob_ref_def)
qed

subsection \<open>Readiness\<close>



subsection \<open>Tombstone collection\<close>

text \<open>
  C32: collection removes a row only if it is a tombstone, and only if every peer that is not alive
  was seen at a time after the deletion, so no returning peer can still hold a version that it never
  learned was deleted; the same holds of the control tombstones. While some peer blocks collection
  nothing is removed and the state says so.
\<close>

theorem collection_waits_for_peers:
  assumes "collect_tombstones now grace c db = (c', db')"
  shows "(\<forall>x \<in> set (objects db). x \<in> set (objects db') \<or> is_tombstone (obj x) \<and>
      (\<forall>p \<in> set (peers c). alive p \<or> (\<exists>t. last_seen p = Some t \<and> last_modified (obj x) < t))) \<and>
    (\<forall>d \<in> set (db_tombstones (tables db)). d \<in> set (db_tombstones (tables db')) \<or>
      (\<forall>p \<in> set (peers c). alive p \<or> (\<exists>t. last_seen p = Some t \<and> deleted_at d < t))) \<and>
    (tombstone_gc_blocked c' \<longrightarrow> db' = db) \<and>
    (tombstone_gc_blocked c' \<longleftrightarrow>
      (\<exists>p \<in> set (peers c). \<not> alive p \<and> (\<forall>t. last_seen p = Some t \<longrightarrow> t < now - grace)))"
proof -
  let ?blockers = "tombstone_gc_blockers (peers c) now grace"
  have unblocked: "alive p \<or> (\<exists>t. last_seen p = Some t \<and> now - grace \<le> t)"
    if "?blockers = []" "p \<in> set (peers c)" for p
    using that by (fastforce simp: tombstone_gc_blockers_def filter_empty_conv split: option.splits)
  have blocked: "?blockers \<noteq> [] \<longleftrightarrow>
      (\<exists>p \<in> set (peers c). \<not> alive p \<and> (\<forall>t. last_seen p = Some t \<longrightarrow> t < now - grace))"
    by (auto simp: tombstone_gc_blockers_def filter_empty_conv split: option.splits)
  show ?thesis
  proof (cases "?blockers = []")
    case True
    then have seen: "alive p \<or> (\<exists>t. last_seen p = Some t \<and> u < t)" if "p \<in> set (peers c)" "u < now - grace" for p u
      using unblocked [OF True that(1)] that(2) by force
    have "objects db' = filter (\<lambda>x. \<not> (is_tombstone (obj x) \<and> last_modified (obj x) < now - grace)) (objects db)"
      "db_tombstones (tables db') = filter (\<lambda>d. \<not> deleted_at d < now - grace) (db_tombstones (tables db))"
      "\<not> tombstone_gc_blocked c'"
      using assms True by (auto simp: collect_tombstones_def Let_def purge_tombstones_def delete_where_def
          purge_control_tombstones_def set_tombstone_gc_blocked_def)
    then show ?thesis using seen blocked True by auto
  next
    case False
    then have "db' = db" "tombstone_gc_blocked c'"
      using assms by (auto simp: collect_tombstones_def Let_def set_tombstone_gc_blocked_def)
    then show ?thesis using blocked False by auto
  qed
qed

theorem collection_waits_for_peers_witness:
  "tombstone_gc_blocked (fst (collect_tombstones 90 20 (new_state ''n'' None None\<lparr>peers := [(sample_peer ''p'')\<lparr>alive := False\<rparr>]\<rparr>)
     (empty_objects empty_db)))"
proof -
  let ?c = "new_state ''n'' None None\<lparr>peers := [(sample_peer ''p'')\<lparr>alive := False\<rparr>]\<rparr>" and ?db = "empty_objects empty_db"
  have "tombstone_gc_blocked (fst (collect_tombstones 90 20 ?c ?db)) \<longleftrightarrow>
      (\<exists>p \<in> set (peers ?c). \<not> alive p \<and> (\<forall>t. last_seen p = Some t \<longrightarrow> t < 90 - 20))"
    using collection_waits_for_peers [of 90 20 ?c ?db, OF prod.collapse [symmetric]] by blast
  then show ?thesis by (simp add: sample_peer_def)
qed

end
