(* ===== verification/Blob_Types.thy ===== *)
theory Blob_Types
  imports Arca_Prelude "HOL-Library.Finite_Map"
begin

section \<open>Blobs and their sidecars (arca-core/src/store/blob.rs)\<close>

text \<open>
  The types the blob store and its decorators exchange: byte ranges, encryption and compression
  metadata, composite parts and the sidecar that describes a blob. Bytes are HOL characters.
\<close>

type_synonym bytes = string

record BlobEncryptionInfo =
  be_algorithm :: string
  encrypted_dek :: string
  dek_nonce :: string
  nonce_prefix :: string
  be_key_id :: string

datatype CompressionAlgorithm = Zstd | Lz4 | Snappy | Gzip | Brotli | Xz

primrec algorithm_as_str :: "CompressionAlgorithm \<Rightarrow> string" where
  "algorithm_as_str Zstd = ''zstd''"
| "algorithm_as_str Lz4 = ''lz4''"
| "algorithm_as_str Snappy = ''snappy''"
| "algorithm_as_str Gzip = ''gzip''"
| "algorithm_as_str Brotli = ''brotli''"
| "algorithm_as_str Xz = ''xz''"

primrec algorithm_code :: "CompressionAlgorithm \<Rightarrow> nat" where
  "algorithm_code Zstd = 1"
| "algorithm_code Lz4 = 2"
| "algorithm_code Snappy = 3"
| "algorithm_code Gzip = 4"
| "algorithm_code Brotli = 5"
| "algorithm_code Xz = 6"

definition algorithm_from_code :: "nat \<Rightarrow> CompressionAlgorithm option" where
  "algorithm_from_code c =
     (if c = 1 then Some Zstd else if c = 2 then Some Lz4 else if c = 3 then Some Snappy
      else if c = 4 then Some Gzip else if c = 5 then Some Brotli else if c = 6 then Some Xz else None)"

definition algorithm_parse :: "string \<Rightarrow> CompressionAlgorithm option" where
  "algorithm_parse s =
     (let l = map to_ascii_lowercase s in
      if l = ''zstd'' then Some Zstd else if l = ''lz4'' then Some Lz4 else if l = ''snappy'' then Some Snappy
      else if l = ''gzip'' then Some Gzip else if l = ''brotli'' then Some Brotli else if l = ''xz'' then Some Xz
      else None)"

record BlobCompressionInfo =
  bc_algorithm :: CompressionAlgorithm
  bc_chunk_size :: nat
  original_size :: nat
  compressed_size :: nat

record CompositePart =
  cp_blob_id :: string
  plaintext_size :: nat
  plaintext_etag :: string
  cp_encryption :: "BlobEncryptionInfo option"

record SidecarMeta =
  sm_bucket :: string
  sm_key :: string
  sm_size :: nat
  sm_etag :: string
  sm_content_type :: "string option"
  sm_last_modified :: string
  sm_metadata :: "(string, string) fmap"
  sm_encryption :: "BlobEncryptionInfo option"
  sm_compression :: "BlobCompressionInfo option"
  sm_version_id :: "string option"
  composite :: "CompositePart list option"

definition has_valid_blob_refs :: "(string \<Rightarrow> bool) \<Rightarrow> SidecarMeta \<Rightarrow> bool" where
  "has_valid_blob_refs valid m =
     (case composite m of None \<Rightarrow> True | Some ps \<Rightarrow> list_all (\<lambda>p. valid (cp_blob_id p)) ps)"

record BlobPutResult =
  bp_size :: nat
  bp_etag :: string
  bp_encryption :: "BlobEncryptionInfo option"
  bp_compression :: "BlobCompressionInfo option"
  composite_parts :: "CompositePart list option"

record ByteRange =
  br_start :: nat
  br_end :: "nat option"

lemma algorithm_code_roundtrip: "algorithm_from_code (algorithm_code a) = Some a"
  by (cases a) (simp_all add: algorithm_from_code_def)

lemma algorithm_from_code_Some: "algorithm_from_code c = Some a \<Longrightarrow> c = algorithm_code a"
  by (simp add: algorithm_from_code_def split: if_splits)

text \<open>
  What a read of \<open>rng\<close> returns of the bytes \<open>xs\<close>: the requested bytes that exist, with both ends
  included.
\<close>

definition slice :: "bytes \<Rightarrow> ByteRange option \<Rightarrow> bytes" where
  "slice xs rng =
     (case rng of
        None \<Rightarrow> xs
      | Some r \<Rightarrow>
          let last = (case br_end r of Some e \<Rightarrow> min e (length xs - 1) | None \<Rightarrow> length xs - 1)
          in take (last + 1 - br_start r) (drop (br_start r) xs))"

lemma slice_full: "slice xs (Some \<lparr>br_start = 0, br_end = None\<rparr>) = xs"
  by (cases xs) (simp_all add: slice_def)

end
