(* ===== verification/Composite_Read.thy ===== *)
theory Composite_Read
  imports Blob_Types
begin

section \<open>Reading composite blobs (arca-storage/src/composite.rs)\<close>

text \<open>
  A multipart object is stored as its parts; a read of a byte range opens the parts it touches, each
  for the sub-range it needs. The theorem says the bytes delivered are those of the concatenation.
\<close>

record PartRead =
  pr_part :: CompositePart
  pr_range :: "ByteRange option"

fun plan_part_reads :: "nat \<Rightarrow> nat \<Rightarrow> nat \<Rightarrow> nat \<Rightarrow> CompositePart list \<Rightarrow> PartRead list" where
  "plan_part_reads content_length range_start range_end cum_start [] = []"
| "plan_part_reads content_length range_start range_end cum_start (p # ps) =
     (let part_size = plaintext_size p; part_end_excl = cum_start + part_size;
          rest = plan_part_reads content_length range_start range_end part_end_excl ps in
      if part_size = 0 \<or> content_length = 0 \<or> part_end_excl \<le> range_start \<or> range_end < cum_start then rest
      else
        let sub_start = range_start - cum_start;
            sub_end = min (range_end - cum_start) (part_size - 1) in
        \<lparr>pr_part = p, pr_range = (if sub_start = 0 \<and> sub_end = part_size - 1 then None
           else Some \<lparr>br_start = sub_start, br_end = Some sub_end\<rparr>)\<rparr> # rest)"

definition plan_composite_read :: "CompositePart list \<Rightarrow> ByteRange option \<Rightarrow> PartRead list \<times> nat" where
  "plan_composite_read parts rng =
     (let total = sum_list (map plaintext_size parts);
          range_start = (case rng of Some r \<Rightarrow> br_start r | None \<Rightarrow> 0);
          range_end = (case rng of
             Some r \<Rightarrow> min (case br_end r of Some e \<Rightarrow> e | None \<Rightarrow> total - 1) (total - 1)
           | None \<Rightarrow> total - 1);
          content_length = (if total = 0 then 0
             else if range_start \<le> range_end then range_end - range_start + 1 else 0)
      in (plan_part_reads content_length range_start range_end 0 parts, content_length))"

text \<open>\<^verbatim>\<open>concat_lazily\<close>: the streams of the reads, one after the other; \<open>read\<close> is what a part yields.\<close>

definition concat_lazily :: "(CompositePart \<Rightarrow> ByteRange option \<Rightarrow> bytes) \<Rightarrow> PartRead list \<Rightarrow> bytes" where
  "concat_lazily read reads = concat (map (\<lambda>r. read (pr_part r) (pr_range r)) reads)"

definition part_slice :: "(string \<Rightarrow> bytes) \<Rightarrow> CompositePart \<Rightarrow> ByteRange option \<Rightarrow> bytes" where
  "part_slice data p rng = slice (data (cp_blob_id p)) rng"

abbreviation part_data :: "(string \<Rightarrow> bytes) \<Rightarrow> CompositePart list \<Rightarrow> bytes" where
  "part_data data ps \<equiv> concat (map (\<lambda>p. data (cp_blob_id p)) ps)"

definition sizes_match :: "(string \<Rightarrow> bytes) \<Rightarrow> CompositePart list \<Rightarrow> bool" where
  "sizes_match data ps \<longleftrightarrow> (\<forall>p \<in> set ps. length (data (cp_blob_id p)) = plaintext_size p)"

lemma part_data_length: "sizes_match data ps \<Longrightarrow> length (part_data data ps) = sum_list (map plaintext_size ps)"
  by (induction ps) (simp_all add: sizes_match_def)

lemma slice_whole_part:
  assumes "0 < length d" and "ss \<le> se" and "se < length d"
  shows "slice d (if ss = 0 \<and> se = length d - 1 then None else Some \<lparr>br_start = ss, br_end = Some se\<rparr>) =
    take (se + 1 - ss) (drop ss d)"
  using assms by (simp add: slice_def)

text \<open>One touched part: its sub-range is the overlap of the request with the part.\<close>

lemma touched_part:
  assumes "cum \<le> re" and "rs < cum + length d" and "rs \<le> re" and "0 < length d"
  defines "ss \<equiv> rs - cum" and "se \<equiv> min (re - cum) (length d - 1)"
  shows "take (se + 1 - ss) (drop ss d) @ take (re + 1 - (cum + length d)) rest =
    take (re + 1 - max cum rs) (drop ss (d @ rest))"
proof -
  have ss: "ss < length d" "max cum rs = cum + ss"
    using assms(2,4) unfolding ss_def by linarith+
  have "take (re + 1 - max cum rs) (drop ss (d @ rest)) =
      take (re + 1 - max cum rs) (drop ss d) @ take (re + 1 - (cum + length d)) rest"
    using ss by simp
  moreover have "take (se + 1 - ss) (drop ss d) = take (re + 1 - max cum rs) (drop ss d)"
  proof (cases "re - cum \<le> length d - 1")
    case True
    then show ?thesis using ss assms(1) by (simp add: se_def min_def)
  next
    case False
    then have "se + 1 - ss = length (drop ss d)" "length (drop ss d) \<le> re + 1 - max cum rs"
      using ss assms(1) by (auto simp: se_def min_def)
    then show ?thesis by simp
  qed
  ultimately show ?thesis by simp
qed

lemma plan_part_reads_slice:
  assumes "sizes_match data ps" and "content_length \<noteq> 0" and "rs \<le> re"
  shows "concat_lazily (part_slice data) (plan_part_reads content_length rs re cum ps) =
    take (re + 1 - max cum rs) (drop (rs - cum) (part_data data ps))"
  using assms(1)
proof (induction ps arbitrary: cum)
  case Nil
  then show ?case by (simp add: concat_lazily_def)
next
  case (Cons p ps)
  let ?d = "data (cp_blob_id p)"
  let ?rest = "plan_part_reads content_length rs re (cum + length ?d) ps"
  have size: "plaintext_size p = length ?d" and ps: "sizes_match data ps"
    using Cons.prems by (simp_all add: sizes_match_def)
  have IH: "concat_lazily (part_slice data) ?rest =
      take (re + 1 - max (cum + length ?d) rs) (drop (rs - (cum + length ?d)) (part_data data ps))"
    by (rule Cons.IH [OF ps])
  show ?case
  proof (cases "length ?d = 0 \<or> cum + length ?d \<le> rs \<or> re < cum")
    case True
    then have "concat_lazily (part_slice data) (plan_part_reads content_length rs re cum (p # ps)) =
        concat_lazily (part_slice data) ?rest"
      by (auto simp: size Let_def)
    moreover have "take (re + 1 - max (cum + length ?d) rs) (drop (rs - (cum + length ?d)) (part_data data ps)) =
        take (re + 1 - max cum rs) (drop (rs - cum) (part_data data (p # ps)))"
      using True assms(3) by (auto simp: max_def)
    ultimately show ?thesis using IH by simp
  next
    case False
    let ?ss = "rs - cum" and ?se = "min (re - cum) (length ?d - 1)"
    have pos: "0 < length ?d" using False by simp
    moreover have "?se < length ?d" using pos by linarith
    moreover have "?ss \<le> ?se" using False assms(3) by linarith
    ultimately have bounds: "?ss \<le> ?se" "?se < length ?d" "0 < length ?d" by blast+
    have "concat_lazily (part_slice data) (plan_part_reads content_length rs re cum (p # ps)) =
        slice ?d (if ?ss = 0 \<and> ?se = length ?d - 1 then None else Some \<lparr>br_start = ?ss, br_end = Some ?se\<rparr>) @
        concat_lazily (part_slice data) ?rest"
      using False assms(2) by (simp add: size Let_def concat_lazily_def part_slice_def)
    also have "\<dots> = take (?se + 1 - ?ss) (drop ?ss ?d) @ take (re + 1 - (cum + length ?d)) (part_data data ps)"
      unfolding slice_whole_part [OF bounds(3,1,2)] IH using False by (simp add: max_def)
    also have "\<dots> = take (re + 1 - max cum rs) (drop ?ss (?d @ part_data data ps))"
      by (rule touched_part) (use False assms(3) in auto)
    finally show ?thesis by simp
  qed
qed

text \<open>
  C7: reading a byte range of a composite blob delivers exactly the bytes that the concatenation of
  its parts has in that range, and announces their number as the content length: for open and closed
  ranges, ranges past the end, empty parts and empty blobs alike.
\<close>

theorem composite_read_is_slice:
  assumes "sizes_match data parts" and "plan_composite_read parts rng = (reads, content_length)"
  shows "concat_lazily (part_slice data) reads = slice (part_data data parts) rng \<and>
    content_length = length (slice (part_data data parts) rng)"
proof -
  define total where "total = sum_list (map plaintext_size parts)"
  define rs where "rs = (case rng of Some r \<Rightarrow> br_start r | None \<Rightarrow> 0)"
  define re where "re = (case rng of
      Some r \<Rightarrow> min (case br_end r of Some e \<Rightarrow> e | None \<Rightarrow> total - 1) (total - 1) | None \<Rightarrow> total - 1)"
  define cl where "cl = (if total = 0 then 0 else if rs \<le> re then re - rs + 1 else 0)"
  have "(reads, content_length) = (plan_part_reads cl rs re 0 parts, cl)"
    using assms(2) unfolding plan_composite_read_def Let_def cl_def re_def rs_def total_def by (rule sym)
  then have plan: "reads = plan_part_reads cl rs re 0 parts" "content_length = cl" by simp_all
  have len: "length (part_data data parts) = total" using part_data_length [OF assms(1)] by (simp add: total_def)
  have re: "re \<le> total - 1" by (auto simp: re_def split: option.splits)
  have slice: "slice (part_data data parts) rng = take (re + 1 - rs) (drop rs (part_data data parts))"
    unfolding slice_def re_def rs_def len [symmetric]
    by (cases "part_data data parts") (auto simp: Let_def min.commute split: option.splits)
  show ?thesis
  proof (cases "cl = 0")
    case True
    have "plan_part_reads 0 rs re cum ps = []" for cum ps by (induction ps arbitrary: cum) (simp_all add: Let_def)
    then have "concat_lazily (part_slice data) reads = []" using True plan by (simp add: concat_lazily_def)
    moreover have "slice (part_data data parts) rng = []"
      using True len unfolding slice cl_def by (auto split: if_splits)
    ultimately show ?thesis using True plan by simp
  next
    case False
    then have "rs \<le> re" "total \<noteq> 0" by (auto simp: cl_def split: if_splits)
    then show ?thesis
      using plan_part_reads_slice [OF assms(1) False, of rs re 0] plan slice re len by (simp add: cl_def)
  qed
qed

definition two_parts :: "CompositePart list" where
  "two_parts = map (\<lambda>i. \<lparr>cp_blob_id = i, plaintext_size = 3, plaintext_etag = [], cp_encryption = None\<rparr>) [''a'', ''b'']"

theorem composite_read_is_slice_witness:
  "concat_lazily (part_slice (\<lambda>i. if i = ''a'' then ''xyz'' else ''uvw''))
     (fst (plan_composite_read two_parts (Some \<lparr>br_start = 2, br_end = Some 3\<rparr>))) = ''zu''"
  using composite_read_is_slice [of "\<lambda>i. if i = ''a'' then ''xyz'' else ''uvw''" two_parts
      "Some \<lparr>br_start = 2, br_end = Some 3\<rparr>", OF _ prod.collapse [symmetric]]
  by (simp add: sizes_match_def two_parts_def slice_def)

end
