(* ===== verification/Inplace_Rewrite.thy ===== *)
theory Inplace_Rewrite
  imports Blob_Types
begin

section \<open>Crash-safe in-place rewrites (arca-storage/src/inplace.rs)\<close>

text \<open>
  The offline tools replace a blob and its sidecar through a journal. The model runs the code against
  a directory and a schedule that says of every primitive file operation whether it succeeds, fails
  with an I/O error, or is the point where the machine crashes. The directory operations of a crashed
  run are durable up to the crash point, as on a journalled file system; file contents are synced
  before the rename that publishes them. Files are named inside the directory they share.
\<close>

subsection \<open>File operations with a schedule of faults\<close>

datatype outcome = Done | Fails | Crash
datatype io_error = NotFound | OtherError string
datatype 'a result = Value 'a | Error io_error | Crashed

type_synonym disk = "string \<rightharpoonup> bytes"
type_synonym 'a io = "outcome list \<Rightarrow> disk \<Rightarrow> 'a result \<times> outcome list \<times> disk"

text \<open>A primitive operation takes the next entry of the schedule; past its end operations succeed.\<close>

definition prim :: "(disk \<Rightarrow> io_error + disk) \<Rightarrow> unit io" where
  "prim f os d =
     (case os of
        Crash # os' \<Rightarrow> (Crashed, os', d)
      | Fails # os' \<Rightarrow> (Error (OtherError ''io''), os', d)
      | _ \<Rightarrow> (case f d of Inl e \<Rightarrow> (Error e, tl os, d) | Inr d' \<Rightarrow> (Value (), tl os, d')))"

definition return_io :: "'a \<Rightarrow> 'a io" where
  "return_io x os d = (Value x, os, d)"

definition fail_io :: "io_error \<Rightarrow> 'a io" where
  "fail_io e os d = (Error e, os, d)"

definition bind_io :: "'a io \<Rightarrow> ('a \<Rightarrow> 'b io) \<Rightarrow> 'b io" where
  "bind_io p f os d =
     (case p os d of
        (Value x, os', d') \<Rightarrow> f x os' d'
      | (Error e, os', d') \<Rightarrow> (Error e, os', d')
      | (Crashed, os', d') \<Rightarrow> (Crashed, os', d'))"

text \<open>\<^verbatim>\<open>let _ = p\<close> drops an error; \<open>cleanup p h\<close> runs \<open>h\<close> when \<open>p\<close> fails and then returns the failure of \<open>p\<close>.\<close>

definition ignore :: "unit io \<Rightarrow> unit io" where
  "ignore p os d = (case p os d of (Error e, os', d') \<Rightarrow> (Value (), os', d') | r \<Rightarrow> r)"

definition cleanup :: "'a io \<Rightarrow> unit io \<Rightarrow> 'a io" where
  "cleanup p h os d =
     (case p os d of
        (Error e, os', d') \<Rightarrow>
          (case h os' d' of (Crashed, os2, d2) \<Rightarrow> (Crashed, os2, d2) | (_, os2, d2) \<Rightarrow> (Error e, os2, d2))
      | r \<Rightarrow> r)"

definition create_new :: "string \<Rightarrow> unit io" where
  "create_new n = prim (\<lambda>d. if d n = None then Inr (d(n \<mapsto> [])) else Inl (OtherError ''exists''))"

definition write_all :: "string \<Rightarrow> bytes \<Rightarrow> unit io" where
  "write_all n bs = prim (\<lambda>d. if d n = None then Inl NotFound else Inr (d(n \<mapsto> bs)))"

definition sync_all :: "unit io" where
  "sync_all = prim Inr"

definition rename_file :: "string \<Rightarrow> string \<Rightarrow> unit io" where
  "rename_file a b = prim (\<lambda>d. case d a of None \<Rightarrow> Inl NotFound | Some c \<Rightarrow> Inr (d(a := None, b \<mapsto> c)))"

definition remove_file :: "string \<Rightarrow> unit io" where
  "remove_file n = prim (\<lambda>d. if d n = None then Inl NotFound else Inr (d(n := None)))"

definition read_file :: "string \<Rightarrow> bytes io" where
  "read_file n os d = (case d n of None \<Rightarrow> (Error NotFound, os, d) | Some c \<Rightarrow> (Value c, os, d))"

definition file_exists :: "string \<Rightarrow> bool io" where
  "file_exists n os d = (Value (d n \<noteq> None), os, d)"

subsection \<open>The durability helpers (arca-storage/src/fs/blob.rs)\<close>

definition sync_dir :: "unit io" where
  "sync_dir = prim Inr"

definition rename_durable :: "string \<Rightarrow> string \<Rightarrow> unit io" where
  "rename_durable tmp dest = bind_io (rename_file tmp dest) (\<lambda>_. sync_dir)"

text \<open>\<open>u\<close> is the random part of the temporary name.\<close>

definition write_file_atomic_with :: "string \<Rightarrow> string \<Rightarrow> bytes \<Rightarrow> bool \<Rightarrow> unit io" where
  "write_file_atomic_with u dest bs fsync =
     (let tmp = dest @ ''.'' @ u @ ''.tmp'' in
      cleanup
        (bind_io (create_new tmp) (\<lambda>_.
         bind_io (write_all tmp bs) (\<lambda>_.
         if \<not> fsync then rename_file tmp dest
         else bind_io sync_all (\<lambda>_. rename_durable tmp dest))))
        (ignore (remove_file tmp)))"

definition write_file_atomic :: "string \<Rightarrow> string \<Rightarrow> bytes \<Rightarrow> unit io" where
  "write_file_atomic u dest bs = write_file_atomic_with u dest bs True"

subsection \<open>The journal\<close>

definition REWRITE_TMP_SUFFIX :: string where
  "REWRITE_TMP_SUFFIX = ''.rewrite.tmp''"

definition PENDING_TMP_SUFFIX :: string where
  "PENDING_TMP_SUFFIX = ''.pending.tmp''"

definition rewrite_tmp_path :: "string \<Rightarrow> string" where
  "rewrite_tmp_path blob = blob @ REWRITE_TMP_SUFFIX"

definition pending_sidecar_path :: "string \<Rightarrow> string" where
  "pending_sidecar_path meta_path = meta_path @ PENDING_TMP_SUFFIX"

definition blob_of :: "string \<Rightarrow> string io" where
  "blob_of meta_path =
     (case strip_suffix meta_path ''.meta'' of
        None \<Rightarrow> fail_io (OtherError ''not a sidecar path'')
      | Some n \<Rightarrow> return_io n)"

definition commit_rewrite_sync :: "string \<Rightarrow> string \<Rightarrow> string \<Rightarrow> bytes \<Rightarrow> unit io" where
  "commit_rewrite_sync u blob meta_path json =
     (let tmp = rewrite_tmp_path blob; pending = pending_sidecar_path meta_path in
      bind_io (cleanup (write_file_atomic u pending json) (ignore (remove_file tmp))) (\<lambda>_.
      bind_io (cleanup (rename_file tmp blob)
        (bind_io (ignore (remove_file tmp)) (\<lambda>_. ignore (remove_file pending)))) (\<lambda>_.
      bind_io sync_dir (\<lambda>_.
      rename_durable pending meta_path))))"

datatype 'm PendingOutcome = Clean | Discarded | RolledForward 'm

text \<open>\<open>dec\<close> parses the JSON of a sidecar.\<close>

definition resolve_pending_sync :: "(bytes \<Rightarrow> 'm option) \<Rightarrow> string \<Rightarrow> 'm PendingOutcome io" where
  "resolve_pending_sync dec meta_path =
     bind_io (blob_of meta_path) (\<lambda>blob.
       let tmp = rewrite_tmp_path blob; pending = pending_sidecar_path meta_path in
       bind_io (file_exists pending) (\<lambda>journal.
         if \<not> journal then
           (\<lambda>os d. case remove_file tmp os d of
              (Value _, os', d') \<Rightarrow> (Value Discarded, os', d')
            | (Error NotFound, os', d') \<Rightarrow> (Value Clean, os', d')
            | (Error (OtherError e), os', d') \<Rightarrow> (Error (OtherError e), os', d')
            | (Crashed, os', d') \<Rightarrow> (Crashed, os', d'))
         else
           bind_io (file_exists tmp) (\<lambda>unrenamed.
             if unrenamed then
               bind_io (remove_file tmp) (\<lambda>_. bind_io (remove_file pending) (\<lambda>_. return_io Discarded))
             else
               bind_io (read_file pending) (\<lambda>json.
                 case dec json of
                   None \<Rightarrow> fail_io (OtherError ''journal'')
                 | Some meta \<Rightarrow> bind_io (rename_durable pending meta_path) (\<lambda>_. return_io (RolledForward meta))))))"

subsection \<open>Symbolic execution\<close>

lemma prim_Nil: "prim f [] d = (case f d of Inl e \<Rightarrow> (Error e, [], d) | Inr d' \<Rightarrow> (Value (), [], d'))"
  and prim_Done: "prim f (Done # os) d = (case f d of Inl e \<Rightarrow> (Error e, os, d) | Inr d' \<Rightarrow> (Value (), os, d'))"
  and prim_Fails: "prim f (Fails # os) d = (Error (OtherError ''io''), os, d)"
  and prim_Crash: "prim f (Crash # os) d = (Crashed, os, d)"
  by (simp_all add: prim_def split: sum.split)

text \<open>The four names of a rewrite, and the temporary name of its journal, are different files.\<close>

lemmas rewrite_names = rewrite_tmp_path_def pending_sidecar_path_def REWRITE_TMP_SUFFIX_def
  PENDING_TMP_SUFFIX_def

lemma blob_of_meta: "blob_of (b @ ''.meta'') = return_io b"
proof -
  have "strip_suffix (b @ ''.meta'') ''.meta'' = Some b"
    by (simp add: strip_suffix_Some)
  then show ?thesis
    by (simp add: blob_of_def)
qed

lemmas run_rules = prim_Nil prim_Done prim_Fails prim_Crash return_io_def fail_io_def bind_io_def
  ignore_def cleanup_def create_new_def write_all_def sync_all_def rename_file_def remove_file_def
  read_file_def file_exists_def sync_dir_def rename_durable_def write_file_atomic_with_def
  write_file_atomic_def

text \<open>A directory with a complete pair and the new bytes written, before the journal exists.\<close>

definition rewrite_ready :: "string \<Rightarrow> string \<Rightarrow> bytes \<Rightarrow> bytes \<Rightarrow> bytes \<Rightarrow> disk \<Rightarrow> bool" where
  "rewrite_ready u b old old_json new d \<longleftrightarrow>
     d b = Some old \<and> d (b @ ''.meta'') = Some old_json \<and> d (rewrite_tmp_path b) = Some new \<and>
     d (pending_sidecar_path (b @ ''.meta'')) = None \<and>
     d (pending_sidecar_path (b @ ''.meta'') @ ''.'' @ u @ ''.tmp'') = None"

text \<open>A directory that holds the given pair and no leftover of a rewrite.\<close>

definition settled :: "string \<Rightarrow> bytes \<Rightarrow> bytes \<Rightarrow> disk \<Rightarrow> bool" where
  "settled b bs json d \<longleftrightarrow>
     d b = Some bs \<and> d (b @ ''.meta'') = Some json \<and> d (rewrite_tmp_path b) = None \<and>
     d (pending_sidecar_path (b @ ''.meta'')) = None"

text \<open>What a run leaves on disk.\<close>

definition disk_after :: "'a io \<Rightarrow> outcome list \<Rightarrow> disk \<Rightarrow> disk" where
  "disk_after p os d = snd (snd (p os d))"

text \<open>The states a crash can leave.\<close>

definition journalled :: "string \<Rightarrow> bytes \<Rightarrow> bytes \<Rightarrow> bytes option \<Rightarrow> bytes option \<Rightarrow> disk \<Rightarrow> bool" where
  "journalled b bs json tmp pending d \<longleftrightarrow>
     d b = Some bs \<and> d (b @ ''.meta'') = Some json \<and> d (rewrite_tmp_path b) = tmp \<and>
     d (pending_sidecar_path (b @ ''.meta'')) = pending"

lemma settled_journalled: "settled b bs json d \<longleftrightarrow> journalled b bs json None None d"
  by (simp add: settled_def journalled_def)

subsection \<open>Crash points of a commit\<close>

lemma atMost_cases:
  fixes n :: nat
  shows "n \<le> 3 \<Longrightarrow> n = 0 \<or> n = 1 \<or> n = 2 \<or> n = 3"
    and "4 \<le> n \<Longrightarrow> n \<le> 5 \<Longrightarrow> n = 4 \<or> n = 5"
    and "6 \<le> n \<Longrightarrow> n \<le> 7 \<Longrightarrow> n = 6 \<or> n = 7"
  by arith+

lemma commit_crash_before_journal:
  assumes "rewrite_ready u b old old_json new d" "n \<le> 3"
  shows "journalled b old old_json (Some new) None
    (disk_after (commit_rewrite_sync u b (b @ ''.meta'') json) (replicate n Done @ [Crash]) d)"
  using atMost_cases(1) [OF assms(2)] assms(1)
  by (elim disjE)
     (simp_all add: numeral_eq_Suc commit_rewrite_sync_def disk_after_def journalled_def
        rewrite_ready_def rewrite_names run_rules Let_def)

lemma commit_crash_before_rename:
  assumes "rewrite_ready u b old old_json new d" "4 \<le> n" "n \<le> 5"
  shows "journalled b old old_json (Some new) (Some json)
    (disk_after (commit_rewrite_sync u b (b @ ''.meta'') json) (replicate n Done @ [Crash]) d)"
  using atMost_cases(2) [OF assms(2,3)] assms(1)
  by (elim disjE)
     (simp_all add: numeral_eq_Suc commit_rewrite_sync_def disk_after_def journalled_def
        rewrite_ready_def rewrite_names run_rules Let_def)

lemma commit_crash_after_rename:
  assumes "rewrite_ready u b old old_json new d" "6 \<le> n" "n \<le> 7"
  shows "journalled b new old_json None (Some json)
    (disk_after (commit_rewrite_sync u b (b @ ''.meta'') json) (replicate n Done @ [Crash]) d)"
  using atMost_cases(3) [OF assms(2,3)] assms(1)
  by (elim disjE)
     (simp_all add: numeral_eq_Suc commit_rewrite_sync_def disk_after_def journalled_def
        rewrite_ready_def rewrite_names run_rules Let_def)

lemma commit_crash_at_end:
  assumes "rewrite_ready u b old old_json new d" "8 \<le> n"
  shows "journalled b new json None None
    (disk_after (commit_rewrite_sync u b (b @ ''.meta'') json) (replicate n Done @ [Crash]) d)"
proof -
  obtain k where n: "n = Suc (Suc (Suc (Suc (Suc (Suc (Suc (Suc k)))))))"
    using le_Suc_ex [OF assms(2)] by (auto simp: numeral_eq_Suc)
  show ?thesis
    using assms(1) unfolding n
    by (cases k)
       (simp_all add: commit_rewrite_sync_def disk_after_def journalled_def
          rewrite_ready_def rewrite_names run_rules Let_def)
qed

subsection \<open>Recovery\<close>

lemma resolve_temp_only:
  assumes "journalled b bs json (Some new) None d"
  shows "fst (resolve_pending_sync dec (b @ ''.meta'') [] d) = Value Discarded
    \<and> settled b bs json (disk_after (resolve_pending_sync dec (b @ ''.meta'')) [] d)"
  using assms
  by (simp add: resolve_pending_sync_def blob_of_meta disk_after_def journalled_def settled_def
      rewrite_names run_rules Let_def)

lemma resolve_journal_and_temp:
  assumes "journalled b bs json (Some new) (Some j) d"
  shows "fst (resolve_pending_sync dec (b @ ''.meta'') [] d) = Value Discarded
    \<and> settled b bs json (disk_after (resolve_pending_sync dec (b @ ''.meta'')) [] d)"
  using assms
  by (simp add: resolve_pending_sync_def blob_of_meta disk_after_def journalled_def settled_def
      rewrite_names run_rules Let_def)

lemma resolve_journal_only:
  assumes "journalled b bs json None (Some j) d" "dec j = Some m"
  shows "fst (resolve_pending_sync dec (b @ ''.meta'') [] d) = Value (RolledForward m)
    \<and> settled b bs j (disk_after (resolve_pending_sync dec (b @ ''.meta'')) [] d)"
  using assms
  by (simp add: resolve_pending_sync_def blob_of_meta disk_after_def journalled_def settled_def
      rewrite_names run_rules Let_def)

lemma resolve_clean:
  assumes "journalled b bs json None None d"
  shows "fst (resolve_pending_sync dec (b @ ''.meta'') [] d) = Value Clean
    \<and> settled b bs json (disk_after (resolve_pending_sync dec (b @ ''.meta'')) [] d)"
  using assms
  by (simp add: resolve_pending_sync_def blob_of_meta disk_after_def journalled_def settled_def
      rewrite_names run_rules Let_def)

lemma resolve_journal_crash:
  assumes "journalled b bs json None (Some j) d" "dec j = Some m"
  shows "journalled b bs json None (Some j)
      (disk_after (resolve_pending_sync dec (b @ ''.meta'')) (replicate k Done @ [Crash]) d) \<or>
    journalled b bs j None None
      (disk_after (resolve_pending_sync dec (b @ ''.meta'')) (replicate k Done @ [Crash]) d)"
proof (cases k)
  case 0
  then show ?thesis
    using assms by (simp add: resolve_pending_sync_def blob_of_meta disk_after_def journalled_def
      rewrite_names run_rules Let_def)
next
  case (Suc k')
  then show ?thesis
    using assms by (cases k') (simp_all add: resolve_pending_sync_def blob_of_meta disk_after_def
      journalled_def rewrite_names run_rules Let_def)
qed

lemma recovers_new:
  assumes "journalled b bs json None (Some j) d \<or> journalled b bs j None None d" "dec j = Some m"
  shows "settled b bs j (disk_after (resolve_pending_sync dec (b @ ''.meta'')) [] d)"
  using assms(1)
proof
  assume "journalled b bs json None (Some j) d"
  from conjunct2 [OF resolve_journal_only [where dec = dec, OF this assms(2)]] show ?thesis .
next
  assume "journalled b bs j None None d"
  from conjunct2 [OF resolve_clean [OF this]] show ?thesis .
qed

lemma resolve_clean_crash:
  assumes "journalled b bs json None None d"
  shows "journalled b bs json None None (disk_after (resolve_pending_sync dec (b @ ''.meta'')) os d)"
  using assms
  by (cases os rule: list.exhaust; cases "hd os")
     (simp_all add: resolve_pending_sync_def blob_of_meta disk_after_def journalled_def
       rewrite_names run_rules Let_def)

lemma replaced_blob_recovers:
  assumes "journalled b bs json None (Some j) d \<or> journalled b bs j None None d" "dec j = Some m"
  shows "settled b bs j (disk_after (resolve_pending_sync dec (b @ ''.meta'')) []
     (disk_after (resolve_pending_sync dec (b @ ''.meta'')) (replicate k Done @ [Crash]) d))"
proof (rule recovers_new [where dec = dec, OF _ assms(2)])
  show "journalled b bs json None (Some j)
      (disk_after (resolve_pending_sync dec (b @ ''.meta'')) (replicate k Done @ [Crash]) d) \<or>
    journalled b bs j None None
      (disk_after (resolve_pending_sync dec (b @ ''.meta'')) (replicate k Done @ [Crash]) d)"
    using assms(1)
  proof
    assume "journalled b bs json None (Some j) d"
    from this assms(2) show ?thesis
      by (rule resolve_journal_crash [where dec = dec])
  next
    assume "journalled b bs j None None d"
    then show ?thesis
      by (intro disjI2 resolve_clean_crash)
  qed
qed

lemma recovery_old:
  assumes "journalled b old old_json (Some new) pending d"
  shows "(\<exists>r. fst (resolve_pending_sync dec (b @ ''.meta'') [] d) = Value r) \<and>
    settled b old old_json (disk_after (resolve_pending_sync dec (b @ ''.meta'')) [] d)"
proof (cases pending)
  case None
  from resolve_temp_only [OF assms [unfolded None], of dec] show ?thesis
    by (elim conjE) (intro conjI exI)
next
  case (Some j)
  from resolve_journal_and_temp [OF assms [unfolded Some], of dec] show ?thesis
    by (elim conjE) (intro conjI exI)
qed

lemma recovery_new:
  assumes "journalled b new old_json None (Some json) d \<or> journalled b new json None None d"
    and "dec json = Some m"
  shows "(\<exists>r. fst (resolve_pending_sync dec (b @ ''.meta'') [] d) = Value r) \<and>
    settled b new json (disk_after (resolve_pending_sync dec (b @ ''.meta'')) [] d) \<and>
    (\<forall>k. settled b new json (disk_after (resolve_pending_sync dec (b @ ''.meta'')) []
      (disk_after (resolve_pending_sync dec (b @ ''.meta'')) (replicate k Done @ [Crash]) d)))"
proof (intro conjI allI)
  show "\<exists>r. fst (resolve_pending_sync dec (b @ ''.meta'') [] d) = Value r"
    using assms(1)
  proof
    assume "journalled b new old_json None (Some json) d"
    from conjunct1 [OF resolve_journal_only [where dec = dec, OF this assms(2)]] show ?thesis
      by (rule exI)
  next
    assume "journalled b new json None None d"
    from conjunct1 [OF resolve_clean [OF this, of dec]] show ?thesis
      by (rule exI)
  qed
  show "settled b new json (disk_after (resolve_pending_sync dec (b @ ''.meta'')) [] d)"
    using assms by (rule recovers_new [where dec = dec])
  show "settled b new json (disk_after (resolve_pending_sync dec (b @ ''.meta'')) []
      (disk_after (resolve_pending_sync dec (b @ ''.meta'')) (replicate k Done @ [Crash]) d))" for k
    using assms by (rule replaced_blob_recovers [where dec = dec])
qed

text \<open>
  C4: Let a directory hold a blob with its sidecar and the new bytes in the temporary file, and let
  the commit of the rewrite crash after any number of file operations. The next recovery returns a
  value and leaves a consistent pair with no leftovers: the old blob with the old sidecar when the
  crash came before the rename of the blob, the new blob with the new sidecar otherwise. In the
  second case this holds too when the recovery itself crashes at any point and is run again.\<close>

theorem crashed_rewrite_recovers:
  assumes "rewrite_ready u b old old_json new d" "dec json = Some m"
    and "d1 = disk_after (commit_rewrite_sync u b (b @ ''.meta'') json) (replicate n Done @ [Crash]) d"
  shows "(\<exists>r. fst (resolve_pending_sync dec (b @ ''.meta'') [] d1) = Value r) \<and>
    (if n < 6 then settled b old old_json (disk_after (resolve_pending_sync dec (b @ ''.meta'')) [] d1)
     else settled b new json (disk_after (resolve_pending_sync dec (b @ ''.meta'')) [] d1) \<and>
       (\<forall>k. settled b new json (disk_after (resolve_pending_sync dec (b @ ''.meta'')) []
         (disk_after (resolve_pending_sync dec (b @ ''.meta'')) (replicate k Done @ [Crash]) d1))))"
proof (cases "n < 6")
  case True
  have "\<exists>p. journalled b old old_json (Some new) p d1"
  proof (cases "n \<le> 3")
    case True
    then show ?thesis
      unfolding assms(3) by (intro exI) (rule commit_crash_before_journal [OF assms(1)])
  next
    case False
    with \<open>n < 6\<close> have "4 \<le> n" "n \<le> 5"
      by simp_all
    then show ?thesis
      unfolding assms(3) by (intro exI) (rule commit_crash_before_rename [OF assms(1)])
  qed
  then obtain p where "journalled b old old_json (Some new) p d1" ..
  then show ?thesis
    unfolding if_P [OF True] by (rule recovery_old)
next
  case False
  have "journalled b new old_json None (Some json) d1 \<or> journalled b new json None None d1"
  proof (cases "n \<le> 7")
    case True
    with False show ?thesis
      unfolding assms(3) by (intro disjI1 commit_crash_after_rename [OF assms(1)]) simp_all
  next
    case False
    then show ?thesis
      unfolding assms(3) by (intro disjI2 commit_crash_at_end [OF assms(1)]) simp
  qed
  then show ?thesis
    unfolding if_not_P [OF False] using assms(2) by (rule recovery_new [where dec = dec])
qed

text \<open>
  C33: The recovery deletes the new bytes before the journal. When it crashes between the two, or when
  the commit itself fails because the directory sync of the journal fails, the next recovery takes
  the journal for a replaced blob: it puts the new sidecar over the old bytes and reports success.\<close>

theorem interrupted_discard_mixes_pair:
  assumes "rewrite_ready u b old old_json new d" "dec json = Some m"
    and "d1 = disk_after (commit_rewrite_sync u b (b @ ''.meta'') json) (replicate 5 Done @ [Crash]) d"
    and "d2 = disk_after (resolve_pending_sync dec (b @ ''.meta'')) [Done, Crash] d1"
    and "d3 = disk_after (commit_rewrite_sync u b (b @ ''.meta'') json) (replicate 4 Done @ [Fails]) d"
  shows "fst (resolve_pending_sync dec (b @ ''.meta'') [] d2) = Value (RolledForward m) \<and>
    settled b old json (disk_after (resolve_pending_sync dec (b @ ''.meta'')) [] d2) \<and>
    fst (resolve_pending_sync dec (b @ ''.meta'') [] d3) = Value (RolledForward m) \<and>
    settled b old json (disk_after (resolve_pending_sync dec (b @ ''.meta'')) [] d3)"
proof -
  have "journalled b old old_json (Some new) (Some json) d1"
    unfolding assms(3) by (rule commit_crash_before_rename [OF assms(1)]) simp_all
  then have "journalled b old old_json None (Some json) d2"
    unfolding assms(4) by (simp add: resolve_pending_sync_def blob_of_meta disk_after_def
      journalled_def rewrite_names run_rules Let_def)
  moreover have "journalled b old old_json None (Some json) d3"
    unfolding assms(5) using assms(1)
    by (simp add: numeral_eq_Suc commit_rewrite_sync_def disk_after_def journalled_def
        rewrite_ready_def rewrite_names run_rules Let_def)
  ultimately show ?thesis
    using resolve_journal_only [where dec = dec, OF _ assms(2)] by blast
qed

subsection \<open>A sample directory\<close>

definition sample_disk :: disk where
  "sample_disk = [''abc'' \<mapsto> ''old'', ''abc.meta'' \<mapsto> ''old sidecar'', ''abc.rewrite.tmp'' \<mapsto> ''new'']"

lemma sample_ready: "rewrite_ready ''u'' ''abc'' ''old'' ''old sidecar'' ''new'' sample_disk"
  by (simp add: rewrite_ready_def sample_disk_def rewrite_names)

theorem crashed_rewrite_recovers_witness:
  "settled ''abc'' ''old'' ''old sidecar'' (disk_after (resolve_pending_sync Some ''abc.meta'') []
     (disk_after (commit_rewrite_sync ''u'' ''abc'' ''abc.meta'' ''new sidecar'') (replicate 5 Done @ [Crash]) sample_disk)) \<and>
   settled ''abc'' ''new'' ''new sidecar'' (disk_after (resolve_pending_sync Some ''abc.meta'') []
     (disk_after (commit_rewrite_sync ''u'' ''abc'' ''abc.meta'' ''new sidecar'') (replicate 6 Done @ [Crash]) sample_disk))"
  using crashed_rewrite_recovers [OF sample_ready, of Some "''new sidecar''" "''new sidecar''" _ 5, OF refl refl]
    crashed_rewrite_recovers [OF sample_ready, of Some "''new sidecar''" "''new sidecar''" _ 6, OF refl refl]
  by simp

theorem interrupted_discard_mixes_pair_witness:
  "settled ''abc'' ''old'' ''new sidecar'' (disk_after (resolve_pending_sync Some ''abc.meta'') []
     (disk_after (commit_rewrite_sync ''u'' ''abc'' ''abc.meta'' ''new sidecar'') (replicate 4 Done @ [Fails]) sample_disk))"
  using interrupted_discard_mixes_pair [OF sample_ready, of Some "''new sidecar''" "''new sidecar''", OF refl refl refl refl]
  by simp

end
