(* ===== verification/Utf8.thy ===== *)
theory Utf8
  imports Arca_Prelude
begin

section \<open>Code points and their UTF-8 bytes\<close>

text \<open>
  Rust's \<^verbatim>\<open>char\<close> is a Unicode scalar value and a \<^verbatim>\<open>str\<close> is the UTF-8 encoding of a sequence of
  them. Listings compute key ranges on code points and compare keys bytewise; the lemmas here
  relate the two: the encoding keeps the order, and it is a prefix code.
\<close>

definition is_scalar :: "nat \<Rightarrow> bool" where
  "is_scalar c \<longleftrightarrow> c < 0xD800 \<or> 0xE000 \<le> c \<and> c < 0x110000"

definition utf8_bytes :: "nat \<Rightarrow> nat list" where
  "utf8_bytes c =
     (if c < 0x80 then [c]
      else if c < 0x800 then [0xC0 + c div 64, 0x80 + c mod 64]
      else if c < 0x10000 then [0xE0 + c div 64 div 64, 0x80 + c div 64 mod 64, 0x80 + c mod 64]
      else [0xF0 + c div 64 div 64 div 64, 0x80 + c div 64 div 64 mod 64, 0x80 + c div 64 mod 64, 0x80 + c mod 64])"

definition utf8_char :: "nat \<Rightarrow> string" where
  "utf8_char c = map char_of (utf8_bytes c)"

definition utf8 :: "nat list \<Rightarrow> string" where
  "utf8 cs = concat (map utf8_char cs)"

text \<open>\<^verbatim>\<open>str::chars\<close>: the code points of a string, decoded from its bytes.\<close>

fun chars :: "string \<Rightarrow> nat list" where
  "chars [] = []"
| "chars (a # s) =
     (if of_char a < (0x80 :: nat) then of_char a # chars s
      else if of_char a < (0xE0 :: nat) then
        (case s of b # s' \<Rightarrow> ((of_char a - 0xC0) * 64 + (of_char b - 0x80)) # chars s' | _ \<Rightarrow> [])
      else if of_char a < (0xF0 :: nat) then
        (case s of b # c # s' \<Rightarrow>
           (((of_char a - 0xE0) * 64 + (of_char b - 0x80)) * 64 + (of_char c - 0x80)) # chars s' | _ \<Rightarrow> [])
      else
        (case s of b # c # d # s' \<Rightarrow>
           ((((of_char a - 0xF0) * 64 + (of_char b - 0x80)) * 64 + (of_char c - 0x80)) * 64 + (of_char d - 0x80)) # chars s'
         | _ \<Rightarrow> []))"

lemma utf8_simps [simp]: "utf8 [] = []" "utf8 (c # cs) = utf8_char c @ utf8 cs" "utf8 (xs @ ys) = utf8 xs @ utf8 ys"
  by (simp_all add: utf8_def)

lemma utf8_char_not_Nil [simp]: "utf8_char c \<noteq> []"
  by (simp add: utf8_char_def utf8_bytes_def)

lemma char_of_less: "m < 256 \<Longrightarrow> n < 256 \<Longrightarrow> (char_of m :: char) < char_of n \<longleftrightarrow> m < (n :: nat)"
  by (simp add: less_char_def)

lemma char_of_eq: "m < 256 \<Longrightarrow> n < 256 \<Longrightarrow> (char_of m :: char) = char_of n \<longleftrightarrow> m = (n :: nat)"
  by (metis mod_less of_char_of)

lemma div_mod_less:
  fixes c d :: nat
  assumes "c < d"
  shows "c div 64 < d div 64 \<or> c div 64 = d div 64 \<and> c mod 64 < d mod 64"
proof -
  have "c div 64 \<le> d div 64"
    using assms by (simp add: div_le_mono)
  moreover have "c mod 64 < d mod 64" if "c div 64 = d div 64"
    using assms that div_mult_mod_eq [of c 64] div_mult_mod_eq [of d 64] by linarith
  ultimately show ?thesis
    by linarith
qed

lemma utf8_bytes_256:
  assumes "c < 0x110000"
  shows "list_all (\<lambda>b. b < 256) (utf8_bytes c)"
proof -
  have "c div 64 < 64" if "c < 0x800"
    using that by (simp add: less_mult_imp_div_less)
  moreover have "c div 64 div 64 < 32" if "c < 0x10000"
    using that by (simp add: less_mult_imp_div_less)
  moreover have "c div 64 div 64 div 64 < 16"
    using assms by (simp add: less_mult_imp_div_less)
  moreover have "n mod 64 < 128" for n :: nat
    using mod_less_divisor [of 64 n] by linarith
  ultimately show ?thesis
    by (simp add: utf8_bytes_def)
qed

text \<open>\<open>before xs ys\<close>: the lists differ at a position inside both, and \<open>xs\<close> is smaller there.\<close>

definition before :: "'a::linorder list \<Rightarrow> 'a list \<Rightarrow> bool" where
  "before xs ys \<longleftrightarrow> (\<exists>p a b u v. xs = p @ a # u \<and> ys = p @ b # v \<and> a < b)"

lemma before_Cons: "before (a # u) (b # v) \<longleftrightarrow> a < b \<or> a = b \<and> before u v"
proof
  assume "before (a # u) (b # v)"
  then obtain p x y r w where "a # u = p @ x # r" "b # v = p @ y # w" "x < y"
    by (auto simp: before_def)
  then show "a < b \<or> a = b \<and> before u v"
    by (cases p) (auto simp: before_def)
next
  assume "a < b \<or> a = b \<and> before u v"
  then show "before (a # u) (b # v)"
  proof
    assume "a < b"
    then show ?thesis
      unfolding before_def by (intro exI [of _ "[]"]) simp
  next
    assume "a = b \<and> before u v"
    then show ?thesis
      unfolding before_def by (metis append_Cons)
  qed
qed

lemma not_before_Nil [simp]: "\<not> before [] ys" "\<not> before xs []"
  by (simp_all add: before_def)

lemma before_less: "before xs ys \<Longrightarrow> xs @ u < ys @ v"
  by (auto simp: before_def list_less_def lexord_append_leftI)

text \<open>Of two code points the smaller has the smaller encoding, decided before either encoding ends.\<close>

lemma utf8_bytes_before:
  assumes "c < d" "d < 0x110000"
  shows "before (utf8_bytes c) (utf8_bytes d)"
proof -
  note q = div_mod_less [OF assms(1)] and q2 = div_mod_less [of "c div 64" "d div 64"]
    and q3 = div_mod_less [of "c div 64 div 64" "d div 64 div 64"]
  have small: "c div 64 < 32" if "c < 0x800"
    using that by (simp add: less_mult_imp_div_less)
  have mid: "c div 64 div 64 < 16" if "c < 0x10000"
    using that by (simp add: less_mult_imp_div_less)
  consider "c < 0x80" | "\<not> c < 0x80" "d < 0x800" | "\<not> c < 0x80" "c < 0x800" "\<not> d < 0x800"
    | "\<not> c < 0x800" "d < 0x10000" | "\<not> c < 0x800" "c < 0x10000" "\<not> d < 0x10000" | "\<not> c < 0x10000"
    by linarith
  then show ?thesis
  proof cases
    case 1
    with assms(1) show ?thesis
      by (simp add: utf8_bytes_def before_Cons)
  next
    case 2
    with assms(1) have "utf8_bytes c = [0xC0 + c div 64, 0x80 + c mod 64]"
      "utf8_bytes d = [0xC0 + d div 64, 0x80 + d mod 64]"
      by (simp_all add: utf8_bytes_def)
    with q show ?thesis
      by (simp only: before_Cons add_less_cancel_left add_left_cancel) blast
  next
    case 3
    with small show ?thesis
      by (simp add: utf8_bytes_def before_Cons)
  next
    case 4
    with assms(1) have
      "utf8_bytes c = [0xE0 + c div 64 div 64, 0x80 + c div 64 mod 64, 0x80 + c mod 64]"
      "utf8_bytes d = [0xE0 + d div 64 div 64, 0x80 + d div 64 mod 64, 0x80 + d mod 64]"
      by (simp_all add: utf8_bytes_def)
    with q q2 show ?thesis
      by (simp only: before_Cons add_less_cancel_left add_left_cancel) metis
  next
    case 5
    with mid show ?thesis
      by (simp add: utf8_bytes_def before_Cons)
  next
    case 6
    with assms(1) have
      "utf8_bytes c = [0xF0 + c div 64 div 64 div 64, 0x80 + c div 64 div 64 mod 64, 0x80 + c div 64 mod 64, 0x80 + c mod 64]"
      "utf8_bytes d = [0xF0 + d div 64 div 64 div 64, 0x80 + d div 64 div 64 mod 64, 0x80 + d div 64 mod 64, 0x80 + d mod 64]"
      by (simp_all add: utf8_bytes_def)
    with q q2 q3 show ?thesis
      by (simp only: before_Cons add_less_cancel_left add_left_cancel) metis
  qed
qed

lemma before_map_char:
  fixes xs ys :: "nat list"
  assumes "before xs ys" "list_all (\<lambda>b. b < 256) ys"
  shows "before (map char_of xs :: string) (map char_of ys)"
proof -
  obtain p a b u v where "xs = p @ a # u" "ys = p @ b # v" "a < b"
    using assms(1) by (auto simp: before_def)
  moreover from this assms(2) have "(char_of a :: char) < char_of b"
    by (simp add: char_of_less)
  ultimately show ?thesis
    unfolding before_def by (intro exI [of _ "map char_of p"]) auto
qed

lemma utf8_char_before: "c < d \<Longrightarrow> d < 0x110000 \<Longrightarrow> before (utf8_char c) (utf8_char d)"
  by (simp add: utf8_char_def before_map_char utf8_bytes_before utf8_bytes_256)

subsection \<open>The encoding keeps the order and is a prefix code\<close>

definition scalars :: "nat list \<Rightarrow> bool" where
  "scalars cs \<longleftrightarrow> list_all is_scalar cs"

lemma scalars_simps [simp]: "scalars []" "scalars (c # cs) \<longleftrightarrow> is_scalar c \<and> scalars cs"
  "scalars (xs @ ys) \<longleftrightarrow> scalars xs \<and> scalars ys"
  by (simp_all add: scalars_def)

lemma is_scalar_bound: "is_scalar c \<Longrightarrow> c < 0x110000"
  by (auto simp: is_scalar_def)

lemma utf8_char_less:
  "c < d \<Longrightarrow> is_scalar d \<Longrightarrow> utf8_char c @ xs < utf8_char d @ ys"
  by (rule before_less) (simp add: utf8_char_before is_scalar_bound)

lemma utf8_char_neq:
  assumes "is_scalar c" "is_scalar d" "utf8_char c @ xs = utf8_char d @ ys"
  shows "c = d"
  using utf8_char_less [of c d xs ys] utf8_char_less [of d c ys xs] assms
  by (metis linorder_neqE_nat order_less_irrefl)

lemma Nil_less_iff: "[] < xs \<longleftrightarrow> (xs :: 'a::linorder list) \<noteq> []"
  by (cases xs) simp_all

lemma append_less_append: "(p @ xs < p @ ys) \<longleftrightarrow> (xs :: 'a::linorder list) < ys"
  by (induction p) simp_all

lemma utf8_less:
  "scalars xs \<Longrightarrow> scalars ys \<Longrightarrow> utf8 xs < utf8 ys \<longleftrightarrow> xs < ys"
proof (induction xs arbitrary: ys)
  case Nil
  then show ?case
    by (cases ys) (simp_all add: Nil_less_iff)
next
  case (Cons c xs)
  show ?case
  proof (cases ys)
    case Nil
    then show ?thesis
      by simp
  next
    case (Cons d ys')
    then show ?thesis
      using Cons.prems Cons.IH [of ys'] utf8_char_less [of c d "utf8 xs" "utf8 ys'"]
        utf8_char_less [of d c "utf8 ys'" "utf8 xs"]
      by (cases c d rule: linorder_cases) (auto simp: append_less_append dest: less_asym)
  qed
qed

lemma utf8_prefix:
  "scalars p \<Longrightarrow> scalars k \<Longrightarrow> starts_with (utf8 k) (utf8 p) \<longleftrightarrow> starts_with k p"
proof (induction p arbitrary: k)
  case Nil
  then show ?case
    by (simp add: starts_with_def)
next
  case (Cons c p)
  show ?case
  proof (cases k)
    case Nil
    then show ?thesis
      by (simp add: starts_with_def)
  next
    case (Cons d k')
    have "c = d" if pre: "starts_with (utf8_char d @ utf8 k') (utf8_char c @ utf8 p)"
    proof -
      obtain r where "utf8_char d @ utf8 k' = utf8_char c @ utf8 p @ r"
        using pre by (auto simp: starts_with_iff)
      from utf8_char_neq [OF _ _ this] Cons Cons.prems show ?thesis
        by simp
    qed
    with Cons Cons.prems Cons.IH [of k'] show ?thesis
      by (auto simp: starts_with_iff)
  qed
qed

text \<open>Decoding what was encoded. A Rust string holds the encoding of scalar values.\<close>

lemma chars_utf8_char:
  assumes "c < 0x110000"
  shows "chars (utf8_char c @ s) = c # chars s"
proof -
  have mods: "n div 64 * 64 + n mod 64 = n" for n :: nat
    by (rule div_mult_mod_eq)
  have low: "n mod 64 < 128" for n :: nat
    using mod_less_divisor [of 64 n] by linarith
  have all: "4096 * (c div 64 div 64) + c div 64 mod 64 * 64 + c mod 64 = c"
    using mods [of "c div 64"] mods [of c] by linarith
  have two: "c div 64 < 32" if "c < 0x800"
    using that by (simp add: less_mult_imp_div_less)
  have three: "c div 64 div 64 < 16" if "c < 0x10000"
    using that by (simp add: less_mult_imp_div_less)
  have four: "c div 64 div 64 div 64 < 16"
    using assms by (simp add: less_mult_imp_div_less)
  consider "c < 0x80" | "\<not> c < 0x80" "c < 0x800" | "\<not> c < 0x800" "c < 0x10000" | "\<not> c < 0x10000"
    by blast
  then show ?thesis
  proof cases
    case 1
    then show ?thesis
      by (simp add: utf8_char_def utf8_bytes_def)
  next
    case 2
    then show ?thesis
      using two low by (simp add: utf8_char_def utf8_bytes_def mods)
  next
    case 3
    then show ?thesis
      using three low by (simp add: utf8_char_def utf8_bytes_def mods)
  next
    case 4
    then show ?thesis
      using four low all by (simp add: utf8_char_def utf8_bytes_def mods)
  qed
qed

lemma chars_utf8 [simp]: "scalars cs \<Longrightarrow> chars (utf8 cs) = cs"
  by (induction cs) (simp_all add: chars_utf8_char is_scalar_bound del: chars.simps(2))

definition is_utf8 :: "string \<Rightarrow> bool" where
  "is_utf8 s \<longleftrightarrow> scalars (chars s) \<and> utf8 (chars s) = s"

lemma is_utf8_utf8: "scalars cs \<Longrightarrow> is_utf8 (utf8 cs)"
  by (simp add: is_utf8_def)

lemma is_utf8_ascii: "list_all (\<lambda>c. of_char c < (128 :: nat)) s \<Longrightarrow> is_utf8 s"
  by (induction s) (auto simp: is_utf8_def is_scalar_def utf8_char_def utf8_bytes_def)

subsection \<open>Cutting at a character\<close>

definition is_continuation :: "char \<Rightarrow> bool" where
  "is_continuation b \<longleftrightarrow> 0x80 \<le> (of_char b :: nat) \<and> of_char b < (0xC0 :: nat)"

lemma utf8_char_bytes:
  assumes "c < 0x110000"
  obtains b bs where "utf8_char c = b # bs" "\<not> is_continuation b" "list_all is_continuation bs"
proof -
  have low: "n mod 64 < 64" for n :: nat
    by simp
  have "list_all is_continuation (tl (utf8_char c))"
    by (simp add: utf8_char_def utf8_bytes_def is_continuation_def low)
  moreover have "\<not> is_continuation (hd (utf8_char c))"
  proof -
    have "c div 64 < 32" if "c < 0x800"
      using that by (simp add: less_mult_imp_div_less)
    moreover have "c div 64 div 64 < 16" if "c < 0x10000"
      using that by (simp add: less_mult_imp_div_less)
    moreover have "c div 64 div 64 div 64 < 16"
      using assms by (simp add: less_mult_imp_div_less)
    ultimately show ?thesis
      by (auto simp: utf8_char_def utf8_bytes_def is_continuation_def)
  qed
  ultimately show ?thesis
    using that [of "hd (utf8_char c)" "tl (utf8_char c)"] by simp
qed

lemma utf8_cut:
  "scalars cs \<Longrightarrow> utf8 cs = a @ b \<Longrightarrow> b = [] \<or> \<not> is_continuation (hd b) \<Longrightarrow>
    \<exists>x y. cs = x @ y \<and> a = utf8 x \<and> b = utf8 y"
proof (induction cs arbitrary: a)
  case Nil
  then show ?case
    by simp
next
  case (Cons c cs)
  show ?case
  proof (cases "length (utf8_char c) \<le> length a")
    case True
    with Cons.prems(2) obtain a' where a': "a = utf8_char c @ a'" "utf8 cs = a' @ b"
      by (auto simp: append_eq_append_conv2)
    with Cons.IH [of a'] Cons.prems obtain x y where "cs = x @ y" "a' = utf8 x" "b = utf8 y"
      by auto
    with a' show ?thesis
      by (intro exI [of _ "c # x"] exI [of _ y]) simp
  next
    case False
    show ?thesis
    proof (cases a)
      case Nil
      with Cons.prems show ?thesis
        by (intro exI [of _ "[]"] exI [of _ "c # cs"]) simp
    next
      case (Cons h t)
      have "c < 0x110000"
        using Cons.prems(1) is_scalar_bound by simp
      then obtain d ds where d: "utf8_char c = d # ds" "\<not> is_continuation d" "list_all is_continuation ds"
        by (rule utf8_char_bytes)
      with False Cons \<open>utf8 (c # cs) = a @ b\<close> obtain us where us: "ds = t @ us" "b = us @ utf8 cs" "us \<noteq> []"
        by (auto simp: append_eq_append_conv2 Cons_eq_append_conv)
      then obtain u v where "ds = t @ u # v" "hd b = u" "b \<noteq> []"
        by (cases us) auto
      with d(3) \<open>b = [] \<or> \<not> is_continuation (hd b)\<close> show ?thesis
        by simp
    qed
  qed
qed

lemma is_utf8_cut:
  assumes "is_utf8 (a @ d @ r)" "is_utf8 d" "d \<noteq> []"
  shows "is_utf8 (a @ d)"
proof -
  obtain cs ds where cs: "scalars cs" "utf8 cs = a @ d @ r" and ds: "scalars ds" "utf8 ds = d"
    using assms(1,2) by (auto simp: is_utf8_def)
  then obtain e es where "ds = e # es"
    using assms(3) by (cases ds) auto
  then have "\<not> is_continuation (hd d)"
    using ds utf8_char_bytes [of e] is_scalar_bound [of e] by (metis append_Cons list.sel(1) scalars_simps(2) utf8_simps(2))
  with utf8_cut [OF cs, of] assms(3) obtain x y where xy: "cs = x @ y" "a = utf8 x" "d @ r = utf8 y"
    by auto
  have "a @ d = utf8 (x @ ds)"
    using xy(2) ds(2) by simp
  moreover have "scalars (x @ ds)"
    using cs(1) xy(1) ds(1) by simp
  ultimately show ?thesis
    by (metis is_utf8_utf8)
qed

end
