(* ===== verification/Listing.thy ===== *)
theory Listing
  imports Object_Store_Invariant Utf8
begin

section \<open>Listing queries (arca-storage/src/sqlite/metadata.rs)\<close>

text \<open>
  The queries behind ListObjects and ListObjectVersions. SQLite compares keys
  bytewise, while the code computes the end of the key range of a prefix on code points.
\<close>

subsection \<open>The key range of a prefix\<close>

text \<open>The character after \<open>c\<close>: surrogates are stepped over and U+10FFFF has none.\<close>

definition next_char :: "nat \<Rightarrow> nat option" where
  "next_char c = (if c = 0xD7FF then Some 0xE000 else if is_scalar (c + 1) then Some (c + 1) else None)"

text \<open>The loop pops characters from the end, so it runs over the reversed prefix.\<close>

fun bound_rev :: "nat list \<Rightarrow> nat list option" where
  "bound_rev [] = None"
| "bound_rev (c # cs) = (case next_char c of Some d \<Rightarrow> Some (rev (d # cs)) | None \<Rightarrow> bound_rev cs)"

definition prefix_upper_bound :: "string \<Rightarrow> string option" where
  "prefix_upper_bound p = map_option utf8 (bound_rev (rev (chars p)))"

definition push_prefix_filter :: "string \<Rightarrow> string \<Rightarrow> bool" where
  "push_prefix_filter p k \<longleftrightarrow> p \<le> k \<and> (case prefix_upper_bound p of None \<Rightarrow> True | Some b \<Rightarrow> k < b)"

definition prefix_matches :: "string option \<Rightarrow> string \<Rightarrow> bool" where
  "prefix_matches prefix k \<longleftrightarrow> (case prefix of None \<Rightarrow> True | Some p \<Rightarrow> push_prefix_filter p k)"

subsection \<open>Objects, versions and uploads\<close>

definition list_objects ::
  "string \<Rightarrow> string option \<Rightarrow> string option \<Rightarrow> nat \<Rightarrow> object_db \<Rightarrow> ObjectRecord list" where
  "list_objects b prefix start_after max_keys db =
     take max_keys (sort_key key (filter (\<lambda>r. bucket r = b \<and> is_latest r \<and> \<not> is_delete_marker r \<and>
       prefix_matches prefix (key r) \<and> (case start_after of None \<Rightarrow> True | Some s \<Rightarrow> s < key r))
       (map obj (objects db))))"

record VersionPosition =
  vp_last_modified :: timestamp
  vp_version_id :: string

definition coalesce_version :: "ObjectRecord \<Rightarrow> string" where
  "coalesce_version r = (case version_id r of Some v \<Rightarrow> v | None \<Rightarrow> [])"

definition position_of :: "ObjectRecord \<Rightarrow> VersionPosition" where
  "position_of r = \<lparr>vp_last_modified = last_modified r, vp_version_id = coalesce_version r\<rparr>"

definition key_start :: VersionPosition where
  "key_start = \<lparr>vp_last_modified = 253402300799 * 1000000000, vp_version_id = []\<rparr>"

definition after_position :: "string \<Rightarrow> VersionPosition option \<Rightarrow> ObjectRecord \<Rightarrow> bool" where
  "after_position km after r \<longleftrightarrow>
     (case after of
        None \<Rightarrow> km < key r
      | Some p \<Rightarrow> km < key r \<or> key r = km \<and> (last_modified r < vp_last_modified p \<or>
          last_modified r = vp_last_modified p \<and> coalesce_version r < vp_version_id p))"

text \<open>
  \<^verbatim>\<open>ORDER BY key ASC, last_modified DESC, COALESCE(version_id, '') DESC\<close>, by a stable sort on the key
  of the rows in descending order of the other two.
\<close>

definition version_order :: "ObjectRecord list \<Rightarrow> ObjectRecord list" where
  "version_order rs = sort_key key (rev (sort_key last_modified (sort_key coalesce_version rs)))"

definition list_object_versions_from ::
  "string \<Rightarrow> string option \<Rightarrow> string option \<Rightarrow> VersionPosition option \<Rightarrow> nat \<Rightarrow> object_db \<Rightarrow> ObjectRecord list" where
  "list_object_versions_from b prefix key_marker after max_keys db =
     take max_keys (version_order (filter (\<lambda>r. bucket r = b \<and> \<not> is_tombstone r \<and> prefix_matches prefix (key r) \<and>
       (case key_marker of None \<Rightarrow> True | Some km \<Rightarrow> km = [] \<or> after_position km after r))
       (map obj (objects db))))"

definition list_object_versions ::
  "string \<Rightarrow> string option \<Rightarrow> string option \<Rightarrow> string option \<Rightarrow> nat \<Rightarrow> object_db \<Rightarrow> ObjectRecord list" where
  "list_object_versions b prefix key_marker version_id_marker max_keys db =
     (let km = (case key_marker of Some k \<Rightarrow> if k = [] then None else Some k | None \<Rightarrow> None);
          after = (case (km, version_id_marker) of
             (Some k, Some v) \<Rightarrow>
               (case get_object_version b k v db of Some r \<Rightarrow> Some (position_of r) | None \<Rightarrow> Some key_start)
           | _ \<Rightarrow> None)
      in list_object_versions_from b prefix km after max_keys db)"

subsection \<open>The range is the set of keys with the prefix\<close>

lemma next_char_Some:
  assumes "next_char c = Some d" "is_scalar c"
  shows "is_scalar d" "c < d" "is_scalar e \<Longrightarrow> c \<le> e \<Longrightarrow> e < d \<Longrightarrow> e = c"
  using assms by (auto simp: next_char_def is_scalar_def split: if_splits)

lemma next_char_None: "next_char c = None \<Longrightarrow> is_scalar c \<Longrightarrow> is_scalar e \<Longrightarrow> e \<le> c"
  by (auto simp: next_char_def is_scalar_def split: if_splits)

lemma between_starts:
  fixes q k :: "'a::linorder list"
  shows "q @ x \<le> k \<Longrightarrow> k < q @ y \<Longrightarrow> starts_with k q"
proof (induction q arbitrary: k)
  case Nil
  then show ?case
    by (simp add: starts_with_def)
next
  case (Cons a q)
  then obtain b k' where k: "k = b # k'"
    by (cases k) auto
  with Cons.prems have "b = a" "q @ x \<le> k'" "k' < q @ y"
    by auto
  with Cons.IH [of k'] show ?case
    by (simp add: k starts_with_def)
qed

lemma append_le_append: "p @ xs \<le> p @ ys \<longleftrightarrow> (xs :: 'a::linorder list) \<le> ys"
  by (induction p) simp_all

lemma bound_rev_snoc:
  "bound_rev (rev (q @ [c])) = (case next_char c of Some d \<Rightarrow> Some (q @ [d]) | None \<Rightarrow> bound_rev (rev q))"
  by (simp split: option.split)

lemma bound_rev_scalars: "scalars p \<Longrightarrow> bound_rev (rev p) = Some b \<Longrightarrow> scalars b"
proof (induction p rule: rev_induct)
  case Nil
  then show ?case
    by simp
next
  case (snoc c q)
  then show ?case
    by (auto simp: bound_rev_snoc simp del: rev_append dest: next_char_Some(1) split: option.splits)
qed

lemma code_point_range:
  "scalars p \<Longrightarrow> scalars k \<Longrightarrow>
    starts_with k p \<longleftrightarrow> p \<le> k \<and> (case bound_rev (rev p) of None \<Rightarrow> True | Some b \<Rightarrow> k < b)"
proof (induction p rule: rev_induct)
  case Nil
  then show ?case
    by (simp add: starts_with_def)
next
  case (snoc c q)
  show ?case
  proof (cases "next_char c")
    case None
    have "starts_with k (q @ [c])" if pre: "starts_with k q" and le: "q @ [c] \<le> k"
    proof -
      obtain r where k: "k = q @ r"
        using pre by (auto simp: starts_with_iff)
      with le have "[c] \<le> r"
        by (simp only: append_le_append)
      then obtain e r' where r: "r = e # r'" "c \<le> e"
        by (cases r) auto
      with next_char_None [OF None, of e] snoc.prems k have "e = c"
        by simp
      with k r show ?thesis
        by (simp add: starts_with_def)
    qed
    moreover have "q \<le> k" if "q @ [c] \<le> k"
      using that append_le_append [of q "[]" "[c]"] by (metis append_Nil2 order_trans Nil_le_Cons)
    moreover have "starts_with k q" "q @ [c] \<le> k" if "starts_with k (q @ [c])"
      using that by (auto simp: starts_with_iff append_le_append)
    ultimately show ?thesis
      using snoc None unfolding bound_rev_snoc by auto
  next
    case (Some d)
    have "starts_with k (q @ [c])" if le: "q @ [c] \<le> k" "k < q @ [d]"
    proof -
      obtain r where k: "k = q @ r"
        using between_starts [OF le] by (auto simp: starts_with_iff)
      with le have "[c] \<le> r" "r < [d]"
        by (simp_all only: append_le_append append_less_append)
      then obtain e r' where "r = e # r'" "c \<le> e" "e < d"
        by (cases r) auto
      with next_char_Some(3) [OF Some, of e] snoc.prems k show ?thesis
        by (simp add: starts_with_def)
    qed
    moreover have "q @ [c] \<le> k" "k < q @ [d]" if "starts_with k (q @ [c])"
      using that next_char_Some(2) [OF Some] snoc.prems
      by (auto simp: starts_with_iff append_le_append append_less_append)
    ultimately show ?thesis
      using Some unfolding bound_rev_snoc by auto
  qed
qed

lemma prefix_filter_exact:
  assumes "is_utf8 p" "is_utf8 k"
  shows "push_prefix_filter p k \<longleftrightarrow> starts_with k p"
proof -
  let ?p = "chars p" and ?k = "chars k"
  have p: "scalars ?p" "utf8 ?p = p" and k: "scalars ?k" "utf8 ?k = k"
    using assms by (simp_all add: is_utf8_def)
  have "p \<le> k \<longleftrightarrow> ?p \<le> ?k"
    using utf8_less [OF k(1) p(1)] p(2) k(2) by (simp flip: not_less)
  moreover have "k < utf8 b \<longleftrightarrow> ?k < b" if "bound_rev (rev ?p) = Some b" for b
    using utf8_less [OF k(1) bound_rev_scalars [OF p(1) that]] k(2) by simp
  moreover have "starts_with k p \<longleftrightarrow> starts_with ?k ?p"
    using utf8_prefix [OF p(1) k(1)] p(2) k(2) by simp
  ultimately show ?thesis
    using code_point_range [OF p(1) k(1)]
    by (auto simp: push_prefix_filter_def prefix_upper_bound_def split: option.splits)
qed

text \<open>
  C34: The key range a listing scans for a prefix holds exactly the keys that start with the prefix,
  for every prefix and key of Unicode text, also where the prefix ends before the surrogates or in
  the last code point.\<close>

theorem prefix_range_exact:
  assumes "is_utf8 p" "is_utf8 k"
  shows "push_prefix_filter p k \<longleftrightarrow> starts_with k p"
  using assms by (rule prefix_filter_exact)

theorem prefix_range_exact_witness:
  "push_prefix_filter (utf8 [0x61, 0x10FFFF]) (utf8 [0x61, 0x10FFFF, 0x62]) \<and>
   \<not> push_prefix_filter (utf8 [0x61, 0xD7FF]) (utf8 [0x61, 0xE000])"
proof -
  have scalars: "scalars [0x61, 0x10FFFF, 0x62]" "scalars [0x61, 0x10FFFF]" "scalars [0x61, 0xD7FF]" "scalars [0x61, 0xE000]"
    by (simp_all add: is_scalar_def)
  show ?thesis
    using prefix_range_exact [OF is_utf8_utf8 is_utf8_utf8, OF scalars(2,1)]
      prefix_range_exact [OF is_utf8_utf8 is_utf8_utf8, OF scalars(3,4)]
    by (simp add: starts_with_def utf8_char_def utf8_bytes_def char_of_eq)
qed

end
