(* ===== verification/Delimited_Listing.thy ===== *)
theory Delimited_Listing
  imports Listing
begin

section \<open>Delimiter grouping (arca-proto/src/handlers/delimited.rs)\<close>

text \<open>
  A delimited listing walks the rows in key order and rolls the keys that share a common prefix up
  into one item, skipping from each group to the end of its key range. The locale states what the
  loop relies on in the query it is given; its theorem says that the pages are those of a listing
  that reads every row.
\<close>

definition LIST_BATCH :: nat where
  "LIST_BATCH = 100"

datatype ListFrom = Start | After ObjectRecord | PastPrefix string

datatype Listed = Record ObjectRecord | Prefix string

record DelimitedPage =
  page_items :: "Listed list"
  page_truncated :: bool

text \<open>\<^verbatim>\<open>str::find\<close> with a string needle.\<close>

fun find_str :: "'a list \<Rightarrow> 'a list \<Rightarrow> nat option" where
  "find_str [] d = (if d = [] then Some 0 else None)"
| "find_str (c # s) d = (if starts_with (c # s) d then Some 0 else map_option Suc (find_str s d))"

text \<open>U+10FFFF is the last code point; these are its bytes.\<close>

definition past_prefix :: "string \<Rightarrow> string" where
  "past_prefix p = p @ utf8_char 0x10FFFF"

text \<open>The rows are under \<open>prefix\<close>, so the slice of the key that the code takes exists.\<close>

definition common_prefix :: "string \<Rightarrow> string \<Rightarrow> string \<Rightarrow> string option" where
  "common_prefix prefix delim k =
     map_option (\<lambda>pos. take (length prefix + pos + length delim) k) (find_str (drop (length prefix) k) delim)"

definition listed_of :: "string \<Rightarrow> string \<Rightarrow> ObjectRecord \<Rightarrow> Listed" where
  "listed_of prefix delim r = (case common_prefix prefix delim (key r) of Some cp \<Rightarrow> Prefix cp | None \<Rightarrow> Record r)"

text \<open>A group is passed over when an earlier page returned it or when it is the last item of this page.\<close>

definition skip_group :: "string option \<Rightarrow> Listed list \<Rightarrow> string \<Rightarrow> bool" where
  "skip_group marker its cp \<longleftrightarrow>
     (case marker of Some m \<Rightarrow> cp \<le> m | None \<Rightarrow> False) \<or> its \<noteq> [] \<and> last its = Prefix cp"

text \<open>The \<^verbatim>\<open>for\<close> loop over one batch: the items, whether the page is full, and the group of the last row.\<close>

fun scan_batch ::
  "string \<Rightarrow> string \<Rightarrow> string option \<Rightarrow> nat \<Rightarrow> ObjectRecord list \<Rightarrow> Listed list \<Rightarrow> string option
     \<Rightarrow> (Listed list \<times> bool) \<times> string option" where
  "scan_batch prefix delim marker max_keys [] its last_group = ((its, False), last_group)"
| "scan_batch prefix delim marker max_keys (r # rs) its last_group =
     (let grp = common_prefix prefix delim (key r) in
      if (case grp of Some cp \<Rightarrow> skip_group marker its cp | None \<Rightarrow> False) then
        scan_batch prefix delim marker max_keys rs its grp
      else if max_keys \<le> length its then ((its, True), grp)
      else scan_batch prefix delim marker max_keys rs (its @ [listed_of prefix delim r]) grp)"

partial_function (option) list_loop ::
  "string \<Rightarrow> string \<Rightarrow> string option \<Rightarrow> nat \<Rightarrow> (ListFrom \<Rightarrow> string + ObjectRecord list) \<Rightarrow> ListFrom \<Rightarrow> Listed list
     \<Rightarrow> (string + DelimitedPage) option" where
  "list_loop prefix delim marker max_keys fetch from its =
     (case fetch from of
        Inl e \<Rightarrow> Some (Inl e)
      | Inr records \<Rightarrow>
          (case scan_batch prefix delim marker max_keys records its None of
             ((its', full), last_group) \<Rightarrow>
               if full then Some (Inr \<lparr>page_items = its', page_truncated = True\<rparr>)
               else if records = [] \<or> length records < LIST_BATCH then
                 Some (Inr \<lparr>page_items = its', page_truncated = False\<rparr>)
               else list_loop prefix delim marker max_keys fetch
                 (case last_group of Some cp \<Rightarrow> PastPrefix cp | None \<Rightarrow> After (last records)) its'))"

definition list_delimited ::
  "string \<Rightarrow> string \<Rightarrow> string option \<Rightarrow> nat \<Rightarrow> (ListFrom \<Rightarrow> string + ObjectRecord list)
     \<Rightarrow> (string + DelimitedPage) option" where
  "list_delimited prefix delim marker max_keys fetch = list_loop prefix delim marker max_keys fetch Start []"

subsection \<open>Order of the keys of a group\<close>

definition beyond :: "'a::linorder list \<Rightarrow> 'a list \<Rightarrow> bool" where
  "beyond cp k \<longleftrightarrow> cp < k \<and> \<not> starts_with k cp"

lemma starts_with_le: "starts_with k cp \<Longrightarrow> cp \<le> (k :: 'a::linorder list)"
  using append_le_append [of cp "[]"] by (auto simp: starts_with_iff)

lemma beyond_greater:
  fixes cp :: "'a::linorder list"
  shows "beyond cp k \<Longrightarrow> starts_with l cp \<Longrightarrow> l < k"
proof (induction cp arbitrary: k l)
  case Nil
  then show ?case
    by (simp add: beyond_def starts_with_def)
next
  case (Cons c cp)
  obtain l' where l: "l = c # l'" "starts_with l' cp"
    using Cons.prems(2) by (auto simp: starts_with_iff)
  obtain e k' where k: "k = e # k'"
    using Cons.prems(1) by (cases k) (auto simp: beyond_def)
  show ?case
  proof (cases "e = c")
    case True
    with Cons.prems(1) k have "beyond cp k'"
      by (auto simp: beyond_def starts_with_iff)
    with Cons.IH [OF this l(2)] show ?thesis
      using k l True by simp
  next
    case False
    with Cons.prems(1) k l show ?thesis
      by (auto simp: beyond_def)
  qed
qed

lemma under_or_beyond: "starts_with l cp \<Longrightarrow> l \<le> k \<Longrightarrow> starts_with k cp \<or> beyond cp (k :: 'a::linorder list)"
  using starts_with_le [of l cp] by (cases "k = cp") (auto simp: beyond_def starts_with_def)

lemma past_prefix_under: "starts_with (past_prefix cp) cp"
  by (simp add: past_prefix_def)

lemma past_prefix_greater: "past_prefix cp < k \<Longrightarrow> starts_with k cp \<or> beyond cp k"
  using under_or_beyond [OF past_prefix_under, of cp k] by simp

subsection \<open>Groups\<close>

lemma find_str_Some:
  "find_str s d = Some n \<longleftrightarrow> n \<le> length s \<and> starts_with (drop n s) d \<and> (\<forall>i < n. \<not> starts_with (drop i s) d)"
proof (induction s arbitrary: n)
  case Nil
  then show ?case
    by (auto simp: starts_with_def)
next
  case (Cons c s)
  show ?case
  proof (cases n)
    case 0
    then show ?thesis
      by simp
  next
    case (Suc m)
    have "(\<forall>i < Suc m. \<not> starts_with (drop i (c # s)) d) \<longleftrightarrow>
        \<not> starts_with (c # s) d \<and> (\<forall>i < m. \<not> starts_with (drop i s) d)"
      by (auto simp: less_Suc_eq_0_disj)
    with Suc Cons.IH [of m] show ?thesis
      by auto
  qed
qed

lemma starts_with_take [simp]: "starts_with k (take n k)"
  unfolding starts_with_iff by (metis append_take_drop_id)

lemma starts_with_local: "length d \<le> length a \<Longrightarrow> starts_with (a @ b) d \<longleftrightarrow> starts_with a d"
  by (simp add: starts_with_def)

lemma common_prefix_under: "common_prefix prefix delim k = Some cp \<Longrightarrow> starts_with k cp"
  by (auto simp: common_prefix_def)

lemma common_prefix_form:
  assumes "starts_with k prefix"
  shows "common_prefix prefix delim k = Some cp \<longleftrightarrow>
    (\<exists>x r. k = prefix @ x @ delim @ r \<and> cp = prefix @ x @ delim \<and>
      (\<forall>i < length x. \<not> starts_with (drop i x @ delim) delim))"
proof -
  obtain s where k: "k = prefix @ s"
    using assms by (auto simp: starts_with_iff)
  show ?thesis
  proof
    assume "common_prefix prefix delim k = Some cp"
    then obtain n where n: "find_str s delim = Some n" and cp: "cp = prefix @ take (n + length delim) s"
      by (auto simp: common_prefix_def k)
    from n obtain r where r: "n \<le> length s" "drop n s = delim @ r" "\<forall>i < n. \<not> starts_with (drop i s) delim"
      by (auto simp: find_str_Some starts_with_iff)
    then have s: "s = take n s @ delim @ r"
      by (metis append_take_drop_id)
    have "\<not> starts_with (drop i (take n s) @ delim) delim" if "i < n" for i
    proof -
      have "drop i s = (drop i (take n s) @ delim) @ r"
        using that r(1) by (subst s) simp
      moreover have "\<not> starts_with (drop i s) delim"
        using r(3) that by blast
      ultimately show ?thesis
        using starts_with_local [of delim "drop i (take n s) @ delim" r] by simp
    qed
    moreover have "take (n + length delim) s = take n s @ delim"
      using r(1) by (subst s) simp
    ultimately show "\<exists>x r. k = prefix @ x @ delim @ r \<and> cp = prefix @ x @ delim \<and>
        (\<forall>i < length x. \<not> starts_with (drop i x @ delim) delim)"
      using s r(1) k cp by (intro exI [of _ "take n s"] exI [of _ r]) simp
  next
    assume "\<exists>x r. k = prefix @ x @ delim @ r \<and> cp = prefix @ x @ delim \<and>
      (\<forall>i < length x. \<not> starts_with (drop i x @ delim) delim)"
    then obtain x r where x: "k = prefix @ x @ delim @ r" "cp = prefix @ x @ delim"
      "\<forall>i < length x. \<not> starts_with (drop i x @ delim) delim"
      by blast
    have "\<not> starts_with (drop i (x @ delim @ r)) delim" if "i < length x" for i
      using x(3) that starts_with_local [of delim "drop i x @ delim" r] by simp
    then have "find_str (x @ delim @ r) delim = Some (length x)"
      by (simp add: find_str_Some)
    then show "common_prefix prefix delim k = Some cp"
      by (simp add: common_prefix_def x)
  qed
qed

lemma common_prefix_same:
  assumes "starts_with k prefix" "common_prefix prefix delim k = Some cp" "starts_with k' cp"
  shows "common_prefix prefix delim k' = Some cp"
proof -
  obtain x where x: "cp = prefix @ x @ delim" "\<forall>i < length x. \<not> starts_with (drop i x @ delim) delim"
    using assms(1,2) by (auto simp: common_prefix_form)
  moreover obtain r where "k' = cp @ r"
    using assms(3) by (auto simp: starts_with_iff)
  ultimately show ?thesis
    using common_prefix_form [of k' prefix delim cp] by (auto simp: starts_with_iff)
qed

subsection \<open>The scan of a batch\<close>

text \<open>The listing that reads every row: the items of the rows, with the rows of a group rolled up.\<close>

fun collapse :: "string \<Rightarrow> string \<Rightarrow> string option \<Rightarrow> Listed list \<Rightarrow> ObjectRecord list \<Rightarrow> Listed list" where
  "collapse prefix delim marker its [] = its"
| "collapse prefix delim marker its (r # rs) =
     (if (case common_prefix prefix delim (key r) of Some cp \<Rightarrow> skip_group marker its cp | None \<Rightarrow> False)
      then collapse prefix delim marker its rs
      else collapse prefix delim marker (its @ [listed_of prefix delim r]) rs)"

lemma collapse_extends: "\<exists>more. collapse prefix delim marker its rs = its @ more"
proof (induction rs arbitrary: its)
  case Nil
  then show ?case
    by simp
next
  case (Cons r rs)
  then show ?case
    by (metis append_assoc collapse.simps(2))
qed

lemma scan_collapse:
  "length its \<le> max_keys \<Longrightarrow>
    fst (scan_batch prefix delim marker max_keys rs its g) =
      (take max_keys (collapse prefix delim marker its rs), max_keys < length (collapse prefix delim marker its rs))"
proof (induction rs arbitrary: its g)
  case Nil
  then show ?case
    by simp
next
  case (Cons r rs)
  show ?case
  proof (cases "case common_prefix prefix delim (key r) of Some cp \<Rightarrow> skip_group marker its cp | None \<Rightarrow> False")
    case True
    with Cons show ?thesis
      by (simp add: Let_def)
  next
    case False
    obtain more where more: "collapse prefix delim marker (its @ [listed_of prefix delim r]) rs =
        its @ [listed_of prefix delim r] @ more"
      using collapse_extends [of prefix delim marker "its @ [listed_of prefix delim r]" rs] by auto
    show ?thesis
    proof (cases "max_keys \<le> length its")
      case True
      with False more Cons.prems show ?thesis
        by (simp add: Let_def)
    next
      case full: False
      with False Cons.IH [of "its @ [listed_of prefix delim r]"] show ?thesis
        by (simp add: Let_def)
    qed
  qed
qed

lemma collapse_append:
  "collapse prefix delim marker its (xs @ ys) = collapse prefix delim marker (collapse prefix delim marker its xs) ys"
  by (induction xs arbitrary: its) simp_all

lemma collapse_skip:
  "list_all (\<lambda>r. common_prefix prefix delim (key r) = Some cp) rs \<Longrightarrow> skip_group marker its cp \<Longrightarrow>
    collapse prefix delim marker its rs = its"
  by (induction rs) simp_all

lemma scan_last:
  "\<not> snd (fst (scan_batch prefix delim marker max_keys rs its g)) \<Longrightarrow> rs \<noteq> [] \<Longrightarrow>
    snd (scan_batch prefix delim marker max_keys rs its g) = common_prefix prefix delim (key (last rs)) \<and>
    (\<forall>cp. common_prefix prefix delim (key (last rs)) = Some cp \<longrightarrow>
      skip_group marker (fst (fst (scan_batch prefix delim marker max_keys rs its g))) cp)"
proof (induction rs arbitrary: its g)
  case (Cons r rs)
  then show ?case
    by (cases "rs = []")
       (auto simp: Let_def skip_group_def listed_of_def split: if_splits option.splits)
qed simp

subsection \<open>Sorted rows around a group\<close>

abbreviation is_beyond :: "string \<Rightarrow> ObjectRecord \<Rightarrow> bool" where
  "is_beyond cp r \<equiv> beyond cp (key r)"

definition past_rows :: "string \<Rightarrow> ObjectRecord list \<Rightarrow> ObjectRecord list" where
  "past_rows cp rs = filter (\<lambda>r. past_prefix cp < key r) rs"

text \<open>
  The rows of a group that the cursor past it does not skip: those whose key goes on with U+10FFFF.
\<close>

definition tail_rows :: "string \<Rightarrow> ObjectRecord list \<Rightarrow> ObjectRecord list" where
  "tail_rows cp rs = filter (\<lambda>r. starts_with (key r) cp \<and> past_prefix cp < key r) rs"

lemma filter_up:
  assumes "sorted (map f xs)" "\<And>a b. a \<in> set xs \<Longrightarrow> b \<in> set xs \<Longrightarrow> Q a \<Longrightarrow> f a \<le> f b \<Longrightarrow> Q b"
  shows "xs = filter (\<lambda>x. \<not> Q x) xs @ filter Q xs"
  using assms
proof (induction xs)
  case (Cons x xs)
  have tail: "xs = filter (\<lambda>x. \<not> Q x) xs @ filter Q xs"
  proof (rule Cons.IH)
    show "sorted (map f xs)"
      using Cons.prems(1) by simp
    show "Q b" if "a \<in> set xs" "b \<in> set xs" "Q a" "f a \<le> f b" for a b
      using Cons.prems(2) [of a b] that by simp
  qed
  show ?case
  proof (cases "Q x")
    case True
    then have "\<forall>y \<in> set xs. Q y"
      using Cons.prems by auto
    with True show ?thesis
      by (simp add: filter_empty_conv)
  next
    case False
    with tail show ?thesis
      by simp
  qed
qed simp

lemma beyond_up: "beyond cp a \<Longrightarrow> a \<le> b \<Longrightarrow> beyond cp (b :: 'a::linorder list)"
  using beyond_greater [of cp a b] by (auto simp: beyond_def)

lemma beyond_past: "beyond cp k \<Longrightarrow> past_prefix cp < k"
  by (rule beyond_greater [OF _ past_prefix_under])

lemma split_beyond:
  assumes "sorted (map key rs)"
  shows "rs = filter (\<lambda>r. \<not> is_beyond cp r) rs @ filter (is_beyond cp) rs"
  using assms by (rule filter_up) (auto intro: beyond_up)

lemma sorted_past_rows: "sorted (map key rs) \<Longrightarrow> sorted (map key (past_rows cp rs))"
  by (simp add: past_rows_def sorted_filter)

lemma beyond_of_past_rows: "filter (is_beyond cp) (past_rows cp rs) = filter (is_beyond cp) rs"
  by (auto simp: past_rows_def intro!: filter_cong dest: beyond_past)

lemma past_rows_split:
  assumes "sorted (map key rs)"
  shows "past_rows cp rs = tail_rows cp rs @ filter (is_beyond cp) rs"
proof -
  have "filter (\<lambda>r. \<not> is_beyond cp r) (past_rows cp rs) = tail_rows cp rs"
    by (auto simp: past_rows_def tail_rows_def beyond_def intro!: filter_cong dest: past_prefix_greater)
  with split_beyond [OF sorted_past_rows [OF assms], of cp cp] show ?thesis
    by (simp add: beyond_of_past_rows)
qed

text \<open>From a row of a group on, the rows are those of the group and then those beyond it.\<close>

lemma rest_split:
  assumes "sorted (map key (xs @ l # rest))" "starts_with (key l) cp"
  shows "rest = filter (\<lambda>r. starts_with (key r) cp) rest @ filter (is_beyond cp) (xs @ l # rest)"
proof -
  have later: "key l \<le> key r" if "r \<in> set rest" for r
    using assms(1) that by (auto simp: sorted_append)
  have "filter (\<lambda>r. \<not> is_beyond cp r) rest = filter (\<lambda>r. starts_with (key r) cp) rest"
    using under_or_beyond [OF assms(2) later] by (auto simp: beyond_def intro!: filter_cong)
  moreover have "filter (is_beyond cp) (xs @ [l]) = []"
  proof -
    have "\<not> is_beyond cp r" if "r \<in> set (xs @ [l])" for r
    proof
      assume "is_beyond cp r"
      then have "key l < key r"
        by (rule beyond_greater [OF _ assms(2)])
      with assms(1) that show False
        by (auto simp: sorted_append)
    qed
    then show ?thesis
      by (simp add: filter_empty_conv)
  qed
  moreover have "filter (is_beyond cp) (xs @ l # rest) = filter (is_beyond cp) (xs @ [l]) @ filter (is_beyond cp) rest"
    by simp
  moreover have "rest = filter (\<lambda>r. \<not> is_beyond cp r) rest @ filter (is_beyond cp) rest"
    using assms(1) by (intro split_beyond) (simp add: sorted_append)
  ultimately show ?thesis
    by (metis append_Nil)
qed

lemma skip_group_rows:
  assumes "list_all (\<lambda>r. starts_with (key r) cp) us" "skip_group marker its cp"
    and "starts_with (key l) prefix" "common_prefix prefix delim (key l) = Some cp"
  shows "collapse prefix delim marker its (us @ rs) = collapse prefix delim marker its rs"
proof -
  have "list_all (\<lambda>r. common_prefix prefix delim (key r) = Some cp) us"
    using assms(1) common_prefix_same [OF assms(3,4)] by (simp add: list_all_iff)
  from collapse_skip [OF this assms(2)] show ?thesis
    by (simp add: collapse_append)
qed

lemma skip_to_beyond:
  assumes "sorted (map key (xs @ l # rest))" "skip_group marker its cp"
    and "starts_with (key l) prefix" "common_prefix prefix delim (key l) = Some cp"
  shows "collapse prefix delim marker its rest = collapse prefix delim marker its (filter (is_beyond cp) (xs @ l # rest))"
proof -
  have "rest = filter (\<lambda>r. starts_with (key r) cp) rest @ filter (is_beyond cp) (xs @ l # rest)"
    by (rule rest_split [OF assms(1) common_prefix_under [OF assms(4)]])
  then have "collapse prefix delim marker its rest = collapse prefix delim marker its
      (filter (\<lambda>r. starts_with (key r) cp) rest @ filter (is_beyond cp) (xs @ l # rest))"
    by (rule arg_cong)
  also have "\<dots> = collapse prefix delim marker its (filter (is_beyond cp) (xs @ l # rest))"
    using assms(2-4) by (intro skip_group_rows) (simp_all add: list_all_iff)
  finally show ?thesis .
qed

lemma skip_to_past:
  assumes "sorted (map key (xs @ l # rest))" "skip_group marker its cp"
    and "starts_with (key l) prefix" "common_prefix prefix delim (key l) = Some cp"
  shows "collapse prefix delim marker its rest = collapse prefix delim marker its (past_rows cp (xs @ l # rest))"
proof -
  have "collapse prefix delim marker its (past_rows cp (xs @ l # rest)) =
      collapse prefix delim marker its (filter (is_beyond cp) (xs @ l # rest))"
    unfolding past_rows_split [OF assms(1)]
    using assms(2-4) by (intro skip_group_rows) (auto simp: list_all_iff tail_rows_def)
  with skip_to_beyond [OF assms] show ?thesis
    by simp
qed

lemma skip_to_key:
  assumes "sorted (map key rs)" "skip_group marker its cp"
    and "starts_with (key l) prefix" "common_prefix prefix delim (key l) = Some cp"
  shows "collapse prefix delim marker its (filter (\<lambda>r. cp < key r) rs) =
    collapse prefix delim marker its (filter (is_beyond cp) rs)"
proof -
  let ?rs = "filter (\<lambda>r. cp < key r) rs"
  have "?rs = filter (\<lambda>r. \<not> is_beyond cp r) ?rs @ filter (is_beyond cp) ?rs"
    using assms(1) by (intro split_beyond) (simp add: sorted_filter)
  moreover have "filter (is_beyond cp) ?rs = filter (is_beyond cp) rs"
    by (auto simp: beyond_def intro!: filter_cong)
  ultimately have "?rs = filter (\<lambda>r. \<not> is_beyond cp r) ?rs @ filter (is_beyond cp) rs"
    by simp
  then have "collapse prefix delim marker its ?rs =
      collapse prefix delim marker its (filter (\<lambda>r. \<not> is_beyond cp r) ?rs @ filter (is_beyond cp) rs)"
    by (rule arg_cong)
  also have "\<dots> = collapse prefix delim marker its (filter (is_beyond cp) rs)"
    using assms(2-4) by (intro skip_group_rows) (auto simp: list_all_iff beyond_def)
  finally show ?thesis .
qed

subsection \<open>Where a query stands\<close>

definition stands ::
  "ObjectRecord list \<Rightarrow> (ListFrom \<Rightarrow> string + ObjectRecord list) \<Rightarrow> ListFrom \<Rightarrow> ObjectRecord list \<Rightarrow> nat \<Rightarrow> bool" where
  "stands rs fetch from rem n \<longleftrightarrow> fetch from = Inr (take LIST_BATCH rem) \<and>
     ((\<exists>xs. rs = xs @ rem) \<and> n = length rem \<or>
      (\<exists>cp. rem = past_rows cp rs \<and> n = length (filter (is_beyond cp) rs) \<and> length (tail_rows cp rs) < LIST_BATCH))"

lemma split_at_take:
  assumes "0 < n" "n \<le> length xs"
  shows "xs = butlast (take n xs) @ last (take n xs) # drop n xs"
proof -
  have "take n xs \<noteq> []"
    using assms by auto
  then have "take n xs = butlast (take n xs) @ [last (take n xs)]"
    by simp
  moreover have "xs = take n xs @ drop n xs"
    by simp
  ultimately show ?thesis
    by (metis append.assoc append_Cons append_Nil)
qed

lemma stands_advances:
  assumes "stands rs fetch from rem n" "LIST_BATCH \<le> length rem" "sorted (map key rs)"
  shows "\<exists>xs. rs = xs @ last (take LIST_BATCH rem) # drop LIST_BATCH rem \<and> length (drop LIST_BATCH rem) < n"
proof -
  let ?l = "last (take LIST_BATCH rem)" and ?rest = "drop LIST_BATCH rem"
  have rem: "rem = butlast (take LIST_BATCH rem) @ ?l # ?rest"
    using assms(2) by (intro split_at_take) (simp_all add: LIST_BATCH_def)
  from assms(1) consider (suffix) xs where "rs = xs @ rem" "n = length rem"
    | (past) cp where "rem = past_rows cp rs" "n = length (filter (is_beyond cp) rs)" "length (tail_rows cp rs) < LIST_BATCH"
    by (auto simp: stands_def)
  then show ?thesis
  proof cases
    case suffix
    then have "rs = (xs @ butlast (take LIST_BATCH rem)) @ ?l # ?rest"
      using rem by simp
    moreover have "length ?rest < n"
      using suffix assms(2) by (simp add: LIST_BATCH_def)
    ultimately show ?thesis
      by blast
  next
    case past
    let ?u = "tail_rows cp rs" and ?v = "filter (is_beyond cp) rs"
    have "rem = ?u @ ?v"
      using past_rows_split [OF assms(3)] past(1) by simp
    moreover define k where "k = LIST_BATCH - length ?u"
    ultimately have k: "?rest = drop k ?v" "take LIST_BATCH rem = ?u @ take k ?v" "0 < k" "k \<le> length ?v"
      using past(3) assms(2) by simp_all
    have "take k ?v \<noteq> []"
      using k(3,4) by (metis length_0_conv length_take min.absorb2 not_gr_zero)
    then have "?l = last (take k ?v)"
      by (simp add: k(2) last_append)
    with split_at_take [OF k(3,4)] k(1) have v: "?v = butlast (take k ?v) @ ?l # ?rest"
      by simp
    with split_beyond [OF assms(3), of cp]
    have "rs = (filter (\<lambda>r. \<not> is_beyond cp r) rs @ butlast (take k ?v)) @ ?l # ?rest"
      by (metis append.assoc)
    moreover have "length ?rest < n"
      using arg_cong [OF v, of length] past(2) by simp
    ultimately show ?thesis
      by blast
  qed
qed

subsection \<open>What the loop relies on\<close>

definition page_of :: "nat \<Rightarrow> Listed list \<Rightarrow> DelimitedPage" where
  "page_of max_keys its = \<lparr>page_items = take max_keys its, page_truncated = max_keys < length its\<rparr>"

locale list_source =
  fixes ok :: "'q \<Rightarrow> bool" and prefix_of :: "'q \<Rightarrow> string"
    and all_rows :: "'q \<Rightarrow> ObjectRecord list" and first_rows :: "'q \<Rightarrow> ObjectRecord list"
    and fetch :: "'q \<Rightarrow> ListFrom \<Rightarrow> string + ObjectRecord list"
  assumes under: "ok q \<Longrightarrow> list_all (\<lambda>r. starts_with (key r) (prefix_of q)) (all_rows q)"
    and in_order: "ok q \<Longrightarrow> sorted (map key (all_rows q))"
    and first: "ok q \<Longrightarrow> \<exists>xs. all_rows q = xs @ first_rows q"
    and fetch_start: "ok q \<Longrightarrow> fetch q Start = Inr (take LIST_BATCH (first_rows q))"
    and fetch_after: "ok q \<Longrightarrow> all_rows q = xs @ r # ys \<Longrightarrow> fetch q (After r) = Inr (take LIST_BATCH ys)"
    and fetch_past: "ok q \<Longrightarrow> fetch q (PastPrefix cp) = Inr (take LIST_BATCH (past_rows cp (all_rows q)))"
    and narrow: "ok q \<Longrightarrow> length (tail_rows cp (all_rows q)) < LIST_BATCH"
begin

lemma next_stands:
  assumes "ok q" "all_rows q = xs @ l # rest"
    and g: "g = common_prefix (prefix_of q) delim (key l)" "\<And>cp. g = Some cp \<Longrightarrow> skip_group marker its cp"
  shows "\<exists>rem n. stands (all_rows q) (fetch q) (case g of Some cp \<Rightarrow> PastPrefix cp | None \<Rightarrow> After l) rem n \<and>
    n \<le> length rest \<and> collapse (prefix_of q) delim marker its rem = collapse (prefix_of q) delim marker its rest"
proof (cases g)
  case None
  have "all_rows q = (xs @ [l]) @ rest"
    using assms(2) by simp
  then have "stands (all_rows q) (fetch q) (After l) rest (length rest)"
    unfolding stands_def using fetch_after [OF assms(1,2)] by blast
  then show ?thesis
    using None by auto
next
  case (Some cp)
  have under_cp: "starts_with (key l) cp"
    using Some g(1) common_prefix_under by metis
  have sorted: "sorted (map key (xs @ l # rest))"
    using in_order [OF assms(1)] assms(2) by simp
  have "stands (all_rows q) (fetch q) (PastPrefix cp) (past_rows cp (all_rows q)) (length (filter (is_beyond cp) (all_rows q)))"
    unfolding stands_def using fetch_past [OF assms(1)] narrow [OF assms(1)] by blast
  moreover have "length (filter (is_beyond cp) (all_rows q)) \<le> length rest"
    using arg_cong [OF rest_split [OF sorted under_cp], of length] assms(2) by simp
  moreover have "collapse (prefix_of q) delim marker its rest = collapse (prefix_of q) delim marker its (past_rows cp (all_rows q))"
    using skip_to_past [OF sorted, of marker its cp "prefix_of q" delim] under [OF assms(1)] assms(2) Some g
    by simp
  ultimately show ?thesis
    using Some by auto
qed

lemma loop_page:
  assumes "ok q"
  shows "stands (all_rows q) (fetch q) from rem n \<Longrightarrow> length its \<le> max_keys \<Longrightarrow>
    list_loop (prefix_of q) delim marker max_keys (fetch q) from its =
      Some (Inr (page_of max_keys (collapse (prefix_of q) delim marker its rem)))"
proof (induction n arbitrary: "from" rem its rule: less_induct)
  case (less n)
  let ?c = "collapse (prefix_of q) delim marker"
  let ?batch = "take LIST_BATCH rem"
  have fetch: "fetch q from = Inr ?batch"
    using less.prems(1) by (simp add: stands_def)
  have all: "?c its rem = ?c (?c its ?batch) (drop LIST_BATCH rem)"
    using collapse_append [of "prefix_of q" delim marker its ?batch "drop LIST_BATCH rem"] by simp
  obtain more where more: "?c its rem = ?c its ?batch @ more"
    using collapse_extends [of "prefix_of q" delim marker "?c its ?batch" "drop LIST_BATCH rem"] all by auto
  obtain its' full g where scan: "scan_batch (prefix_of q) delim marker max_keys ?batch its None = ((its', full), g)"
    by (rule pair_of_pair)
  have its': "its' = take max_keys (?c its ?batch)" "full \<longleftrightarrow> max_keys < length (?c its ?batch)"
    using scan_collapse [OF less.prems(2), of "prefix_of q" delim marker ?batch None] scan by simp_all
  have loop: "list_loop (prefix_of q) delim marker max_keys (fetch q) from its =
      (if full then Some (Inr \<lparr>page_items = its', page_truncated = True\<rparr>)
       else if ?batch = [] \<or> length ?batch < LIST_BATCH then Some (Inr \<lparr>page_items = its', page_truncated = False\<rparr>)
       else list_loop (prefix_of q) delim marker max_keys (fetch q)
         (case g of Some cp \<Rightarrow> PastPrefix cp | None \<Rightarrow> After (last ?batch)) its')"
    by (subst list_loop.simps) (simp only: fetch scan sum.case prod.case)
  consider "full" | "\<not> full" "length rem < LIST_BATCH" | "\<not> (full \<or> length rem < LIST_BATCH)"
    by blast
  then show ?case
  proof cases
    case 1
    then have "page_of max_keys (?c its rem) = \<lparr>page_items = its', page_truncated = True\<rparr>"
      using its' by (simp add: page_of_def more)
    then show ?thesis
      using 1 by (simp only: loop if_True)
  next
    case 2
    then have "page_of max_keys (?c its rem) = \<lparr>page_items = its', page_truncated = False\<rparr>"
      using its' by (simp add: page_of_def)
    then show ?thesis
      using 2 by (simp add: loop)
  next
    case False: 3
    then have batch: "LIST_BATCH \<le> length rem" and items: "its' = ?c its ?batch" "length its' \<le> max_keys"
      using its' by auto
    have nonempty: "?batch \<noteq> []"
      using batch by (auto simp: LIST_BATCH_def)
    obtain xs where rows: "all_rows q = xs @ last ?batch # drop LIST_BATCH rem" "length (drop LIST_BATCH rem) < n"
      using stands_advances [OF less.prems(1) batch in_order [OF assms]] by blast
    have g: "g = common_prefix (prefix_of q) delim (key (last ?batch))"
      "skip_group marker its' cp" if "g = Some cp" for cp
      using scan_last [of "prefix_of q" delim marker max_keys ?batch its None] scan False nonempty that by auto
    have g_last: "g = common_prefix (prefix_of q) delim (key (last ?batch))"
      using scan_last [of "prefix_of q" delim marker max_keys ?batch its None] scan False nonempty by simp
    obtain rem' n' where "next": "stands (all_rows q) (fetch q)
        (case g of Some cp \<Rightarrow> PastPrefix cp | None \<Rightarrow> After (last ?batch)) rem' n'" "n' \<le> length (drop LIST_BATCH rem)"
        "?c its' rem' = ?c its' (drop LIST_BATCH rem)"
      using next_stands [OF assms rows(1) g_last, of marker its'] g(2) by blast
    show ?thesis
      using less.IH [OF _ "next"(1) items(2)] "next"(2,3) rows(2) False nonempty batch all items(1)
      by (simp add: loop)
  qed
qed

lemma page_is_collapse:
  assumes "ok q"
  shows "list_delimited (prefix_of q) delim marker max_keys (fetch q) =
    Some (Inr (page_of max_keys (collapse (prefix_of q) delim marker [] (first_rows q))))"
proof -
  have "stands (all_rows q) (fetch q) Start (first_rows q) (length (first_rows q))"
    unfolding stands_def using fetch_start [OF assms] first [OF assms] by blast
  then show ?thesis
    unfolding list_delimited_def by (rule loop_page [OF assms]) simp
qed

end

end
