(* ===== verification/Listing_Pages.thy ===== *)
theory Listing_Pages
  imports Delimited_Listing
begin

section \<open>Walking the pages of a listing\<close>

text \<open>
  A client reads a listing page by page, each request resuming after the last item of the previous
  page. The locale adds to a query the way a handler resumes it; its theorem says that the pages put
  together are the whole listing, whatever the page size.
\<close>

subsection \<open>Resuming\<close>

lemma collapse_restart:
  assumes "\<And>r cp. r \<in> set rs \<Longrightarrow> common_prefix prefix delim (key r) = Some cp \<Longrightarrow>
      \<not> (case m of Some x \<Rightarrow> cp \<le> x | None \<Rightarrow> False) \<and> \<not> (case m' of Some x \<Rightarrow> cp \<le> x | None \<Rightarrow> False) \<and>
      (new = [] \<longrightarrow> its \<noteq> [] \<longrightarrow> last its \<noteq> Prefix cp)"
  shows "collapse prefix delim m (its @ new) rs = its @ collapse prefix delim m' new rs"
  using assms
proof (induction rs arbitrary: new)
  case (Cons r rs)
  have same: "skip_group m (its @ new) cp \<longleftrightarrow> skip_group m' new cp"
    if "common_prefix prefix delim (key r) = Some cp" for cp
    using Cons.prems [of r cp] that by (cases "new = []") (auto simp: skip_group_def)
  have IH: "collapse prefix delim m (its @ new') rs = its @ collapse prefix delim m' new' rs"
    if "new' = [] \<longrightarrow> new = []" for new'
    using that by (intro Cons.IH) (use Cons.prems in \<open>auto\<close>)
  show ?case
    using same IH [of new] IH [of "new @ [listed_of prefix delim r]"] by (cases "common_prefix prefix delim (key r)") auto
qed simp

text \<open>The row that puts the \<open>n\<close>-th item on the page.\<close>

lemma collapse_take:
  assumes "length its < n" "n \<le> length (collapse prefix delim m its rs)"
  shows "\<exists>xs r ys. rs = xs @ r # ys \<and> collapse prefix delim m its (xs @ [r]) = take n (collapse prefix delim m its rs) \<and>
    last (take n (collapse prefix delim m its rs)) = listed_of prefix delim r"
  using assms
proof (induction rs arbitrary: its)
  case (Cons r rs)
  show ?case
  proof (cases "case common_prefix prefix delim (key r) of Some cp \<Rightarrow> skip_group m its cp | None \<Rightarrow> False")
    case True
    with Cons obtain xs x ys where "rs = xs @ x # ys"
      "collapse prefix delim m its (xs @ [x]) = take n (collapse prefix delim m its rs)"
      "last (take n (collapse prefix delim m its rs)) = listed_of prefix delim x"
      by fastforce
    with True show ?thesis
      by (intro exI [of _ "r # xs"] exI [of _ x] exI [of _ ys]) simp
  next
    case False
    let ?its = "its @ [listed_of prefix delim r]"
    obtain more where more: "collapse prefix delim m ?its rs = ?its @ more"
      using collapse_extends by blast
    show ?thesis
    proof (cases "n = length ?its")
      case True
      with False more show ?thesis
        by (intro exI [of _ "[]"] exI [of _ r] exI [of _ rs]) simp
    next
      case short: False
      with Cons.prems False Cons.IH [of ?its] obtain xs x ys where "rs = xs @ x # ys"
        "collapse prefix delim m ?its (xs @ [x]) = take n (collapse prefix delim m ?its rs)"
        "last (take n (collapse prefix delim m ?its rs)) = listed_of prefix delim x"
        by auto
      with False show ?thesis
        by (intro exI [of _ "r # xs"] exI [of _ x] exI [of _ ys]) simp
    qed
  qed
qed simp

text \<open>A key between a prefix and a key under it is itself under the prefix.\<close>

lemma between_under:
  fixes cp :: "'a::linorder list"
  assumes "cp \<le> k" "k \<le> l" "starts_with l cp"
  shows "starts_with k cp"
proof (rule ccontr)
  assume "\<not> starts_with k cp"
  moreover from this have "cp \<noteq> k"
    by (auto simp: starts_with_def)
  ultimately have "beyond cp k"
    using assms(1) by (simp add: beyond_def less_le)
  from beyond_greater [OF this assms(3)] assms(2) show False
    by simp
qed

text \<open>No later row is of a group at or before a row that stands on its own, or of an earlier group.\<close>

lemma later_group:
  assumes "starts_with (key s) prefix" "key r \<le> key s" "common_prefix prefix delim (key s) = Some cp" "cp \<le> key r"
  shows "common_prefix prefix delim (key r) = Some cp"
  by (rule common_prefix_same [OF assms(1,3)])
     (rule between_under [OF assms(4,2) common_prefix_under [OF assms(3)]])

subsection \<open>A query that can be resumed\<close>

text \<open>
  \<open>page q\<close> is what a request for the query returns; a truncated page is followed by the request that
  resumes after its last item. \<open>fuel\<close> bounds the number of requests.
\<close>

fun client_pages ::
  "nat \<Rightarrow> ('q \<Rightarrow> (string + DelimitedPage) option) \<Rightarrow> ('q \<Rightarrow> Listed \<Rightarrow> 'q) \<Rightarrow> 'q \<Rightarrow> Listed list option" where
  "client_pages 0 page resume q = None"
| "client_pages (Suc fuel) page resume q =
     (case page q of
        Some (Inr p) \<Rightarrow>
          if page_truncated p
          then map_option (append (page_items p)) (client_pages fuel page resume (resume q (last (page_items p))))
          else Some (page_items p)
      | _ \<Rightarrow> None)"

locale paged_source = list_source ok prefix_of all_rows first_rows fetch
  for ok :: "'q \<Rightarrow> bool" and prefix_of :: "'q \<Rightarrow> string" and all_rows first_rows :: "'q \<Rightarrow> ObjectRecord list"
    and fetch :: "'q \<Rightarrow> ListFrom \<Rightarrow> string + ObjectRecord list" +
  fixes marker_of :: "'q \<Rightarrow> string option" and resume :: "'q \<Rightarrow> Listed \<Rightarrow> 'q"
  assumes first_past: "ok q \<Longrightarrow> marker_of q = Some m \<Longrightarrow> r \<in> set (first_rows q) \<Longrightarrow> m \<le> key r"
    and resume_same: "prefix_of (resume q i) = prefix_of q" "all_rows (resume q i) = all_rows q"
    and resume_ok: "ok q \<Longrightarrow> i = Record r \<Longrightarrow> r \<in> set (all_rows q) \<Longrightarrow> ok (resume q i)"
      "ok q \<Longrightarrow> i = Prefix cp \<Longrightarrow> starts_with cp (prefix_of q) \<Longrightarrow> ok (resume q i)"
    and resume_record: "ok q \<Longrightarrow> all_rows q = xs @ r # ys \<Longrightarrow>
      first_rows (resume q (Record r)) = ys \<and> marker_of (resume q (Record r)) = Some (key r)"
    and resume_prefix: "ok q \<Longrightarrow>
      first_rows (resume q (Prefix cp)) = filter (\<lambda>r. cp < key r) (all_rows q) \<and> marker_of (resume q (Prefix cp)) = Some cp"
begin

abbreviation whole :: "string \<Rightarrow> 'q \<Rightarrow> Listed list" where
  "whole delim q \<equiv> collapse (prefix_of q) delim (marker_of q) [] (first_rows q)"

lemma all_from_first:
  assumes "ok q" "first_rows q = xs @ r # ys"
  obtains zs where "all_rows q = zs @ r # ys" "sorted (map key (zs @ r # ys))"
    "list_all (\<lambda>s. starts_with (key s) (prefix_of q)) (zs @ r # ys)"
  using first [OF assms(1)] assms(2) in_order [OF assms(1)] under [OF assms(1)] that by (metis append.assoc)

lemma rest_groups:
  assumes "ok q" "first_rows q = xs @ r # ys" "s \<in> set ys" "common_prefix (prefix_of q) delim (key s) = Some cp"
    and "\<not> common_prefix (prefix_of q) delim (key r) = Some cp"
  shows "\<not> (case marker_of q of Some x \<Rightarrow> cp \<le> x | None \<Rightarrow> False)" "\<not> cp \<le> key r"
proof -
  obtain zs where zs: "all_rows q = zs @ r # ys" "sorted (map key (zs @ r # ys))"
    "list_all (\<lambda>s. starts_with (key s) (prefix_of q)) (zs @ r # ys)"
    by (rule all_from_first [OF assms(1,2)])
  have "key r \<le> key s" "starts_with (key s) (prefix_of q)"
    using zs(2,3) assms(3) by (auto simp: sorted_append list_all_iff)
  then show now: "\<not> cp \<le> key r"
    using later_group [of s "prefix_of q" r delim cp] assms(4,5) by blast
  have "x \<le> key r" if "marker_of q = Some x" for x
    using first_past [OF assms(1) that, of r] assms(2) by simp
  with now show "\<not> (case marker_of q of Some x \<Rightarrow> cp \<le> x | None \<Rightarrow> False)"
    by (auto split: option.splits)
qed

lemma resume_after_record:
  assumes "ok q" "first_rows q = xs @ r # ys" "common_prefix (prefix_of q) delim (key r) = None"
  shows "collapse (prefix_of q) delim (marker_of q) (its @ [Record r]) ys = (its @ [Record r]) @ whole delim (resume q (Record r))"
proof -
  obtain zs where "all_rows q = zs @ r # ys"
    by (rule all_from_first [OF assms(1,2)])
  note new = resume_record [OF assms(1) this] resume_same [of q "Record r"]
  have "collapse (prefix_of q) delim (marker_of q) ((its @ [Record r]) @ []) ys =
      (its @ [Record r]) @ collapse (prefix_of q) delim (Some (key r)) [] ys"
    using rest_groups [OF assms(1,2)] assms(3) by (intro collapse_restart) auto
  then show ?thesis
    using new by simp
qed

lemma groups_beyond:
  assumes "ok q" "first_rows q = xs @ r # ys" "common_prefix (prefix_of q) delim (key r) = Some cp"
    and "s \<in> set ys" "is_beyond cp s" "common_prefix (prefix_of q) delim (key s) = Some c"
  shows "\<not> (case marker_of q of Some x \<Rightarrow> c \<le> x | None \<Rightarrow> False) \<and> \<not> c \<le> cp \<and> c \<noteq> cp"
proof -
  have "c \<noteq> cp"
    using common_prefix_under [OF assms(6)] assms(5) by (auto simp: beyond_def)
  then have "\<not> common_prefix (prefix_of q) delim (key r) = Some c"
    using assms(3) by simp
  note rest_groups [OF assms(1,2,4,6) this]
  moreover from this(2) have "\<not> c \<le> cp"
    using starts_with_le [OF common_prefix_under [OF assms(3)]] by (meson order_trans)
  ultimately show ?thesis
    using \<open>c \<noteq> cp\<close> by simp
qed

lemma resume_after_prefix:
  assumes "ok q" "first_rows q = xs @ r # ys" "common_prefix (prefix_of q) delim (key r) = Some cp"
  shows "collapse (prefix_of q) delim (marker_of q) (its @ [Prefix cp]) ys = (its @ [Prefix cp]) @ whole delim (resume q (Prefix cp))"
proof -
  let ?p = "prefix_of q" and ?m = "marker_of q" and ?its = "its @ [Prefix cp]"
  obtain zs where zs: "all_rows q = zs @ r # ys" "sorted (map key (zs @ r # ys))"
    "list_all (\<lambda>s. starts_with (key s) (prefix_of q)) (zs @ r # ys)"
    by (rule all_from_first [OF assms(1,2)])
  have r: "starts_with (key r) ?p"
    using zs(3) by simp
  define B where "B = filter (is_beyond cp) (all_rows q)"
  have "ys = filter (\<lambda>r. starts_with (key r) cp) ys @ B"
    unfolding B_def zs(1) by (rule rest_split [OF zs(2) common_prefix_under [OF assms(3)]])
  then have B: "s \<in> set ys" "is_beyond cp s" if "s \<in> set B" for s
    using that by (metis Un_iff set_append, simp add: B_def)
  have "collapse ?p delim ?m ?its ys = collapse ?p delim ?m ?its B"
    using skip_to_beyond [OF zs(2) _ r assms(3), of ?m ?its] by (simp add: B_def zs(1) skip_group_def)
  also have "\<dots> = ?its @ collapse ?p delim (Some cp) [] B"
  proof -
    have "collapse ?p delim ?m (?its @ []) B = ?its @ collapse ?p delim (Some cp) [] B"
      using groups_beyond [OF assms B] by (intro collapse_restart) fastforce
    then show ?thesis
      by simp
  qed
  also have "collapse ?p delim (Some cp) [] B = collapse ?p delim (Some cp) [] (filter (\<lambda>r. cp < key r) (all_rows q))"
    using skip_to_key [OF zs(2) _ r assms(3), of "Some cp" "[]"] by (simp add: B_def zs(1) skip_group_def)
  also have "\<dots> = whole delim (resume q (Prefix cp))"
    using resume_prefix [OF assms(1), of cp] resume_same [of q "Prefix cp"] by simp
  finally show ?thesis .
qed

lemma resume_after_item:
  assumes "ok q" "0 < n" "n < length (whole delim q)" "i = last (take n (whole delim q))"
  shows "ok (resume q i) \<and> whole delim (resume q i) = drop n (whole delim q)"
proof -
  obtain xs r ys where rows: "first_rows q = xs @ r # ys"
    and pre: "collapse (prefix_of q) delim (marker_of q) [] (xs @ [r]) = take n (whole delim q)"
    and i: "i = listed_of (prefix_of q) delim r"
    using collapse_take [of "[]" n "prefix_of q" delim "marker_of q" "first_rows q"] assms(2-4) by auto
  obtain its where its: "take n (whole delim q) = its @ [i]"
    using assms(2-4) by (metis append_butlast_last_id length_greater_0_conv less_nat_zero_code list.size(3) take_eq_Nil)
  have split: "whole delim q = collapse (prefix_of q) delim (marker_of q) (its @ [i]) ys"
    using rows pre its collapse_append [of "prefix_of q" delim "marker_of q" "[]" "xs @ [r]" ys] by simp
  have r: "r \<in> set (all_rows q)"
    using first [OF assms(1)] rows by auto
  have "ok (resume q i) \<and> whole delim q = (its @ [i]) @ whole delim (resume q i)"
  proof (cases "common_prefix (prefix_of q) delim (key r)")
    case None
    then show ?thesis
      using resume_after_record [OF assms(1) rows None, of its] resume_ok(1) [OF assms(1) _ r, of i] split i
      by (simp add: listed_of_def)
  next
    case (Some cp)
    have "starts_with cp (prefix_of q)"
      using Some common_prefix_form [of "key r" "prefix_of q" delim cp] under [OF assms(1)] r
      by (auto simp: list_all_iff starts_with_iff)
    then show ?thesis
      using resume_after_prefix [OF assms(1) rows Some, of its] resume_ok(2) [OF assms(1), of i cp] split i Some
      by (simp add: listed_of_def)
  qed
  moreover have "length (its @ [i]) = n"
    using its assms(3) by (metis length_take less_imp_le min.absorb2)
  ultimately show ?thesis
    by auto
qed

lemma pages_are_whole:
  assumes "0 < max_keys"
  shows "ok q \<Longrightarrow> length (whole delim q) < fuel \<Longrightarrow>
    client_pages fuel (\<lambda>q. list_delimited (prefix_of q) delim (marker_of q) max_keys (fetch q)) resume q =
      Some (whole delim q)"
proof (induction fuel arbitrary: q)
  case (Suc fuel)
  note page = page_is_collapse [OF Suc.prems(1), of delim "marker_of q" max_keys]
  show ?case
  proof (cases "max_keys < length (whole delim q)")
    case True
    note step = resume_after_item [OF Suc.prems(1) assms True refl]
    then have "length (whole delim (resume q (last (take max_keys (whole delim q))))) < fuel"
      using assms Suc.prems(2) True by simp
    with Suc.IH step page True show ?thesis
      by (simp add: page_of_def)
  next
    case False
    with page show ?thesis
      by (simp add: page_of_def)
  qed
qed simp

end

end
