(* ===== verification/List_Objects.thy ===== *)
theory List_Objects
  imports Listing_Pages
begin

section \<open>ListObjects (arca-proto/src/handlers/bucket.rs)\<close>

text \<open>
  The handlers of ListObjects V1 and V2 up to the rendering of the XML: request parameters, error
  answers, the flat and the delimited listing, and the marker or token of the next page. The
  continuation token is base64: \<open>enc\<close> and \<open>dec\<close> are the functions of that crate. \<open>pct\<close> is the
  percent encoding of the urlencoding crate. A result of \<^const>\<open>None\<close> is a request that never ends.
\<close>

subsection \<open>The delimited listing of objects\<close>

record object_query =
  oq_db :: object_db
  oq_bucket :: string
  oq_prefix :: "string option"
  oq_start :: "string option"

definition object_fetch :: "object_query \<Rightarrow> ListFrom \<Rightarrow> string + ObjectRecord list" where
  "object_fetch q from =
     (let cursor = (case from of
          Start \<Rightarrow> oq_start q | After r \<Rightarrow> Some (key r) | PastPrefix cp \<Rightarrow> Some (past_prefix cp))
      in Inr (list_objects (oq_bucket q) (oq_prefix q) cursor LIST_BATCH (oq_db q)))"

definition prefix_or_empty :: "string option \<Rightarrow> string" where
  "prefix_or_empty p = (case p of Some s \<Rightarrow> s | None \<Rightarrow> [])"

definition list_objects_delimited :: "object_query \<Rightarrow> string \<Rightarrow> nat \<Rightarrow> (string + DelimitedPage) option" where
  "list_objects_delimited q delim max_keys =
     list_delimited (prefix_or_empty (oq_prefix q)) delim (oq_start q) max_keys (object_fetch q)"

definition listed_key :: "Listed \<Rightarrow> string" where
  "listed_key i = (case i of Record r \<Rightarrow> key r | Prefix cp \<Rightarrow> cp)"

record ListEntry =
  le_key :: string
  le_last_modified :: timestamp
  le_etag :: string
  le_size :: nat
  le_storage_class :: string
  le_owner_id :: "string option"
  le_owner_display_name :: "string option"

definition record_to_list_entry :: "ObjectRecord \<Rightarrow> bool \<Rightarrow> ListEntry" where
  "record_to_list_entry r fetch_owner =
     (let own = (if owner r = [] then ''root'' else owner r) in
      \<lparr>le_key = key r, le_last_modified = last_modified r, le_etag = etag r, le_size = size r,
       le_storage_class = storage_class r, le_owner_id = (if fetch_owner then Some own else None),
       le_owner_display_name = (if fetch_owner then Some own else None)\<rparr>)"

fun split_listed :: "Listed list \<Rightarrow> bool \<Rightarrow> ListEntry list \<times> string list" where
  "split_listed [] fetch_owner = ([], [])"
| "split_listed (i # is) fetch_owner =
     (case split_listed is fetch_owner of (contents, prefixes) \<Rightarrow>
        (case i of
           Record r \<Rightarrow> (record_to_list_entry r fetch_owner # contents, prefixes)
         | Prefix cp \<Rightarrow> (contents, cp # prefixes)))"

subsection \<open>Request parameters\<close>

definition get_param :: "(string \<times> string) list \<Rightarrow> string \<Rightarrow> string option" where
  "get_param params name = map_option snd (find (\<lambda>p. fst p = name) params)"

definition max_keys_param :: "(string \<times> string) list \<Rightarrow> nat option" where
  "max_keys_param params =
     (case get_param params ''max-keys'' of None \<Rightarrow> Some 1000 | Some s \<Rightarrow> map_option (min 1000) (parse_unsigned 32 s))"

definition delimiter_param :: "(string \<times> string) list \<Rightarrow> string option" where
  "delimiter_param params =
     (case get_param params ''delimiter'' of Some d \<Rightarrow> if d = [] then None else Some d | None \<Rightarrow> None)"

subsection \<open>A page of either listing\<close>

text \<open>Without a delimiter one row more than the page holds is read, to see whether more follow.\<close>

definition list_flat :: "object_query \<Rightarrow> nat \<Rightarrow> DelimitedPage" where
  "list_flat q max_keys =
     (let records = list_objects (oq_bucket q) (oq_prefix q) (oq_start q) (max_keys + 1) (oq_db q) in
      \<lparr>page_items = map Record (take max_keys records), page_truncated = max_keys < length records\<rparr>)"

definition list_page :: "object_query \<Rightarrow> string option \<Rightarrow> nat \<Rightarrow> (string + DelimitedPage) option" where
  "list_page q delimiter max_keys =
     (case delimiter of
        Some delim \<Rightarrow> list_objects_delimited q delim max_keys
      | None \<Rightarrow> Some (Inr (list_flat q max_keys)))"

definition next_key :: "DelimitedPage \<Rightarrow> string option" where
  "next_key p = (if page_truncated p \<and> page_items p \<noteq> [] then Some (listed_key (last (page_items p))) else None)"

definition s3_url_encode :: "(string \<Rightarrow> string) \<Rightarrow> string \<Rightarrow> string" where
  "s3_url_encode pct s = tl (concat (map (\<lambda>seg. CHR ''/'' # pct seg) (split_on CHR ''/'' s)))"

record ListBucketResult =
  lr_contents :: "ListEntry list"
  lr_prefixes :: "string list"
  lr_truncated :: bool
  lr_key_count :: nat
  lr_next :: "string option"

definition empty_result :: ListBucketResult where
  "empty_result = \<lparr>lr_contents = [], lr_prefixes = [], lr_truncated = False, lr_key_count = 0, lr_next = None\<rparr>"

definition list_result ::
  "(string \<Rightarrow> string) \<Rightarrow> string option \<Rightarrow> bool \<Rightarrow> string option \<Rightarrow> DelimitedPage \<Rightarrow> ListBucketResult" where
  "list_result pct encoding_type fetch_owner token p =
     (case split_listed (page_items p) fetch_owner of (contents, prefixes) \<Rightarrow>
        let url = encoding_type = Some ''url'' in
        \<lparr>lr_contents = (if url then map (\<lambda>e. e\<lparr>le_key := s3_url_encode pct (le_key e)\<rparr>) contents else contents),
         lr_prefixes = (if url then map (s3_url_encode pct) prefixes else prefixes),
         lr_truncated = page_truncated p, lr_key_count = length contents + length prefixes, lr_next = token\<rparr>)"

subsection \<open>The handlers\<close>

text \<open>The continuation token, when there is one, must be the base64 of UTF-8 text.\<close>

definition decode_token :: "(string \<Rightarrow> string option) \<Rightarrow> string option \<Rightarrow> string option option" where
  "decode_token dec token =
     (case token of
        None \<Rightarrow> Some None
      | Some t \<Rightarrow> (case dec t of Some s \<Rightarrow> if is_utf8 s then Some (Some s) else None | None \<Rightarrow> None))"

definition list_objects_v2 ::
  "(string \<Rightarrow> string) \<Rightarrow> (string \<Rightarrow> string option) \<Rightarrow> (string \<Rightarrow> string) \<Rightarrow> object_db \<Rightarrow> string
     \<Rightarrow> (string \<times> string) list \<Rightarrow> (S3ErrorCode + ListBucketResult) option" where
  "list_objects_v2 enc dec pct db b params =
     (case head_bucket b (tables db) of
        None \<Rightarrow> Some (Inl NoSuchBucket)
      | Some _ \<Rightarrow>
          (case max_keys_param params of
             None \<Rightarrow> Some (Inl InvalidArgument)
           | Some max_keys \<Rightarrow>
               if max_keys = 0 then Some (Inr empty_result)
               else (case decode_token dec (get_param params ''continuation-token'') of
                  None \<Rightarrow> Some (Inl InvalidArgument)
                | Some decoded \<Rightarrow>
                    let start = (case decoded of Some s \<Rightarrow> Some s | None \<Rightarrow> get_param params ''start-after'');
                        q = \<lparr>oq_db = db, oq_bucket = b, oq_prefix = get_param params ''prefix'', oq_start = start\<rparr> in
                    (case list_page q (delimiter_param params) max_keys of
                       None \<Rightarrow> None
                     | Some (Inl e) \<Rightarrow> Some (Inl InternalError)
                     | Some (Inr p) \<Rightarrow>
                         Some (Inr (list_result pct (get_param params ''encoding-type'')
                           (get_param params ''fetch-owner'' = Some ''true'') (map_option enc (next_key p)) p))))))"

definition list_objects_v1 ::
  "(string \<Rightarrow> string) \<Rightarrow> object_db \<Rightarrow> string \<Rightarrow> (string \<times> string) list \<Rightarrow> (S3ErrorCode + ListBucketResult) option" where
  "list_objects_v1 pct db b params =
     (case head_bucket b (tables db) of
        None \<Rightarrow> Some (Inl NoSuchBucket)
      | Some _ \<Rightarrow>
          (case max_keys_param params of
             None \<Rightarrow> Some (Inl InvalidArgument)
           | Some max_keys \<Rightarrow>
               if max_keys = 0 then Some (Inr empty_result)
               else
                 let q = \<lparr>oq_db = db, oq_bucket = b, oq_prefix = get_param params ''prefix'',
                       oq_start = get_param params ''marker''\<rparr> in
                 (case list_page q (delimiter_param params) max_keys of
                    None \<Rightarrow> None
                  | Some (Inl e) \<Rightarrow> Some (Inl InternalError)
                  | Some (Inr p) \<Rightarrow>
                      Some (Inr (list_result pct (get_param params ''encoding-type'') True (next_key p) p)))))"

subsection \<open>The object query as a source of rows\<close>

definition object_rows :: "object_query \<Rightarrow> ObjectRecord list" where
  "object_rows q = sort_key key (filter (\<lambda>r. bucket r = oq_bucket q \<and> is_latest r \<and> \<not> is_delete_marker r \<and>
     prefix_matches (oq_prefix q) (key r)) (map obj (objects (oq_db q))))"

definition object_first :: "object_query \<Rightarrow> ObjectRecord list" where
  "object_first q = (case oq_start q of None \<Rightarrow> object_rows q | Some m \<Rightarrow> filter (\<lambda>r. m < key r) (object_rows q))"

text \<open>
  Keys are Rust strings, and fewer than a batch of the keys of any group go on with U+10FFFF after
  the group's prefix.
\<close>

definition listing_ok :: "object_query \<Rightarrow> bool" where
  "listing_ok q \<longleftrightarrow> object_wf (oq_db q) \<and> (\<forall>x \<in> set (objects (oq_db q)). is_utf8 (key (obj x))) \<and>
     is_utf8 (prefix_or_empty (oq_prefix q)) \<and> (\<forall>cp. length (tail_rows cp (object_rows q)) < LIST_BATCH)"

definition resume_objects :: "object_query \<Rightarrow> Listed \<Rightarrow> object_query" where
  "resume_objects q i = q\<lparr>oq_start := Some (listed_key i)\<rparr>"

lemma list_objects_rows:
  "list_objects (oq_bucket q) (oq_prefix q) c n (oq_db q) =
    take n (case c of None \<Rightarrow> object_rows q | Some m \<Rightarrow> filter (\<lambda>r. m < key r) (object_rows q))"
  by (cases c) (simp_all add: list_objects_def object_rows_def filter_sort conj_ac)

lemma object_rows_sorted: "sorted (map key (object_rows q))"
  by (simp add: object_rows_def)

lemma latest_unique:
  assumes "object_wf db" "x \<in> set (objects db)" "y \<in> set (objects db)" "bucket (obj x) = bucket (obj y)"
    "key (obj x) = key (obj y)" "is_latest (obj x)" "is_latest (obj y)"
  shows "x = y"
  using object_wf_key [OF assms(1), of "bucket (obj x)" "key (obj x)"] assms(2-)
  by (auto simp: key_ok_def rows_of_def of_key_def)

lemma objects_distinct: "object_wf db \<Longrightarrow> distinct (objects db)"
  by (auto simp: object_wf_def base_ok_def rowids_ok_def distinct_map)

lemma object_rows_distinct:
  assumes "object_wf (oq_db q)"
  shows "distinct (map key (object_rows q))"
proof -
  let ?P = "\<lambda>r. bucket r = oq_bucket q \<and> is_latest r \<and> \<not> is_delete_marker r \<and> prefix_matches (oq_prefix q) (key r)"
  have "inj_on (key \<circ> obj) (set (filter (?P \<circ> obj) (objects (oq_db q))))"
    using latest_unique [OF assms] by (auto simp: inj_on_def)
  then have "distinct (map (key \<circ> obj) (filter (?P \<circ> obj) (objects (oq_db q))))"
    using objects_distinct [OF assms] by (simp add: distinct_map)
  then have "distinct (map key (filter ?P (map obj (objects (oq_db q)))))"
    by (simp add: filter_map o_def)
  then show ?thesis
    unfolding object_rows_def by (metis (mono_tags, lifting) distinct_map distinct_sort set_sort)
qed

lemma object_rows_under:
  assumes "listing_ok q" "r \<in> set (object_rows q)"
  shows "starts_with (key r) (prefix_or_empty (oq_prefix q))" "is_utf8 (key r)"
proof -
  show "is_utf8 (key r)"
    using assms by (auto simp: object_rows_def listing_ok_def)
  with assms show "starts_with (key r) (prefix_or_empty (oq_prefix q))"
    by (auto simp: object_rows_def listing_ok_def prefix_or_empty_def prefix_matches_def prefix_filter_exact
        starts_with_def split: option.splits)
qed

lemma rows_after:
  assumes "sorted (map key (xs @ r # ys))" "distinct (map key (xs @ r # ys))"
  shows "filter (\<lambda>s. key r < key s) (xs @ r # ys) = ys"
proof -
  have "filter (\<lambda>s. key r < key s) xs = []"
    using assms(1) by (auto simp: filter_empty_conv sorted_append not_less)
  moreover have "filter (\<lambda>s. key r < key s) ys = ys"
    using assms by (auto simp: filter_id_conv sorted_append less_le)
  ultimately show ?thesis
    by simp
qed

lemma rows_from_key:
  assumes "sorted (map key rs)"
  shows "\<exists>xs. rs = xs @ filter (\<lambda>r. m < key r) rs"
  using filter_up [OF assms, of "\<lambda>r. m < key r"] by (metis less_le_trans)

interpretation listing: paged_source listing_ok "\<lambda>q. prefix_or_empty (oq_prefix q)" object_rows object_first
  object_fetch oq_start resume_objects
proof (unfold_locales, goal_cases)
  case (1 q)
  then show ?case
    using object_rows_under(1) by (simp add: list_all_iff)
next
  case (2 q)
  show ?case
    by (rule object_rows_sorted)
next
  case (3 q)
  show ?case
    using rows_from_key [OF object_rows_sorted] by (auto simp: object_first_def split: option.split)
next
  case (4 q)
  show ?case
    by (simp add: object_fetch_def list_objects_rows object_first_def)
next
  case (5 q xs r ys)
  then show ?case
    using rows_after [of xs r ys] object_rows_sorted [of q] object_rows_distinct [of q]
    by (simp add: object_fetch_def list_objects_rows listing_ok_def)
next
  case (6 q cp)
  show ?case
    by (simp add: object_fetch_def list_objects_rows past_rows_def)
next
  case (7 q cp)
  then show ?case
    by (simp add: listing_ok_def)
next
  case (8 q m r)
  then show ?case
    by (auto simp: object_first_def)
next
  case (9 q i)
  show ?case
    by (simp add: resume_objects_def)
next
  case (10 q i)
  show ?case
    by (simp add: resume_objects_def object_rows_def)
next
  case (11 q i r)
  then show ?case
    by (simp add: resume_objects_def listing_ok_def object_rows_def)
next
  case (12 q i cp)
  then show ?case
    by (simp add: resume_objects_def listing_ok_def object_rows_def)
next
  case (13 q xs r ys)
  then show ?case
    using rows_after [of xs r ys] object_rows_sorted [of q] object_rows_distinct [of q]
    by (simp add: resume_objects_def object_first_def object_rows_def listed_key_def listing_ok_def)
next
  case (14 q cp)
  then show ?case
    by (simp add: resume_objects_def object_first_def object_rows_def listed_key_def)
qed

subsection \<open>The listing that reads every row\<close>

lemma remdups_adj_snoc_same: "xs \<noteq> [] \<Longrightarrow> remdups_adj (xs @ last xs # ys) = remdups_adj (xs @ ys)"
  by (simp add: remdups_adj_append'')

lemma remdups_adj_snoc_new: "xs = [] \<or> last xs \<noteq> y \<Longrightarrow> remdups_adj (xs @ [y]) = remdups_adj xs @ [y]"
  by (cases "xs = []") (simp_all add: remdups_adj_append'')

lemma last_remdups_adj: "last (remdups_adj xs) = last xs"
  by (cases "xs = []") simp_all

lemma collapse_remdups:
  "distinct rs \<Longrightarrow> (\<And>r. r \<in> set rs \<Longrightarrow> Record r \<notin> set its) \<Longrightarrow>
    collapse p d None (remdups_adj its) rs = remdups_adj (its @ map (listed_of p d) rs)"
proof (induction rs arbitrary: its)
  case (Cons r rs)
  have tail: "collapse p d None (remdups_adj (its @ [listed_of p d r])) rs =
      remdups_adj ((its @ [listed_of p d r]) @ map (listed_of p d) rs)"
    using Cons.prems by (intro Cons.IH) (auto simp: listed_of_def split: option.split)
  show ?case
  proof (cases "its \<noteq> [] \<and> last its = listed_of p d r")
    case True
    then obtain cp where "common_prefix p d (key r) = Some cp" "listed_of p d r = Prefix cp"
      using Cons.prems(2) [of r] last_in_set [of its] by (auto simp: listed_of_def split: option.splits)
    with True Cons.IH [of its] Cons.prems show ?thesis
      using remdups_adj_snoc_same [of its "map (listed_of p d) rs"]
      by (auto simp: skip_group_def last_remdups_adj)
  next
    case False
    then have "remdups_adj (its @ [listed_of p d r]) = remdups_adj its @ [listed_of p d r]"
      by (intro remdups_adj_snoc_new) auto
    moreover have "\<not> (case common_prefix p d (key r) of Some cp \<Rightarrow> skip_group None (remdups_adj its) cp | None \<Rightarrow> False)"
      using False by (auto simp: skip_group_def last_remdups_adj listed_of_def split: option.splits)
    ultimately show ?thesis
      using tail by simp
  qed
qed simp

text \<open>The items of a listing in key order: the rows themselves, or with a delimiter the rolled up groups.\<close>

definition naive_listing :: "object_query \<Rightarrow> string option \<Rightarrow> Listed list" where
  "naive_listing q delimiter =
     (case delimiter of
        None \<Rightarrow> map Record (object_rows q)
      | Some d \<Rightarrow> remdups_adj (map (listed_of (prefix_or_empty (oq_prefix q)) d) (object_rows q)))"

text \<open>What is left of a listing from a marker on.\<close>

definition remaining :: "object_query \<Rightarrow> string option \<Rightarrow> Listed list" where
  "remaining q delimiter =
     (case delimiter of
        None \<Rightarrow> map Record (object_first q)
      | Some d \<Rightarrow> collapse (prefix_or_empty (oq_prefix q)) d (oq_start q) [] (object_first q))"

lemma remaining_from_start:
  assumes "listing_ok q" "oq_start q = None"
  shows "remaining q delimiter = naive_listing q delimiter"
proof -
  have "distinct (object_rows q)"
    using object_rows_distinct [of q] assms(1) by (simp add: listing_ok_def distinct_map)
  from collapse_remdups [OF this, of "[]"] assms(2) show ?thesis
    by (simp add: remaining_def naive_listing_def object_first_def split: option.split)
qed

lemma page_is_remaining:
  assumes "listing_ok q" "0 < max_keys"
  shows "list_page q delimiter max_keys = Some (Inr (page_of max_keys (remaining q delimiter)))"
proof (cases delimiter)
  case None
  have "take max_keys (take (max_keys + 1) xs) = take max_keys xs" "max_keys < length (take (max_keys + 1) xs) \<longleftrightarrow> max_keys < length xs"
    for xs :: "ObjectRecord list"
    by auto
  with None show ?thesis
    by (simp add: list_page_def list_flat_def Let_def list_objects_rows page_of_def remaining_def object_first_def
        take_map split: option.split)
next
  case (Some d)
  then show ?thesis
    using listing.page_is_collapse [OF assms(1)] by (simp add: list_page_def list_objects_delimited_def remaining_def)
qed

lemma flat_resume:
  assumes "listing_ok q" "n < length (object_first q)" "0 < n"
  shows "object_first (resume_objects q (Record (last (take n (object_first q))))) = drop n (object_first q)"
proof -
  let ?f = "object_first q" and ?r = "last (take n (object_first q))"
  obtain zs where "object_rows q = zs @ ?f"
    using listing.first [OF assms(1)] by blast
  then have "object_rows q = (zs @ butlast (take n ?f)) @ ?r # drop n ?f"
    using split_at_take [of n ?f] assms(2,3) by simp
  from listing.resume_record [OF assms(1) this] show ?thesis ..
qed

lemma resume_remaining:
  assumes "listing_ok q" "0 < n" "n < length (remaining q delimiter)" "i = last (take n (remaining q delimiter))"
  shows "listing_ok (resume_objects q i) \<and> remaining (resume_objects q i) delimiter = drop n (remaining q delimiter)"
proof (cases delimiter)
  case None
  have "take n (object_first q) \<noteq> []"
    using assms(2,3) None by (auto simp: remaining_def)
  then have i: "i = Record (last (take n (object_first q)))"
    using assms(4) None by (simp add: remaining_def take_map last_map)
  have "listing_ok (resume_objects q i)"
    using assms(1) by (simp add: resume_objects_def listing_ok_def object_rows_def)
  with flat_resume [OF assms(1) _ assms(2)] assms(3) None i show ?thesis
    by (simp add: remaining_def drop_map)
next
  case (Some d)
  then show ?thesis
    using listing.resume_after_item [OF assms(1,2), of d i] assms(3,4)
    by (simp add: remaining_def resume_objects_def)
qed

end
