(* ===== verification/List_Walk.thy ===== *)
theory List_Walk
  imports List_Objects
begin

section \<open>A client that lists a bucket\<close>

text \<open>
  A client of ListObjectsV2 asks for a page and follows the continuation tokens. Put together, its
  pages are the listing that reads every row; the exception are groups with many keys that go on
  with the last code point, on which a request never ends.
\<close>

definition with_token :: "string \<Rightarrow> (string \<times> string) list \<Rightarrow> (string \<times> string) list" where
  "with_token t params = (''continuation-token'', t) # filter (\<lambda>p. fst p \<noteq> ''continuation-token'') params"

fun client_v2 ::
  "nat \<Rightarrow> ((string \<times> string) list \<Rightarrow> (S3ErrorCode + ListBucketResult) option) \<Rightarrow> (string \<times> string) list
     \<Rightarrow> (ListEntry list \<times> string list) option" where
  "client_v2 0 request params = None"
| "client_v2 (Suc fuel) request params =
     (case request params of
        Some (Inr r) \<Rightarrow>
          (case lr_next r of
             None \<Rightarrow> Some (lr_contents r, lr_prefixes r)
           | Some t \<Rightarrow> map_option (\<lambda>(c, p). (lr_contents r @ c, lr_prefixes r @ p))
               (client_v2 fuel request (with_token t params)))
      | _ \<Rightarrow> None)"

lemma get_param_with_token:
  "get_param (with_token t params) n = (if n = ''continuation-token'' then Some t else get_param params n)"
proof -
  have "find (\<lambda>p. fst p = n) (filter (\<lambda>p. fst p \<noteq> ''continuation-token'') params) = find (\<lambda>p. fst p = n) params"
    if "n \<noteq> ''continuation-token''"
    using that by (induction params) auto
  then show ?thesis
    by (auto simp: get_param_def with_token_def)
qed

lemma split_listed_append:
  "split_listed (xs @ ys) f = (fst (split_listed xs f) @ fst (split_listed ys f), snd (split_listed xs f) @ snd (split_listed ys f))"
  by (induction xs) (auto split: prod.splits Listed.splits)

lemma collapse_set: "set (collapse p d m its rs) \<subseteq> set its \<union> listed_of p d ` set rs"
proof (induction rs arbitrary: its)
  case (Cons r rs)
  from Cons [of its] Cons [of "its @ [listed_of p d r]"] show ?case
    by auto
qed simp

lemma remaining_listed:
  assumes "listing_ok q" "i \<in> set (remaining q delimiter)"
  obtains r where "r \<in> set (object_rows q)"
    "i = (case delimiter of None \<Rightarrow> Record r | Some d \<Rightarrow> listed_of (prefix_or_empty (oq_prefix q)) d r)"
proof -
  have "set (object_first q) \<subseteq> set (object_rows q)"
    using listing.first [OF assms(1)] by auto
  with assms(2) that collapse_set [of "prefix_or_empty (oq_prefix q)" "the delimiter" "oq_start q" "[]" "object_first q"]
  show ?thesis
    by (auto simp: remaining_def split: option.splits)
qed

text \<open>The key that a page is resumed at is a Rust string, so its token decodes.\<close>

lemma listed_utf8:
  assumes "listing_ok q" "i \<in> set (remaining q delimiter)" "\<And>d. delimiter = Some d \<Longrightarrow> is_utf8 d \<and> d \<noteq> []"
  shows "is_utf8 (listed_key i)"
proof -
  obtain r where r: "r \<in> set (object_rows q)"
    "i = (case delimiter of None \<Rightarrow> Record r | Some d \<Rightarrow> listed_of (prefix_or_empty (oq_prefix q)) d r)"
    by (rule remaining_listed [OF assms(1,2)])
  note key = object_rows_under [OF assms(1) r(1)]
  have "is_utf8 cp" if d: "delimiter = Some d" and cp: "common_prefix (prefix_or_empty (oq_prefix q)) d (key r) = Some cp" for d cp
  proof -
    obtain x rest where "key r = (prefix_or_empty (oq_prefix q) @ x) @ d @ rest" "cp = (prefix_or_empty (oq_prefix q) @ x) @ d"
      using common_prefix_form [OF key(1), of d cp] cp by auto
    then show ?thesis
      using key(2) is_utf8_cut [of "prefix_or_empty (oq_prefix q) @ x" d rest] assms(3) [OF d] by simp
  qed
  with r(2) key(2) show ?thesis
    by (auto simp: listed_key_def listed_of_def split: option.splits)
qed

subsection \<open>One request\<close>

definition asks_for :: "(string \<Rightarrow> string option) \<Rightarrow> object_db \<Rightarrow> string \<Rightarrow> (string \<times> string) list \<Rightarrow> object_query \<Rightarrow> bool" where
  "asks_for dec db b params q \<longleftrightarrow> oq_db q = db \<and> oq_bucket q = b \<and> oq_prefix q = get_param params ''prefix'' \<and>
     (\<exists>s. decode_token dec (get_param params ''continuation-token'') = Some s \<and>
       oq_start q = (case s of Some s \<Rightarrow> Some s | None \<Rightarrow> get_param params ''start-after''))"

lemma request_page:
  assumes "asks_for dec db b params q" "listing_ok q" "head_bucket b (tables db) \<noteq> None"
    and "max_keys_param params = Some mk" "0 < mk"
  shows "list_objects_v2 enc dec pct db b params =
    (let p = page_of mk (remaining q (delimiter_param params)) in
     Some (Inr (list_result pct (get_param params ''encoding-type'') (get_param params ''fetch-owner'' = Some ''true'')
       (map_option enc (next_key p)) p)))"
proof -
  obtain s where s: "decode_token dec (get_param params ''continuation-token'') = Some s"
    "q = \<lparr>oq_db = db, oq_bucket = b, oq_prefix = get_param params ''prefix'',
      oq_start = (case s of Some s \<Rightarrow> Some s | None \<Rightarrow> get_param params ''start-after'')\<rparr>"
    using assms(1) by (auto simp: asks_for_def)
  from page_is_remaining [OF assms(2,5), of "delimiter_param params"] assms(3-5) s(1) show ?thesis
    by (auto simp: list_objects_v2_def s(2) [symmetric] Let_def)
qed

lemma asks_for_next:
  assumes "asks_for dec db b params q" "dec t = Some (listed_key i)" "is_utf8 (listed_key i)"
  shows "asks_for dec db b (with_token t params) (resume_objects q i)"
  using assms by (auto simp: asks_for_def get_param_with_token resume_objects_def decode_token_def)

subsection \<open>All requests\<close>

lemma client_v2_remaining:
  assumes "\<And>s. dec (enc s) = Some s" "head_bucket b (tables db) \<noteq> None" "0 < mk"
    and "\<And>d. delimiter = Some d \<Longrightarrow> is_utf8 d \<and> d \<noteq> []"
  shows "asks_for dec db b params q \<Longrightarrow> listing_ok q \<Longrightarrow> max_keys_param params = Some mk \<Longrightarrow>
    delimiter_param params = delimiter \<Longrightarrow> get_param params ''encoding-type'' = None \<Longrightarrow>
    get_param params ''fetch-owner'' = fo \<Longrightarrow> length (remaining q delimiter) < fuel \<Longrightarrow>
    client_v2 fuel (list_objects_v2 enc dec pct db b) params = Some (split_listed (remaining q delimiter) (fo = Some ''true''))"
proof (induction fuel arbitrary: params q)
  case (Suc fuel)
  let ?rem = "remaining q delimiter"
  note page = request_page [OF Suc.prems(1,2) assms(2) Suc.prems(3) assms(3), of enc pct, unfolded Let_def Suc.prems(4-6)]
  show ?case
  proof (cases "mk < length ?rem")
    case True
    define i where "i = last (take mk ?rem)"
    have nonempty: "take mk ?rem \<noteq> []"
      using True assms(3) by auto
    have "i \<in> set ?rem"
      unfolding i_def using last_in_set [OF nonempty] by (rule in_set_takeD)
    then have utf8: "is_utf8 (listed_key i)"
      by (rule listed_utf8 [OF Suc.prems(2) _ assms(4)])
    let ?params = "with_token (enc (listed_key i)) params"
    note resume = resume_remaining [OF Suc.prems(2) assms(3) True i_def]
    have "client_v2 fuel (list_objects_v2 enc dec pct db b) ?params =
        Some (split_listed (remaining (resume_objects q i) delimiter) (fo = Some ''true''))"
    proof (rule Suc.IH)
      show "asks_for dec db b ?params (resume_objects q i)"
        using asks_for_next [OF Suc.prems(1) assms(1) utf8] .
      show "max_keys_param ?params = Some mk" "delimiter_param ?params = delimiter"
        using Suc.prems(3,4) by (simp_all add: max_keys_param_def delimiter_param_def get_param_with_token)
      show "length (remaining (resume_objects q i) delimiter) < fuel"
        using resume True assms(3) Suc.prems(7) by simp
    qed (use resume Suc.prems in \<open>simp_all add: get_param_with_token\<close>)
    moreover have "split_listed ?rem f = (fst (split_listed (take mk ?rem) f) @ fst (split_listed (drop mk ?rem) f),
        snd (split_listed (take mk ?rem) f) @ snd (split_listed (drop mk ?rem) f))" for f
      using split_listed_append [of "take mk ?rem" "drop mk ?rem"] by simp
    ultimately show ?thesis
      using page True nonempty resume
      by (simp add: next_key_def page_of_def list_result_def i_def split: prod.split)
  next
    case False
    then show ?thesis
      using page by (simp add: next_key_def page_of_def list_result_def split: prod.split)
  qed
qed simp

text \<open>
  C3: A client that lists a bucket with ListObjectsV2 and follows the continuation tokens receives the
  whole listing: every current object under the prefix, in key order and once, or with a delimiter
  the objects and the common prefixes that a listing of all rows would roll up. This holds for every
  page size, on a well-formed store whose keys are Unicode text, provided that fewer than 100 keys of
  any group go on with the last code point.\<close>

theorem list_v2_walk_complete:
  assumes "\<And>s. dec (enc s) = Some s"
    and "head_bucket b (tables db) \<noteq> None"
    and "q = \<lparr>oq_db = db, oq_bucket = b, oq_prefix = get_param params ''prefix'', oq_start = None\<rparr>" "listing_ok q"
    and "get_param params ''continuation-token'' = None" "get_param params ''start-after'' = None"
    and "get_param params ''encoding-type'' = None"
    and "max_keys_param params = Some mk" "0 < mk"
    and "\<And>d. delimiter_param params = Some d \<Longrightarrow> is_utf8 d"
  shows "\<exists>requests. client_v2 requests (list_objects_v2 enc dec pct db b) params =
    Some (split_listed (naive_listing q (delimiter_param params)) (get_param params ''fetch-owner'' = Some ''true''))"
proof -
  have "asks_for dec db b params q"
    using assms(3,5,6) by (simp add: asks_for_def decode_token_def)
  moreover have "d \<noteq> []" if "delimiter_param params = Some d" for d
    using that by (auto simp: delimiter_param_def split: option.splits if_splits)
  ultimately have "client_v2 (Suc (length (remaining q (delimiter_param params)))) (list_objects_v2 enc dec pct db b) params =
      Some (split_listed (remaining q (delimiter_param params)) (get_param params ''fetch-owner'' = Some ''true''))"
    using assms by (intro client_v2_remaining [where dec = dec and enc = enc, OF assms(1,2,9)]) simp_all
  moreover have "remaining q (delimiter_param params) = naive_listing q (delimiter_param params)"
    using remaining_from_start [OF assms(4)] assms(3) by simp
  ultimately show ?thesis
    by (intro exI) (simp only:)
qed

subsection \<open>A listing that never ends\<close>

definition stuck ::
  "string \<Rightarrow> string \<Rightarrow> string option \<Rightarrow> nat \<Rightarrow> (ListFrom \<Rightarrow> string + ObjectRecord list) \<Rightarrow> ListFrom \<Rightarrow> Listed list \<Rightarrow> bool" where
  "stuck prefix delim marker max_keys fetch from its \<longleftrightarrow>
     (\<exists>cp rs. from = PastPrefix cp \<and> fetch from = Inr rs \<and> LIST_BATCH \<le> length rs \<and>
       scan_batch prefix delim marker max_keys rs its None = ((its, False), Some cp))"

lemma stuck_loops: "stuck prefix delim marker max_keys fetch from its \<Longrightarrow>
    list_loop prefix delim marker max_keys fetch from its = None"
proof (rule ccontr)
  assume st: "stuck prefix delim marker max_keys fetch from its"
    and "list_loop prefix delim marker max_keys fetch from its \<noteq> None"
  then obtain y where "list_loop prefix delim marker max_keys fetch from its = Some y"
    by blast
  then have "\<not> stuck prefix delim marker max_keys fetch from its"
  proof (rule list_loop.raw_induct [where P = "\<lambda>prefix delim marker max_keys fetch from its y.
      \<not> stuck prefix delim marker max_keys fetch from its", rotated])
    fix f prefix delim marker max_keys fetch "from" its y
    assume IH: "\<And>prefix delim marker max_keys fetch from its y. f prefix delim marker max_keys fetch from its = Some y \<Longrightarrow>
        \<not> stuck prefix delim marker max_keys fetch from its"
      and body: "(case fetch from of Inl e \<Rightarrow> Some (Inl e)
        | Inr records \<Rightarrow> (case scan_batch prefix delim marker max_keys records its None of
             ((its', full), last_group) \<Rightarrow>
               if full then Some (Inr \<lparr>page_items = its', page_truncated = True\<rparr>)
               else if records = [] \<or> length records < LIST_BATCH then
                 Some (Inr \<lparr>page_items = its', page_truncated = False\<rparr>)
               else f prefix delim marker max_keys fetch
                 (case last_group of Some cp \<Rightarrow> PastPrefix cp | None \<Rightarrow> After (last records)) its')) = Some y"
    show "\<not> stuck prefix delim marker max_keys fetch from its"
    proof
      assume st: "stuck prefix delim marker max_keys fetch from its"
      then obtain cp rs where rs: "from = PastPrefix cp" "fetch from = Inr rs" "LIST_BATCH \<le> length rs"
        "scan_batch prefix delim marker max_keys rs its None = ((its, False), Some cp)"
        by (auto simp: stuck_def)
      moreover from rs(3) have "rs \<noteq> []"
        by (auto simp: LIST_BATCH_def)
      ultimately have "f prefix delim marker max_keys fetch from its = Some y"
        using body by simp
      from IH [OF this] st show False ..
    qed
  qed
  with st show False
    by contradiction
qed

lemma scan_group:
  assumes "list_all (\<lambda>r. common_prefix prefix delim (key r) = Some cp) rs" "rs \<noteq> []" "skip_group marker its cp"
  shows "scan_batch prefix delim marker max_keys rs its g = ((its, False), Some cp)"
  using assms
proof (induction rs arbitrary: g)
  case (Cons r rs)
  then show ?case
    by (cases "rs = []") simp_all
qed simp

lemma first_batch_of_group:
  fixes r :: ObjectRecord
  assumes "sorted (map key (r # rs))" "starts_with (key r) prefix" "common_prefix prefix delim (key r) = Some cp"
    and "LIST_BATCH \<le> length (filter (\<lambda>s. starts_with (key s) cp) (r # rs))"
  shows "list_all (\<lambda>s. common_prefix prefix delim (key s) = Some cp) (take LIST_BATCH (r # rs))"
proof -
  have under: "starts_with (key r) cp"
    by (rule common_prefix_under [OF assms(3)])
  have "rs = filter (\<lambda>s. starts_with (key s) cp) rs @ filter (is_beyond cp) ([] @ r # rs)"
    using rest_split [of "[]" r rs cp] assms(1) under by simp
  then have "r # rs = filter (\<lambda>s. starts_with (key s) cp) (r # rs) @ filter (is_beyond cp) ([] @ r # rs)"
    using under by simp
  then have "take LIST_BATCH (r # rs) = take LIST_BATCH (filter (\<lambda>s. starts_with (key s) cp) (r # rs))"
    using assms(4) by (metis (no_types, lifting) append_Nil2 diff_is_0_eq take_0 take_append)
  then have "set (take LIST_BATCH (r # rs)) \<subseteq> set (filter (\<lambda>s. starts_with (key s) cp) (r # rs))"
    by (metis set_take_subset)
  then have "starts_with (key s) cp" if "s \<in> set (take LIST_BATCH (r # rs))" for s
    using that unfolding set_filter by blast
  then show ?thesis
    using common_prefix_same [OF assms(2,3)] by (auto simp: list_all_iff)
qed

lemma tail_rows_le: "length (tail_rows cp rs) \<le> length (filter (\<lambda>s. starts_with (key s) cp) rs)"
  unfolding tail_rows_def by (induction rs) auto

lemma past_is_stuck:
  assumes "LIST_BATCH \<le> length (tail_rows cp (object_rows q))" "skip_group marker its cp"
    and "starts_with (key r) prefix" "common_prefix prefix delim (key r) = Some cp"
  shows "stuck prefix delim marker max_keys (object_fetch q) (PastPrefix cp) its"
proof -
  let ?batch = "take LIST_BATCH (tail_rows cp (object_rows q))"
  have fetch: "object_fetch q (PastPrefix cp) = Inr ?batch"
    using past_rows_split [OF object_rows_sorted, of cp q] assms(1)
    by (simp add: object_fetch_def list_objects_rows flip: past_rows_def)
  have "list_all (\<lambda>s. common_prefix prefix delim (key s) = Some cp) ?batch"
    using common_prefix_same [OF assms(3,4)] by (auto simp: list_all_iff tail_rows_def dest: in_set_takeD)
  moreover have "LIST_BATCH \<le> length ?batch" "?batch \<noteq> []"
    using assms(1) by (auto simp: LIST_BATCH_def)
  ultimately show ?thesis
    using scan_group [of prefix delim cp ?batch marker its max_keys None] assms(2) fetch by (auto simp: stuck_def)
qed

text \<open>
  C35: A delimited listing does not always end. If at least 100 keys of the first common prefix of the
  listing go on with U+10FFFF, the cursor past the group stays before them: every query returns the
  same batch of rows that are already rolled up, and the request runs for ever.\<close>

theorem delimited_listing_never_ends:
  assumes "object_rows q = r # rs" "oq_start q = None" "0 < max_keys"
    and "starts_with (key r) (prefix_or_empty (oq_prefix q))"
    and "common_prefix (prefix_or_empty (oq_prefix q)) delim (key r) = Some cp"
    and "LIST_BATCH \<le> length (tail_rows cp (object_rows q))"
  shows "list_objects_delimited q delim max_keys = None"
proof -
  let ?p = "prefix_or_empty (oq_prefix q)"
  let ?batch = "take LIST_BATCH (r # rs)"
  have many: "LIST_BATCH \<le> length (filter (\<lambda>s. starts_with (key s) cp) (r # rs))"
    using assms(6) tail_rows_le [of cp "r # rs"] assms(1) by simp
  have all: "list_all (\<lambda>s. common_prefix ?p delim (key s) = Some cp) ?batch"
    using first_batch_of_group [OF _ assms(4,5) many] object_rows_sorted [of q] assms(1) by simp
  have len: "LIST_BATCH \<le> length (r # rs)"
    using many length_filter_le le_trans by blast
  have skip: "skip_group None [Prefix cp] cp"
    by (simp add: skip_group_def)
  have fetch: "object_fetch q Start = Inr ?batch"
    using assms(1,2) by (simp add: object_fetch_def list_objects_rows)
  have batch: "?batch = r # take 99 rs" "take 99 rs \<noteq> []"
    using len by (auto simp: LIST_BATCH_def take_Cons')
  have scan: "scan_batch ?p delim None max_keys ?batch [] None = (([Prefix cp], False), Some cp)"
    using all assms(3,5) scan_group [OF _ batch(2) skip, of ?p delim max_keys "Some cp"]
    by (simp add: batch(1) skip_group_def listed_of_def)
  have "list_loop ?p delim None max_keys (object_fetch q) (PastPrefix cp) [Prefix cp] = None"
    by (rule stuck_loops) (rule past_is_stuck [OF assms(6) skip assms(4,5)])
  moreover have "0 < LIST_BATCH"
    by (simp add: LIST_BATCH_def)
  ultimately show ?thesis
    using len assms(2) by (simp add: list_objects_delimited_def list_delimited_def list_loop.simps [of _ _ _ _ _ Start]
        fetch scan)
qed

subsection \<open>Sample buckets\<close>

definition sample_store :: "string list \<Rightarrow> object_db" where
  "sample_store ks = \<lparr>tables = empty_db\<lparr>db_buckets := [\<lparr>b_name = ''b'', b_created_at = 1, b_owner = ''root''\<rparr>]\<rparr>,
     objects = map (\<lambda>(i, k). \<lparr>rowid = i, obj = (sample_row 7 ''e'' ''x'')\<lparr>key := k\<rparr>, seq = i\<rparr>) (enumerate 1 ks),
     object_seq = length ks\<rparr>"

lemma sample_objects: "map obj (objects (sample_store ks)) = map (\<lambda>k. (sample_row 7 ''e'' ''x'')\<lparr>key := k\<rparr>) ks"
proof -
  have "map obj (objects (sample_store ks)) = map ((\<lambda>k. (sample_row 7 ''e'' ''x'')\<lparr>key := k\<rparr>) \<circ> snd) (enumerate 1 ks)"
    by (simp add: sample_store_def case_prod_unfold o_def)
  then show ?thesis
    by (simp only: map_map [symmetric] map_snd_enumerate)
qed

lemma sample_bucket: "head_bucket ''b'' (tables (sample_store ks)) \<noteq> None"
  by (simp add: sample_store_def head_bucket_def entity_map_Cons)

lemma filter_key_single:
  "distinct (map f xs) \<Longrightarrow> filter (\<lambda>x. P x \<and> f x = k) xs = [] \<or> (\<exists>x \<in> set xs. filter (\<lambda>x. P x \<and> f x = k) xs = [x])"
proof (induction xs)
  case (Cons x xs)
  show ?case
  proof (cases "f x = k")
    case True
    then have "filter (\<lambda>x. P x \<and> f x = k) xs = []"
      using Cons.prems by (auto simp: filter_empty_conv) (metis imageI)
    then show ?thesis
      by simp
  next
    case False
    with Cons show ?thesis
      by auto
  qed
qed simp

lemma sample_wf:
  assumes "distinct ks"
  shows "object_wf (sample_store ks)"
proof -
  have "map (key \<circ> obj) (objects (sample_store ks)) = ks"
    using arg_cong [OF sample_objects, of "map key" ks] by (simp add: o_def)
  with assms have keys: "distinct (map (key \<circ> obj) (objects (sample_store ks)))"
    by simp
  have live: "\<not> is_tombstone (obj x)" if "x \<in> set (objects (sample_store ks))" for x
    using that by (auto simp: sample_store_def sample_row_def)
  have single: "rows_of b k (sample_store ks) = [] \<or> (\<exists>x \<in> set (objects (sample_store ks)). rows_of b k (sample_store ks) = [x])" for b k
    using filter_key_single [OF keys, of "\<lambda>x. bucket (obj x) = b" k] by (simp add: rows_of_def of_key_def [abs_def])
  have "key_ok (rows_of b k (sample_store ks))" for b k
  proof (cases "rows_of b k (sample_store ks) = []")
    case False
    with single [of b k] obtain x where
      "x \<in> set (objects (sample_store ks))" "rows_of b k (sample_store ks) = [x]"
      by blast
    with live show ?thesis
      by (simp add: key_ok_def live_def)
  qed (simp add: key_ok_def)
  moreover have "base_ok (sample_store ks)"
  proof -
    have "rowid x \<le> length ks \<and> seq x \<le> length ks" if "x \<in> set (objects (sample_store ks))" for x
      using that by (auto simp: sample_store_def in_set_enumerate_eq)
    moreover have "map rowid (objects (sample_store ks)) = map fst (enumerate 1 ks)"
      by (simp add: sample_store_def case_prod_unfold o_def del: map_fst_enumerate)
    ultimately show ?thesis
      by (simp add: base_ok_def rowids_ok_def sample_store_def map_fst_enumerate)
  qed
  ultimately show ?thesis
    by (simp add: object_wf_def)
qed

definition sample_query :: "string list \<Rightarrow> object_query" where
  "sample_query ks = \<lparr>oq_db = sample_store ks, oq_bucket = ''b'', oq_prefix = None, oq_start = None\<rparr>"

lemma sample_rows:
  "object_rows (sample_query ks) = sort_key key (map (\<lambda>k. (sample_row 7 ''e'' ''x'')\<lparr>key := k\<rparr>) ks)"
proof -
  have "filter (\<lambda>r. bucket r = ''b'' \<and> is_latest r \<and> \<not> is_delete_marker r \<and> prefix_matches None (key r))
      (map (\<lambda>k. (sample_row 7 ''e'' ''x'')\<lparr>key := k\<rparr>) ks) = map (\<lambda>k. (sample_row 7 ''e'' ''x'')\<lparr>key := k\<rparr>) ks"
    by (auto simp: filter_id_conv sample_row_def prefix_matches_def)
  then show ?thesis
    by (simp add: object_rows_def sample_query_def sample_objects)
qed

lemma sample_listing_ok:
  assumes "distinct ks" "list_all is_utf8 ks" "length ks < LIST_BATCH"
  shows "listing_ok (sample_query ks)"
proof -
  have "is_utf8 (key (obj x))" if "x \<in> set (objects (sample_store ks))" for x
    using that assms(2) by (auto simp: sample_store_def list_all_iff in_set_enumerate_eq)
  moreover have "length (tail_rows cp (object_rows (sample_query ks))) < LIST_BATCH" for cp
    using assms(3) length_filter_le [of _ "object_rows (sample_query ks)"]
    by (auto simp: tail_rows_def sample_rows intro: le_less_trans)
  ultimately show ?thesis
    using sample_wf [OF assms(1)] by (simp add: listing_ok_def sample_query_def prefix_or_empty_def is_utf8_def)
qed

theorem list_v2_walk_complete_witness:
  "\<exists>requests. client_v2 requests (list_objects_v2 id Some id (sample_store [''b'', ''a/y'', ''a/x'']) ''b'')
     [(''delimiter'', ''/''), (''max-keys'', ''1'')] =
   Some ([record_to_list_entry ((sample_row 7 ''e'' ''x'')\<lparr>key := ''b''\<rparr>) False], [''a/''])"
proof -
  let ?ks = "[''b'', ''a/y'', ''a/x'']" and ?params = "[(''delimiter'', ''/''), (''max-keys'', ''1'')]"
  let ?row = "\<lambda>k. (sample_row 7 ''e'' ''x'')\<lparr>key := k\<rparr>"
  have params: "get_param ?params n = (if n = ''delimiter'' then Some ''/'' else if n = ''max-keys'' then Some ''1'' else None)" for n
    by (simp add: get_param_def)
  have rows: "object_rows (sample_query ?ks) = [?row ''a/x'', ?row ''a/y'', ?row ''b'']"
    by (simp add: sample_rows less_char_def)
  have "listing_ok (sample_query ?ks)"
    by (rule sample_listing_ok) (simp_all add: is_utf8_ascii LIST_BATCH_def)
  moreover have "max_keys_param ?params = Some 1"
    by (simp add: max_keys_param_def params parse_unsigned_def is_ascii_digit_def digits_value_def)
  moreover have delim: "delimiter_param ?params = Some ''/''"
    by (simp add: delimiter_param_def params)
  moreover have "is_utf8 ''/''"
    by (simp add: is_utf8_ascii)
  ultimately have "\<exists>requests. client_v2 requests (list_objects_v2 id Some id (sample_store ?ks) ''b'') ?params =
      Some (split_listed (naive_listing (sample_query ?ks) (delimiter_param ?params)) (get_param ?params ''fetch-owner'' = Some ''true''))"
    using sample_bucket by (intro list_v2_walk_complete [where enc = id and dec = Some and mk = 1])
      (auto simp: params sample_query_def)
  moreover have "naive_listing (sample_query ?ks) (Some ''/'') = [Prefix ''a/'', Record (?row ''b'')]"
  proof -
    have "prefix_or_empty (oq_prefix (sample_query ?ks)) = []"
      by (simp add: sample_query_def prefix_or_empty_def)
    then show ?thesis
      by (simp add: naive_listing_def rows listed_of_def common_prefix_def starts_with_def)
  qed
  ultimately show ?thesis
    by (simp add: delim params)
qed

text \<open>A bucket with 100 keys under \<^verbatim>\<open>a/\<close> that go on with U+10FFFF.\<close>

definition endless_keys :: "string list" where
  "endless_keys = map (\<lambda>i. past_prefix ''a/'' @ [char_of i]) [0 ..< 100]"

theorem delimited_listing_never_ends_witness:
  "list_objects_delimited (sample_query endless_keys) ''/'' 1000 = None"
proof -
  let ?q = "sample_query endless_keys"
  have rows: "past_prefix ''a/'' < key r \<and> common_prefix [] ''/'' (key r) = Some ''a/'' \<and> starts_with (key r) ''a/''"
    if r: "r \<in> set (object_rows ?q)" for r
  proof -
    obtain c where "key r = past_prefix ''a/'' @ [c]"
      using r by (auto simp: sample_rows endless_keys_def)
    then show ?thesis
      using append_less_append [of "past_prefix ''a/''" "[]" "[c]"]
      by (simp add: common_prefix_def starts_with_def past_prefix_def)
  qed
  have "tail_rows ''a/'' (object_rows ?q) = object_rows ?q"
    using rows by (simp add: tail_rows_def filter_id_conv)
  then have many: "LIST_BATCH \<le> length (tail_rows ''a/'' (object_rows ?q))"
    by (simp add: sample_rows endless_keys_def LIST_BATCH_def)
  then have "object_rows ?q \<noteq> []"
    by (auto simp: tail_rows_def LIST_BATCH_def)
  then obtain r rs where r: "object_rows ?q = r # rs"
    by (cases "object_rows ?q") auto
  show ?thesis
    using rows [of r] r by (intro delimited_listing_never_ends [OF r _ _ _ _ many])
      (simp_all add: sample_query_def prefix_or_empty_def starts_with_def)
qed

end
