(* ===== verification/Bucket_Name.thy ===== *)
theory Bucket_Name
  imports Arca_Prelude S3_Error
begin

section \<open>Bucket names (arca-core/src/s3/bucket\_name.rs)\<close>

text \<open>
  The check of a new bucket's name. The theorem says that its conditions on single characters and on
  neighbouring characters are those of a host name: every label between dots is non-empty, begins and
  ends with a letter or digit, and holds only lowercase letters, digits and hyphens.
\<close>

fun contains :: "string \<Rightarrow> string \<Rightarrow> bool" where
  "contains [] p = (p = [])"
| "contains (c # s) p = (starts_with (c # s) p \<or> contains s p)"

definition alnum :: "char \<Rightarrow> bool" where
  "alnum c \<longleftrightarrow> is_ascii_lowercase c \<or> is_ascii_digit c"

definition looks_like_ip :: "string \<Rightarrow> bool" where
  "looks_like_ip name =
     (let ps = split_on CHR ''.'' name in
      length ps = 4 \<and> list_all (\<lambda>p. p \<noteq> [] \<and> length p \<le> 3 \<and> list_all is_ascii_digit p) ps)"

definition validate_bucket_name :: "string \<Rightarrow> S3ErrorCode option" where
  "validate_bucket_name name =
     (if length name < 3 \<or> 63 < length name then Some InvalidBucketName
      else if \<not> alnum (hd name) then Some InvalidBucketName
      else if \<not> alnum (last name) then Some InvalidBucketName
      else if \<not> list_all (\<lambda>c. alnum c \<or> c = CHR ''-'' \<or> c = CHR ''.'') name then Some InvalidBucketName
      else if contains name ''..'' \<or> contains name ''.-'' \<or> contains name ''-.'' then Some InvalidBucketName
      else if looks_like_ip name then Some InvalidBucketName
      else if starts_with name ''xn--'' then Some InvalidBucketName
      else if ends_with name ''-s3alias'' \<or> ends_with name ''--ol-s3'' then Some InvalidBucketName
      else None)"

subsection \<open>Labels\<close>

definition label_ok :: "string \<Rightarrow> bool" where
  "label_ok l \<longleftrightarrow> l \<noteq> [] \<and> alnum (hd l) \<and> alnum (last l) \<and> list_all (\<lambda>c. alnum c \<or> c = CHR ''-'') l"

definition apart :: "char \<Rightarrow> char \<Rightarrow> bool" where
  "apart x y \<longleftrightarrow> \<not> (x = CHR ''.'' \<and> (y = CHR ''.'' \<or> y = CHR ''-'') \<or> x = CHR ''-'' \<and> y = CHR ''.'')"

lemma contains_apart:
  "\<not> contains s ''..'' \<and> \<not> contains s ''.-'' \<and> \<not> contains s ''-.'' \<longleftrightarrow> successively apart s"
proof (induction s rule: induct_list012)
  case (3 x y s)
  then show ?case by (auto simp: starts_with_def apart_def)
qed (auto simp: starts_with_def)

lemma not_alnum_sep [simp]: "\<not> alnum CHR ''.''" "\<not> alnum CHR ''-''"
  by (simp_all add: alnum_def is_ascii_lowercase_def is_ascii_digit_def)

text \<open>The conditions of the code on the characters of a name.\<close>

definition host :: "string \<Rightarrow> bool" where
  "host s \<longleftrightarrow> s \<noteq> [] \<and> alnum (hd s) \<and> alnum (last s) \<and>
     list_all (\<lambda>c. alnum c \<or> c = CHR ''-'' \<or> c = CHR ''.'') s \<and> successively apart s"

lemma successively_no_dot: "CHR ''.'' \<notin> set s \<Longrightarrow> successively apart s"
  by (induction s rule: induct_list012) (auto simp: apart_def)

lemma host_no_dot: "CHR ''.'' \<notin> set s \<Longrightarrow> host s \<longleftrightarrow> label_ok s"
  by (auto simp: host_def label_ok_def list_all_iff successively_no_dot)

lemma host_dot:
  assumes a: "CHR ''.'' \<notin> set a"
  shows "host (a @ CHR ''.'' # t) \<longleftrightarrow> label_ok a \<and> host t"
proof (cases "a = [] \<or> t = []")
  case True
  then show ?thesis by (auto simp: host_def label_ok_def)
next
  case False
  have last: "alnum (last a) \<longleftrightarrow> (alnum (last a) \<or> last a = CHR ''-'') \<and> apart (last a) CHR ''.''"
    using False a by (auto simp: apart_def)
  have hd: "alnum (hd t) \<longleftrightarrow> (alnum (hd t) \<or> hd t = CHR ''-'' \<or> hd t = CHR ''.'') \<and> apart CHR ''.'' (hd t)"
    using False by (auto simp: apart_def)
  have "alnum (last a) \<or> last a = CHR ''-''" if "\<forall>c \<in> set a \<union> set t. alnum c \<or> c = CHR ''-'' \<or> c = CHR ''.''"
    using that False a last_in_set [of a] by (metis UnI1)
  then show ?thesis using False a last hd
    by (auto simp: host_def label_ok_def successively_append_iff successively_Cons successively_no_dot list_all_iff)
qed

lemma host_labels: "host s \<longleftrightarrow> list_all label_ok (split_on CHR ''.'' s)"
proof (induction s rule: length_induct)
  case (1 s)
  show ?case
  proof (cases "CHR ''.'' \<in> set s")
    case True
    then obtain a t where s: "s = a @ CHR ''.'' # t" "CHR ''.'' \<notin> set a" by (metis split_list_first)
    then show ?thesis using 1 by (simp add: host_dot split_on_append)
  next
    case False
    then show ?thesis by (simp add: host_no_dot split_on_no_sep)
  qed
qed

text \<open>
  C40: the bucket name check accepts exactly the host-name-like names: 3 to 63 bytes, every label
  between dots well formed, not four groups of at most three digits, and without the reserved prefix
  and suffixes; every refusal is \<^verbatim>\<open>InvalidBucketName\<close>.
\<close>

theorem validate_bucket_name_labels:
  "validate_bucket_name name =
     (if 3 \<le> length name \<and> length name \<le> 63 \<and> list_all label_ok (split_on CHR ''.'' name) \<and>
         \<not> looks_like_ip name \<and> \<not> starts_with name ''xn--'' \<and>
         \<not> ends_with name ''-s3alias'' \<and> \<not> ends_with name ''--ol-s3''
      then None else Some InvalidBucketName)"
proof (cases "3 \<le> length name \<and> length name \<le> 63")
  case True
  then have "name \<noteq> []" by auto
  then show ?thesis using True contains_apart [of name]
    unfolding host_labels [symmetric] host_def validate_bucket_name_def by auto
next
  case False
  then show ?thesis by (auto simp: validate_bucket_name_def)
qed

end
