(* ===== verification/Object_Lock.thy ===== *)
theory Object_Lock
  imports Object_Store_Invariant Bucket_Name
begin

section \<open>Object Lock (arca-core/src/s3/object\_lock.rs, arca-proto/src/handlers)\<close>

text \<open>
  Retention and legal holds: the bucket configuration, what PutObject stores, the checks that guard a
  permanent delete, and the requests that change a lock. A request header map is an association list
  with lower-case names; \<open>rfc3339\<close> is the date parser of the chrono crate, \<open>json\<close> the decoder of a
  stored configuration, and \<open>limit\<close> the last instant chrono can represent. \<open>now\<close> is the clock of the
  request.
\<close>

record DefaultRetention =
  dr_mode :: string
  dr_days :: "nat option"
  dr_years :: "nat option"

record ObjectLockConfiguration =
  lock_enabled :: bool
  default_retention :: "DefaultRetention option"

definition validate_retention_mode :: "string \<Rightarrow> S3ErrorCode option" where
  "validate_retention_mode mode =
     (if mode = ''GOVERNANCE'' \<or> mode = ''COMPLIANCE'' then None else Some MalformedXML)"

definition validate_retention_period :: "nat option \<Rightarrow> nat option \<Rightarrow> S3ErrorCode option" where
  "validate_retention_period days years =
     (case (days, years) of
        (Some d, None) \<Rightarrow> if d = 0 then Some InvalidRetentionPeriod else None
      | (None, Some y) \<Rightarrow> if y = 0 then Some InvalidRetentionPeriod else None
      | (Some _, Some _) \<Rightarrow> Some MalformedXML
      | (None, None) \<Rightarrow> Some MalformedXML)"

text \<open>The fields of the XML of an ObjectLockConfiguration, as the XML library delivers them.\<close>

record lock_xml =
  lx_enabled :: "string option"
  lx_rule :: "(string option \<times> nat option \<times> nat option) option option"

definition parse_object_lock_configuration :: "lock_xml \<Rightarrow> S3ErrorCode + ObjectLockConfiguration" where
  "parse_object_lock_configuration x =
     (if lx_enabled x \<noteq> None \<and> lx_enabled x \<noteq> Some ''Enabled'' then Inl MalformedXML
      else (case lx_rule x of
         Some (Some (mode, days, years)) \<Rightarrow>
           (case mode of
              None \<Rightarrow> Inl MalformedXML
            | Some md \<Rightarrow>
                (case validate_retention_mode md of
                   Some e \<Rightarrow> Inl e
                 | None \<Rightarrow>
                     (case validate_retention_period days years of
                        Some e \<Rightarrow> Inl e
                      | None \<Rightarrow> Inr \<lparr>lock_enabled = True,
                          default_retention = Some \<lparr>dr_mode = md, dr_days = days, dr_years = years\<rparr>\<rparr>)))
       | _ \<Rightarrow> Inr \<lparr>lock_enabled = True, default_retention = None\<rparr>))"

definition day :: timestamp where
  "day = 86400 * 1000000000"

text \<open>Adding a duration to a date panics when the result cannot be represented.\<close>

definition compute_retain_until :: "timestamp \<Rightarrow> DefaultRetention \<Rightarrow> timestamp \<Rightarrow> timestamp option" where
  "compute_retain_until limit dr now =
     (let t = (case dr_days dr of
           Some d \<Rightarrow> now + int d * day
         | None \<Rightarrow> (case dr_years dr of Some y \<Rightarrow> now + int y * 365 * day | None \<Rightarrow> now))
      in if t \<le> limit then Some t else None)"

subsection \<open>The lock of a new object\<close>

type_synonym headers = "(string \<times> string) list"

text \<open>\<^verbatim>\<open>HeaderMap::get\<close> followed by \<^verbatim>\<open>to_str\<close>, which refuses values with other than visible ASCII and tabs.\<close>

definition is_visible :: "char \<Rightarrow> bool" where
  "is_visible c \<longleftrightarrow> of_char c = (9::nat) \<or> 32 \<le> (of_char c :: nat) \<and> of_char c < (127::nat)"

definition header :: "headers \<Rightarrow> string \<Rightarrow> string option" where
  "header hs name =
     (case map_of hs name of Some v \<Rightarrow> if list_all is_visible v then Some v else None | None \<Rightarrow> None)"

definition resolve_object_lock_headers ::
  "(string \<Rightarrow> timestamp option) \<Rightarrow> (string \<Rightarrow> ObjectLockConfiguration option) \<Rightarrow> timestamp \<Rightarrow> headers \<Rightarrow> object_db
     \<Rightarrow> string \<Rightarrow> timestamp \<Rightarrow> (string option \<times> timestamp option \<times> string option) option" where
  "resolve_object_lock_headers rfc3339 json limit hs db b now =
     (let header_mode = header hs ''x-amz-object-lock-mode'';
          header_until = Option.bind (header hs ''x-amz-object-lock-retain-until-date'') rfc3339;
          header_hold = (if header hs ''x-amz-object-lock-legal-hold-status'' = Some ''ON'' then Some ''ON'' else None)
      in if header_mode \<noteq> None \<or> header_until \<noteq> None then Some (header_mode, header_until, header_hold)
         else (case Option.bind (get_bucket_config b ''object_lock'' (tables db)) json of
            Some config \<Rightarrow>
              (case default_retention config of
                 Some dr \<Rightarrow> map_option (\<lambda>until. (Some (dr_mode dr), Some until, header_hold)) (compute_retain_until limit dr now)
               | None \<Rightarrow> Some (None, None, header_hold))
          | None \<Rightarrow> Some (None, None, header_hold)))"

subsection \<open>The checks before a permanent delete\<close>

definition bypass_governance :: "headers \<Rightarrow> bool" where
  "bypass_governance hs =
     (case header hs ''x-amz-bypass-governance-retention'' of Some v \<Rightarrow> eq_ignore_ascii_case v ''true'' | None \<Rightarrow> False)"

definition check_object_lock_allows_delete :: "timestamp \<Rightarrow> headers \<Rightarrow> ObjectRecord \<Rightarrow> S3ErrorCode option" where
  "check_object_lock_allows_delete now hs r =
     (if legal_hold_status r = Some ''ON'' then Some AccessDenied
      else (case (retention_mode r, retain_until_date r) of
         (Some mode, Some until) \<Rightarrow>
           if now < until then
             if mode = ''COMPLIANCE'' then Some AccessDenied
             else if mode = ''GOVERNANCE'' \<and> \<not> bypass_governance hs then Some AccessDenied
             else None
           else None
       | _ \<Rightarrow> None))"

definition is_object_locked :: "timestamp \<Rightarrow> ObjectRecord \<Rightarrow> bool" where
  "is_object_locked now r \<longleftrightarrow> legal_hold_status r = Some ''ON'' \<or>
     (case (retention_mode r, retain_until_date r) of (Some _, Some until) \<Rightarrow> now < until | _ \<Rightarrow> False)"

definition check_object_lock_allows_delete_batch :: "timestamp \<Rightarrow> ObjectRecord \<Rightarrow> S3ErrorCode option" where
  "check_object_lock_allows_delete_batch now r =
     (if legal_hold_status r = Some ''ON'' then Some AccessDenied
      else (case (retention_mode r, retain_until_date r) of
         (Some _, Some until) \<Rightarrow> if now < until then Some AccessDenied else None
       | _ \<Rightarrow> None))"

definition build_delete_precondition :: "(string \<Rightarrow> timestamp option) \<Rightarrow> headers \<Rightarrow> DeletePrecondition" where
  "build_delete_precondition httpdate hs =
     \<lparr>d_if_match = header hs ''if-match'',
      d_if_match_last_modified = Option.bind (header hs ''x-amz-if-match-last-modified-time'') httpdate,
      d_if_match_size = Option.bind (header hs ''x-amz-if-match-size'') (parse_unsigned 64),
      d_if_match_blob_id = None\<rparr>"

subsection \<open>Deleting an object\<close>

definition cas_code :: "CasError \<Rightarrow> S3ErrorCode" where
  "cas_code e = (case e of Precondition code \<Rightarrow> code | Store _ \<Rightarrow> InternalError)"

text \<open>
  The answer to a request, the blobs it deletes, and the store it leaves. \<open>lookup\<close> is the answer of
  the metadata store to the question for the version: an error is \<^const>\<open>Inl\<close>.
\<close>

type_synonym 'a answer = "(S3ErrorCode + 'a) \<times> string list \<times> object_db"

definition blobs_of :: "ObjectRecord option \<Rightarrow> string list" where
  "blobs_of old = (case old of Some r \<Rightarrow> if is_delete_marker r then [] else [blob_id r] | None \<Rightarrow> [])"

definition delete_object ::
  "(string \<Rightarrow> timestamp option) \<Rightarrow> string \<Rightarrow> timestamp \<Rightarrow> headers \<Rightarrow> string \<Rightarrow> bool \<Rightarrow> string \<Rightarrow> string \<Rightarrow> string option
     \<Rightarrow> store_error + ObjectRecord option \<Rightarrow> object_db \<Rightarrow> ObjectRecord option answer" where
  "delete_object httpdate vid now hs requester cluster b k vsn lookup db =
     (let pre = build_delete_precondition httpdate hs in
      case head_bucket b (tables db) of
        None \<Rightarrow> (Inl NoSuchBucket, [], db)
      | Some _ \<Rightarrow>
          (case vsn of
             Some v \<Rightarrow>
               (case (case lookup of
                   Inr (Some r) \<Rightarrow>
                     if is_delete_marker r then None
                     else (case check_object_lock_allows_delete now hs r of
                        Some code \<Rightarrow> Some code
                      | None \<Rightarrow> evaluate_delete pre (Some r))
                 | _ \<Rightarrow> None) of
                  Some code \<Rightarrow> (Inl code, [], db)
                | None \<Rightarrow>
                    (case delete_object_version_if now b k v pre cluster db of
                       Inl e \<Rightarrow> (Inl (cas_code e), [], db)
                     | Inr (old, db') \<Rightarrow> (Inr old, blobs_of old, db')))
           | None \<Rightarrow>
               (case (if delete_pre_is_empty pre then None else evaluate_delete pre (get_latest_object b k db)) of
                  Some code \<Rightarrow> (Inl code, [], db)
                | None \<Rightarrow>
                    (case delete_object_if vid now b k pre requester cluster db of
                       Inl e \<Rightarrow> (Inl (cas_code e), [], db)
                     | Inr (old, db') \<Rightarrow> (Inr old, blobs_of old, db')))))"

text \<open>
  DeleteObjects checks every entry first and then deletes those that passed in one batch. An entry
  comes with the id and the instant its delete draws; \<open>date\<close> reads RFC 2822 or RFC 3339.
\<close>

record DeleteObject =
  do_key :: string
  do_version_id :: "string option"
  do_etag :: "string option"
  do_last_modified_time :: "string option"
  do_size :: "string option"

definition build_batch_delete_precondition ::
  "(string \<Rightarrow> timestamp option) \<Rightarrow> DeleteObject \<Rightarrow> DeletePrecondition option" where
  "build_batch_delete_precondition date e =
     (let lm = map_option date (do_last_modified_time e); sz = map_option (parse_unsigned 64) (do_size e) in
      if lm = Some None \<or> sz = Some None then None
      else Some \<lparr>d_if_match = do_etag e, d_if_match_last_modified = Option.bind lm id,
                 d_if_match_size = Option.bind sz id, d_if_match_blob_id = None\<rparr>)"

definition batch_check ::
  "(string \<Rightarrow> timestamp option) \<Rightarrow> timestamp \<Rightarrow> (string \<Rightarrow> string \<Rightarrow> store_error + ObjectRecord option) \<Rightarrow> DeleteObject
     \<Rightarrow> S3ErrorCode + BatchDeleteEntry" where
  "batch_check date now lookup e =
     (case build_batch_delete_precondition date e of
        None \<Rightarrow> Inl PreconditionFailed
      | Some pre \<Rightarrow>
          (case (case do_version_id e of
              Some v \<Rightarrow>
                (case lookup (do_key e) v of
                   Inr (Some r) \<Rightarrow> if is_delete_marker r then None else check_object_lock_allows_delete_batch now r
                 | _ \<Rightarrow> None)
            | None \<Rightarrow> None) of
             Some code \<Rightarrow> Inl code
           | None \<Rightarrow> Inr \<lparr>be_key = do_key e, be_version_id = do_version_id e, be_pre = pre\<rparr>))"

type_synonym checked_entry = "(S3ErrorCode + BatchDeleteEntry) \<times> string \<times> timestamp"

fun batch_of :: "checked_entry list \<Rightarrow> (BatchDeleteEntry \<times> string \<times> timestamp) list" where
  "batch_of [] = []"
| "batch_of ((Inl code, d) # cs) = batch_of cs"
| "batch_of ((Inr e, d) # cs) = (e, d) # batch_of cs"

definition batch_result :: "CasError + ObjectRecord option \<Rightarrow> S3ErrorCode + ObjectRecord option" where
  "batch_result res =
     (case res of
        Inr old \<Rightarrow> Inr old
      | Inl e \<Rightarrow> Inl (if e = Precondition PreconditionFailed then PreconditionFailed else InternalError))"

text \<open>The results in the order of the request; the batch has one for each entry that passed.\<close>

fun merge_results ::
  "checked_entry list \<Rightarrow> (CasError + ObjectRecord option) list \<Rightarrow> (S3ErrorCode + ObjectRecord option) list" where
  "merge_results [] rs = []"
| "merge_results ((Inl code, d) # cs) rs = Inl code # merge_results cs rs"
| "merge_results ((Inr e, d) # cs) (r # rs) = batch_result r # merge_results cs rs"
| "merge_results ((Inr e, d) # cs) [] = []"

definition orphaned_blobs :: "(S3ErrorCode + ObjectRecord option) list \<Rightarrow> string list" where
  "orphaned_blobs rs =
     concat (map (\<lambda>r. case r of Inr old \<Rightarrow> filter (\<lambda>i. i \<noteq> []) (blobs_of old) | Inl _ \<Rightarrow> []) rs)"

definition delete_objects ::
  "(string \<Rightarrow> timestamp option) \<Rightarrow> timestamp \<Rightarrow> string \<Rightarrow> bool \<Rightarrow> string \<Rightarrow> (DeleteObject \<times> string \<times> timestamp) list
     \<Rightarrow> (string \<Rightarrow> string \<Rightarrow> store_error + ObjectRecord option) \<Rightarrow> object_db
     \<Rightarrow> (S3ErrorCode + ObjectRecord option) list answer" where
  "delete_objects date now requester cluster b entries lookup db =
     (case head_bucket b (tables db) of
        None \<Rightarrow> (Inl NoSuchBucket, [], db)
      | Some _ \<Rightarrow>
          if 1000 < length entries then (Inl MalformedXML, [], db)
          else
            (let checked = map (apfst (batch_check date now lookup)) entries in
             case delete_objects_if b requester cluster (batch_of checked) db of
               (rs, db') \<Rightarrow> let res = merge_results checked rs in (Inr res, orphaned_blobs res, db')))"

subsection \<open>Expiration by the lifecycle worker\<close>

definition default_delete_pre :: DeletePrecondition where
  "default_delete_pre =
     \<lparr>d_if_match = None, d_if_match_last_modified = None, d_if_match_size = None, d_if_match_blob_id = None\<rparr>"

definition expire_object ::
  "string \<Rightarrow> timestamp \<Rightarrow> bool \<Rightarrow> bool \<Rightarrow> string \<Rightarrow> ObjectRecord \<Rightarrow> object_db \<Rightarrow> string list \<times> object_db" where
  "expire_object vid now cluster is_versioned b r db =
     (case delete_object_if vid now b (key r) default_delete_pre ''root'' cluster db of
        Inl e \<Rightarrow> ([], db)
      | Inr (old, db') \<Rightarrow> (if is_versioned then [] else filter (\<lambda>i. i \<noteq> []) (blobs_of old), db'))"

definition expire_noncurrent_version ::
  "timestamp \<Rightarrow> bool \<Rightarrow> string \<Rightarrow> ObjectRecord \<Rightarrow> object_db \<Rightarrow> string list \<times> object_db" where
  "expire_noncurrent_version now cluster b r db =
     (case version_id r of
        None \<Rightarrow> ([], db)
      | Some v \<Rightarrow>
          if is_object_locked now r then ([], db)
          else (case delete_object_version_if now b (key r) v default_delete_pre cluster db of
             Inl e \<Rightarrow> ([], db)
           | Inr (old, db') \<Rightarrow>
               (case old of Some x \<Rightarrow> if blob_id x = [] then [] else [blob_id x] | None \<Rightarrow> [], db')))"

subsection \<open>Changing a lock\<close>

text \<open>The fields of the XML of a Retention or LegalHold body; \<^const>\<open>None\<close> is a body that does not parse.\<close>

definition parse_retention ::
  "(string \<Rightarrow> timestamp option) \<Rightarrow> (string option \<times> string option) option \<Rightarrow> S3ErrorCode + (string \<times> timestamp)" where
  "parse_retention rfc3339 xml =
     (case xml of
        None \<Rightarrow> Inl MalformedXML
      | Some (None, _) \<Rightarrow> Inl MalformedXML
      | Some (Some mode, date) \<Rightarrow>
          (case validate_retention_mode mode of
             Some code \<Rightarrow> Inl code
           | None \<Rightarrow>
               (case date of
                  None \<Rightarrow> Inl MalformedXML
                | Some s \<Rightarrow> (case rfc3339 s of None \<Rightarrow> Inl InvalidArgument | Some t \<Rightarrow> Inr (mode, t)))))"

definition parse_legal_hold :: "string option option \<Rightarrow> S3ErrorCode + string" where
  "parse_legal_hold xml =
     (case xml of
        Some (Some status) \<Rightarrow> if status = ''ON'' \<or> status = ''OFF'' then Inr status else Inl MalformedXML
      | _ \<Rightarrow> Inl MalformedXML)"

text \<open>Whether the current retention refuses the new one.\<close>

definition retention_refuses :: "timestamp \<Rightarrow> headers \<Rightarrow> ObjectRecord \<Rightarrow> string \<Rightarrow> timestamp \<Rightarrow> bool" where
  "retention_refuses now hs r new_mode new_until \<longleftrightarrow>
     (case (retention_mode r, retain_until_date r) of
        (Some current_mode, Some current_until) \<Rightarrow> now < current_until \<and>
          (if current_mode = ''COMPLIANCE'' then new_mode \<noteq> ''COMPLIANCE'' \<or> new_until < current_until
           else current_mode = ''GOVERNANCE'' \<and> \<not> bypass_governance hs)
      | _ \<Rightarrow> False)"

definition read_version :: "string \<Rightarrow> string \<Rightarrow> string option \<Rightarrow> object_db \<Rightarrow> ObjectRecord option" where
  "read_version b k vsn db = (case vsn of Some v \<Rightarrow> get_object_version b k v db | None \<Rightarrow> get_object b k db)"

text \<open>The handler up to the decision, and the statement it then runs: they are two transactions.\<close>

definition check_retention ::
  "(string \<Rightarrow> timestamp option) \<Rightarrow> timestamp \<Rightarrow> headers \<Rightarrow> string \<Rightarrow> string \<Rightarrow> string option
     \<Rightarrow> (string option \<times> string option) option \<Rightarrow> object_db \<Rightarrow> S3ErrorCode + (string \<times> timestamp)" where
  "check_retention rfc3339 now hs b k vsn xml db =
     (case head_bucket b (tables db) of
        None \<Rightarrow> Inl NoSuchBucket
      | Some _ \<Rightarrow>
          (case get_bucket_config b ''object_lock'' (tables db) of
             None \<Rightarrow> Inl InvalidRequest
           | Some _ \<Rightarrow>
               (case parse_retention rfc3339 xml of
                  Inl code \<Rightarrow> Inl code
                | Inr (new_mode, new_until) \<Rightarrow>
                    (case read_version b k vsn db of
                       None \<Rightarrow> Inl NoSuchKey
                     | Some r \<Rightarrow>
                         if retention_refuses now hs r new_mode new_until then Inl AccessDenied
                         else Inr (new_mode, new_until)))))"

definition store_retention ::
  "timestamp \<Rightarrow> string \<Rightarrow> string \<Rightarrow> string option \<Rightarrow> string \<times> timestamp \<Rightarrow> object_db \<Rightarrow> unit answer" where
  "store_retention now b k vsn new db =
     (case set_object_retention now b k vsn (Some (fst new)) (Some (snd new)) db of
        (found, db') \<Rightarrow> (if found then Inr () else Inl NoSuchKey, [], db'))"

definition put_object_retention ::
  "(string \<Rightarrow> timestamp option) \<Rightarrow> timestamp \<Rightarrow> headers \<Rightarrow> string \<Rightarrow> string \<Rightarrow> string option
     \<Rightarrow> (string option \<times> string option) option \<Rightarrow> object_db \<Rightarrow> unit answer" where
  "put_object_retention rfc3339 now hs b k vsn xml db =
     (case check_retention rfc3339 now hs b k vsn xml db of
        Inl code \<Rightarrow> (Inl code, [], db)
      | Inr new \<Rightarrow> store_retention now b k vsn new db)"

definition put_object_legal_hold ::
  "timestamp \<Rightarrow> string \<Rightarrow> string \<Rightarrow> string option \<Rightarrow> string option option \<Rightarrow> object_db \<Rightarrow> unit answer" where
  "put_object_legal_hold now b k vsn xml db =
     (case head_bucket b (tables db) of
        None \<Rightarrow> (Inl NoSuchBucket, [], db)
      | Some _ \<Rightarrow>
          (case get_bucket_config b ''object_lock'' (tables db) of
             None \<Rightarrow> (Inl InvalidRequest, [], db)
           | Some _ \<Rightarrow>
               (case parse_legal_hold xml of
                  Inl code \<Rightarrow> (Inl code, [], db)
                | Inr status \<Rightarrow>
                    (case set_object_legal_hold now b k vsn (if status = ''ON'' then Some ''ON'' else None) db of
                       (found, db') \<Rightarrow> (if found then Inr () else Inl NoSuchKey, [], db')))))"

subsection \<open>Storing an object\<close>

definition new_record ::
  "headers \<Rightarrow> timestamp \<Rightarrow> string option \<times> timestamp option \<times> string option \<Rightarrow> ObjectRecord \<Rightarrow> ObjectRecord" where
  "new_record hs now lock r =
     (case lock of (mode, until, hold) \<Rightarrow>
        r\<lparr>last_modified := now, version_id := None, is_latest := True, is_delete_marker := False, is_tombstone := False,
          retention_mode := mode, retain_until_date := until, legal_hold_status := hold,
          storage_class := (case header hs ''x-amz-storage-class'' of Some c \<Rightarrow> c | None \<Rightarrow> ''STANDARD''),
          parts := None, replication_status := None, lock_updated_at := None, content_updated_at := None\<rparr>)"

definition write_precondition :: "headers \<Rightarrow> WritePrecondition" where
  "write_precondition hs = \<lparr>w_if_match = header hs ''if-match'', w_if_none_match = header hs ''if-none-match''\<rparr>"

text \<open>
  The metadata half of PutObject: \<open>r\<close> holds what is known of the blob already written. \<^const>\<open>None\<close> is a
  panic of the date arithmetic.
\<close>

definition put_object ::
  "(string \<Rightarrow> timestamp option) \<Rightarrow> (string \<Rightarrow> ObjectLockConfiguration option) \<Rightarrow> timestamp \<Rightarrow> string \<Rightarrow> timestamp
     \<Rightarrow> headers \<Rightarrow> ObjectRecord \<Rightarrow> (string \<times> string) list \<Rightarrow> object_db \<Rightarrow> string option answer option" where
  "put_object rfc3339 json limit vid now hs r tags db =
     (case resolve_object_lock_headers rfc3339 json limit hs db (bucket r) now of
        None \<Rightarrow> None
      | Some lock \<Rightarrow>
          Some (case put_object_tagged_if vid (new_record hs now lock r) (write_precondition hs) tags db of
             Inl e \<Rightarrow> (Inl (cas_code e),
               if cas_code e = PreconditionFailed \<or> cas_code e = NoSuchKey then [blob_id r] else [], db)
           | Inr ((old, v), db') \<Rightarrow> (Inr v, case old of Some x \<Rightarrow> [blob_id x] | None \<Rightarrow> [], db')))"

subsection \<open>Bucket requests\<close>

definition set_config :: "timestamp \<Rightarrow> string \<Rightarrow> string \<Rightarrow> string \<Rightarrow> object_db \<Rightarrow> object_db" where
  "set_config now b name v db = db\<lparr>tables := set_bucket_config now b name v (tables db)\<rparr>"

definition put_bucket_versioning :: "timestamp \<Rightarrow> string \<Rightarrow> string option \<Rightarrow> object_db \<Rightarrow> unit answer" where
  "put_bucket_versioning now b status db =
     (case head_bucket b (tables db) of
        None \<Rightarrow> (Inl NoSuchBucket, [], db)
      | Some _ \<Rightarrow>
          (case status of
             None \<Rightarrow> (Inl MalformedXML, [], db)
           | Some s \<Rightarrow>
               if s \<noteq> ''Enabled'' \<and> s \<noteq> ''Suspended'' then (Inl MalformedXML, [], db)
               else if s = ''Suspended'' \<and> get_bucket_config b ''object_lock'' (tables db) \<noteq> None
               then (Inl InvalidBucketState, [], db)
               else (Inr (), [], set_config now b ''versioning'' s db)))"

definition put_object_lock_configuration ::
  "(ObjectLockConfiguration \<Rightarrow> string) \<Rightarrow> timestamp \<Rightarrow> string \<Rightarrow> lock_xml option \<Rightarrow> object_db \<Rightarrow> unit answer" where
  "put_object_lock_configuration ser now b xml db =
     (case head_bucket b (tables db) of
        None \<Rightarrow> (Inl NoSuchBucket, [], db)
      | Some _ \<Rightarrow>
          if get_bucket_config b ''object_lock'' (tables db) = None \<and> \<not> bucket_is_empty b db
          then (Inl InvalidBucketState, [], db)
          else (case xml of
             None \<Rightarrow> (Inl MalformedXML, [], db)
           | Some x \<Rightarrow>
               (case parse_object_lock_configuration x of
                  Inl code \<Rightarrow> (Inl code, [], db)
                | Inr config \<Rightarrow>
                    (let db1 = (if get_bucket_config b ''versioning'' (tables db) \<noteq> Some ''Enabled''
                                then set_config now b ''versioning'' ''Enabled'' db else db)
                     in (Inr (), [], set_config now b ''object_lock'' (ser config) db1)))))"

definition create_bucket ::
  "(ObjectLockConfiguration \<Rightarrow> string) \<Rightarrow> timestamp \<Rightarrow> headers \<Rightarrow> string \<Rightarrow> string \<Rightarrow> object_db \<Rightarrow> unit answer" where
  "create_bucket ser now hs b own db =
     (case validate_bucket_name b of
        Some code \<Rightarrow> (Inl code, [], db)
      | None \<Rightarrow>
          (case create_bucket_owned now b own (tables db) of
             Inl e \<Rightarrow> (if e = store_error.BucketAlreadyOwnedByYou then Inr () else Inl InternalError, [], db)
           | Inr ct \<Rightarrow>
               (let db1 = db\<lparr>tables := ct\<rparr>;
                    lock = (case header hs ''x-amz-bucket-object-lock-enabled'' of
                       Some v \<Rightarrow> eq_ignore_ascii_case v ''true'' | None \<Rightarrow> False) in
                (Inr (), [],
                 if lock then set_config now b ''versioning'' ''Enabled''
                   (set_config now b ''object_lock'' (ser \<lparr>lock_enabled = True, default_retention = None\<rparr>) db1)
                 else db1))))"

definition delete_bucket_request :: "string \<Rightarrow> object_db \<Rightarrow> unit answer" where
  "delete_bucket_request b db =
     (case head_bucket b (tables db) of
        None \<Rightarrow> (Inl NoSuchBucket, [], db)
      | Some _ \<Rightarrow>
          if \<not> bucket_is_empty b db then (Inl BucketNotEmpty, [], db)
          else (case delete_bucket b (tables db) of
             (found, ct) \<Rightarrow> (if found then Inr () else Inl NoSuchBucket, [], db\<lparr>tables := ct\<rparr>)))"

end
