(* ===== verification/Object_Lock_Safety.thy ===== *)
theory Object_Lock_Safety
  imports Object_Lock Object_Versions
begin

section \<open>What Object Lock guarantees\<close>

text \<open>
  The requests of theory \<^verbatim>\<open>Object_Lock\<close> as a step relation at the time each arrives, and the guarantee of a
  retention in COMPLIANCE mode: until its date no request removes the version, changes its blob, or
  shortens the retention. A request is one step here; what happens when the two transactions of a
  request are interleaved with another, or when the lookup of a request fails, is shown by the
  theorems that follow it.
\<close>

subsection \<open>The bucket tables\<close>

definition bucket_tables :: "object_db \<Rightarrow> BucketInfo list \<times> TimestampedBucketConfig list" where
  "bucket_tables db = (db_buckets (tables db), db_bucket_config (tables db))"

lemma bucket_tables_frame [simp]:
  "bucket_tables (delete_where P db) = bucket_tables db" "bucket_tables (delete_tags_where Q db) = bucket_tables db"
  "bucket_tables (update_where P f db) = bucket_tables db" "bucket_tables (db\<lparr>object_seq := s\<rparr>) = bucket_tables db"
  "bucket_tables (append_row r db) = bucket_tables db" "bucket_tables (clear_latest b k db) = bucket_tables db"
  "bucket_tables (recompute_is_latest b k db) = bucket_tables db"
  "bucket_tables (drop_null_version b k db) = bucket_tables db"
  by (simp_all add: bucket_tables_def delete_where_def delete_tags_where_def append_row_simps drop_null_version_def
      update_where_def)

lemma bucket_tables_insert_tags: "insert_tags b k v ts db = Inr db' \<Longrightarrow> bucket_tables db' = bucket_tables db"
  by (induction b k v ts db rule: insert_tags.induct) (auto simp: bucket_tables_def split: if_splits)

definition lock_bucket :: "string \<Rightarrow> object_db \<Rightarrow> bool" where
  "lock_bucket b db \<longleftrightarrow> head_bucket b (tables db) \<noteq> None \<and> get_bucket_config b ''object_lock'' (tables db) \<noteq> None \<and>
     get_bucket_config b ''versioning'' (tables db) = Some ''Enabled''"

lemma lock_bucket_frame: "bucket_tables db' = bucket_tables db \<Longrightarrow> lock_bucket b db' = lock_bucket b db"
  by (simp add: lock_bucket_def bucket_tables_def head_bucket_def get_bucket_config_def)

lemma lock_bucket_enabled: "lock_bucket b db \<Longrightarrow> get_versioning_state db b = Enabled"
  by (simp add: lock_bucket_def get_versioning_state_def)

lemma get_set_config:
  "get_bucket_config b' n' (tables (set_config now b n v db)) =
     (if b' = b \<and> n' = n then Some v else get_bucket_config b' n' (tables db))"
  by (simp add: set_config_def set_bucket_config_def apply_bucket_config_at_def get_bucket_config_def
      entity_map_upsert)

lemma head_set_config: "head_bucket b' (tables (set_config now b n v db)) = head_bucket b' (tables db)"
  by (simp add: set_config_def set_bucket_config_def apply_bucket_config_at_def head_bucket_def)

subsection \<open>A retained version\<close>

definition retained :: "string \<Rightarrow> string \<Rightarrow> string \<Rightarrow> string \<Rightarrow> timestamp \<Rightarrow> stored_row \<Rightarrow> bool" where
  "retained b k v B u x \<longleftrightarrow> of_key b k x \<and> version_id (obj x) = Some v \<and> blob_id (obj x) = B \<and>
     \<not> is_delete_marker (obj x) \<and> \<not> is_tombstone (obj x) \<and> retention_mode (obj x) = Some ''COMPLIANCE'' \<and>
     (case retain_until_date (obj x) of Some t \<Rightarrow> u \<le> t | None \<Rightarrow> False)"

text \<open>The version is retained, and its blob belongs to no other row.\<close>

definition safe :: "string \<Rightarrow> string \<Rightarrow> string \<Rightarrow> string \<Rightarrow> timestamp \<Rightarrow> object_db \<Rightarrow> bool" where
  "safe b k v B u db \<longleftrightarrow> list_ex (retained b k v B u) (objects db) \<and>
     list_all (\<lambda>x. blob_id (obj x) = B \<longrightarrow> of_key b k x \<and> version_id (obj x) = Some v) (objects db)"

lemma safe_objects: "objects db' = objects db \<Longrightarrow> safe b k v B u db' = safe b k v B u db"
  by (simp add: safe_def)

lemma safe_delete_where:
  "safe b k v B u db \<Longrightarrow> (\<And>x. retained b k v B u x \<Longrightarrow> \<not> P x) \<Longrightarrow> safe b k v B u (delete_where P db)"
  by (auto simp: safe_def delete_where_def list_ex_iff list_all_iff)

lemma safe_update_where:
  assumes "safe b k v B u db"
    and "\<And>x. x \<in> set (objects db) \<Longrightarrow> retained b k v B u x \<Longrightarrow> P x \<Longrightarrow> retained b k v B u (f x)"
    and "\<And>x. P x \<Longrightarrow> blob_id (obj (f x)) = B \<Longrightarrow>
      blob_id (obj x) = B \<and> of_key b k (f x) = of_key b k x \<and> version_id (obj (f x)) = version_id (obj x)"
  shows "safe b k v B u (update_where P f db)"
proof -
  obtain x where "x \<in> set (objects db)" "retained b k v B u x" using assms(1) by (auto simp: safe_def list_ex_iff)
  then have "retained b k v B u (if P x then f x else x)" using assms(2) by simp
  moreover have "(if P x then f x else x) \<in> set (objects (update_where P f db))"
    using imageI [OF \<open>x \<in> set (objects db)\<close>, of "\<lambda>x. if P x then f x else x"]
    by (simp add: update_where_def del: if_image_distrib)
  ultimately have "list_ex (retained b k v B u) (objects (update_where P f db))" by (auto simp: list_ex_iff)
  moreover have "list_all (\<lambda>x. blob_id (obj x) = B \<longrightarrow> of_key b k x \<and> version_id (obj x) = Some v)
      (objects (update_where P f db))"
    using assms(1,3) by (auto simp: safe_def update_where_def list_all_iff)
  ultimately show ?thesis by (simp add: safe_def)
qed

lemma safe_append: "safe b k v B u db \<Longrightarrow> blob_id r \<noteq> B \<Longrightarrow> safe b k v B u (append_row r db)"
  by (simp add: safe_def append_row_def next_object_seq_def)

lemma retained_set_latest [simp]: "retained b k v B u (set_latest l x) = retained b k v B u x"
  by (simp add: retained_def set_latest_def of_key_def)

lemma set_latest_frame [simp]:
  "blob_id (obj (set_latest l x)) = blob_id (obj x)" "version_id (obj (set_latest l x)) = version_id (obj x)"
  "of_key b k (set_latest l x) = of_key b k x"
  by (simp_all add: set_latest_def of_key_def)

lemma safe_flags: "safe b k v B u db \<Longrightarrow> safe b k v B u (update_where P (set_latest l) db)"
  by (rule safe_update_where) simp_all

lemma safe_clear: "safe b k v B u db \<Longrightarrow> safe b k v B u (clear_latest b' k' db)"
  by (simp add: clear_latest_def safe_flags)

lemma safe_recompute: "safe b k v B u db \<Longrightarrow> safe b k v B u (recompute_is_latest b' k' db)"
  by (auto simp: recompute_is_latest_def Let_def intro: safe_flags safe_clear split: option.splits)

lemma safe_tags: "safe b k v B u (delete_tags_where P db) = safe b k v B u db"
  by (simp add: safe_def delete_tags_where_def)

lemma safe_drop_null: "safe b k v B u db \<Longrightarrow> safe b k v B u (drop_null_version b' k' db)"
  unfolding drop_null_version_def
  by (intro safe_clear) (auto simp: safe_tags retained_def intro: safe_delete_where)

lemma safe_entombed:
  assumes "safe b k v B u db" "B \<noteq> []" "\<And>x. retained b k v B u x \<Longrightarrow> \<not> P x"
  shows "safe b k v B u (update_where P (entomb now s) (db\<lparr>object_seq := s\<rparr>))"
proof (rule safe_update_where)
  show "safe b k v B u (db\<lparr>object_seq := s\<rparr>)" using assms(1) by (simp add: safe_def)
qed (use assms(2,3) in \<open>auto simp: entomb_def\<close>)

lemma query_row_SomeD: "query_row P db = Some r \<Longrightarrow> \<exists>x \<in> set (objects db). P x \<and> r = object_columns (obj x)"
  by (auto simp: query_row_def dest: find_SomeD)

lemma columns_simps [simp]:
  "blob_id (object_columns r) = blob_id r" "is_delete_marker (object_columns r) = is_delete_marker r"
  "retention_mode (object_columns r) = retention_mode r" "retain_until_date (object_columns r) = retain_until_date r"
  "legal_hold_status (object_columns r) = legal_hold_status r" "version_id (object_columns r) = version_id r"
  "bucket (object_columns r) = bucket r" "key (object_columns r) = key r"
  by (simp_all add: object_columns_def)

text \<open>The blob of the version is in no row of another version.\<close>

lemma safe_blob:
  assumes "safe b k v B u db" "query_row P db = Some r"
    and "\<And>x. P x \<Longrightarrow> of_key b k x \<Longrightarrow> version_id (obj x) = Some v \<Longrightarrow> False"
  shows "blob_id r \<noteq> B"
proof
  assume "blob_id r = B"
  with query_row_SomeD [OF assms(2)] obtain x where "x \<in> set (objects db)" "P x" "blob_id (obj x) = B" by auto
  with assms(1,3) show False by (auto simp: safe_def list_all_iff)
qed

subsection \<open>The statements of the store\<close>

text \<open>What a statement must keep: the version, and the bucket as a bucket with Object Lock.\<close>

definition worm :: "string \<Rightarrow> string \<Rightarrow> string \<Rightarrow> string \<Rightarrow> timestamp \<Rightarrow> object_db \<Rightarrow> bool" where
  "worm b k v B u db \<longleftrightarrow> safe b k v B u db \<and> lock_bucket b db"

lemma worm_frame: "safe b k v B u db' \<Longrightarrow> bucket_tables db' = bucket_tables db \<Longrightarrow> worm b k v B u db \<Longrightarrow> worm b k v B u db'"
  unfolding worm_def using lock_bucket_frame [of db' db b] by blast

lemma install_state_cases:
  assumes "install_object vid r pre db = Inr res"
  obtains "get_versioning_state db (bucket r) = Unversioned" "install_unversioned r db = Inr res"
    | "get_versioning_state db (bucket r) = Enabled" "install_enabled vid r db = Inr res"
    | "get_versioning_state db (bucket r) = Suspended" "install_suspended r db = Inr res"
proof -
  obtain inst where inst: "map_sum Store id inst = Inr res"
      "inst = (case get_versioning_state db (bucket r) of
         Unversioned \<Rightarrow> install_unversioned r db | Enabled \<Rightarrow> install_enabled vid r db | Suspended \<Rightarrow> install_suspended r db)"
    using assms unfolding install_object_def by (simp split: option.splits)
  from inst(1) have "inst = Inr res" by (cases inst) auto
  with inst(2) that show ?thesis by (cases "get_versioning_state db (bucket r)") auto
qed

lemma stored_blob [simp]: "blob_id (stored v r) = blob_id r"
  by (simp add: stored_def)

lemma worm_install:
  assumes worm: "worm b k v B u db" and r: "blob_id r \<noteq> B"
    and inst: "install_object vid r pre db = Inr (old, r1, db')"
  shows "worm b k v B u db' \<and> (\<forall>x. old = Some x \<longrightarrow> blob_id x \<noteq> B)"
proof -
  have safe: "safe b k v B u db" using worm by (simp add: worm_def)
  have lock: "get_versioning_state db b = Enabled" using worm by (simp add: worm_def lock_bucket_enabled)
  show ?thesis using inst
  proof (cases rule: install_state_cases)
    case 1
    then have other: "bucket r \<noteq> b" using lock by auto
    let ?db0 = "delete_tags_where (tag_of (bucket r) (key r)) (delete_where (of_key (bucket r) (key r)) db)"
    have s: "safe b k v B u (append_row (stored None r) ?db0)"
      using r other safe by (auto intro!: safe_append safe_delete_where simp: safe_tags retained_def of_key_def)
    have "blob_id x \<noteq> B" if "old = Some x" for x
      using 1(2) that other
      by (intro safe_blob [OF safe, where P = "\<lambda>x. of_key (bucket r) (key r) x \<and> is_latest (obj x)"])
        (auto simp: install_unversioned_eq Let_def fetch_latest_object_def of_key_def)
    with 1(2) s safe_recompute [OF s] worm show ?thesis
      by (auto simp: install_unversioned_eq Let_def intro: worm_frame split: if_splits)
  next
    case 2
    have "safe b k v B u (recompute_is_latest (bucket r) (key r)
        (append_row (stored (Some vid) r) (clear_latest (bucket r) (key r) db)))"
      using r safe by (auto intro!: safe_recompute safe_append safe_clear)
    with 2(2) worm show ?thesis by (auto simp: install_enabled_eq intro: worm_frame)
  next
    case 3
    have s: "safe b k v B u (recompute_is_latest (bucket r) (key r)
        (append_row (stored None r) (drop_null_version (bucket r) (key r) db)))"
      using r safe by (auto intro!: safe_recompute safe_append safe_drop_null)
    have "blob_id x \<noteq> B" if "old = Some x" for x
      using 3(2) that
      by (intro safe_blob [OF safe, where P = "\<lambda>x. of_key (bucket r) (key r) x \<and> version_id (obj x) = None \<and>
          \<not> is_tombstone (obj x)"]) (auto simp: install_suspended_eq fetch_null_version_def)
    with 3(2) s worm show ?thesis by (auto simp: install_suspended_eq intro: worm_frame)
  qed
qed

lemma insert_tags_objects: "insert_tags b k v ts db = Inr db' \<Longrightarrow> objects db' = objects db"
  by (induction b k v ts db rule: insert_tags.induct) (auto split: if_splits)

lemma worm_write_tags:
  assumes "worm b k v B u db" "write_object_tags b' k' v' ts db = Inr db'"
  shows "worm b k v B u db'"
proof -
  have "objects db' = objects db" "bucket_tables db' = bucket_tables db"
    using assms(2) insert_tags_objects bucket_tables_insert_tags
    by (fastforce simp: write_object_tags_def delete_tags_where_def bucket_tables_def)+
  then show ?thesis using assms(1) safe_objects worm_frame unfolding worm_def by blast
qed

lemma worm_put:
  assumes "worm b k v B u db" "blob_id r \<noteq> B"
    and put: "put_object_tagged_if vid r pre tags db = Inr ((old, w), db')"
  shows "worm b k v B u db' \<and> (\<forall>x. old = Some x \<longrightarrow> blob_id x \<noteq> B)"
  using put
proof (cases rule: put_cases)
  case (1 r1 db1)
  with worm_install [OF assms(1,2) 1(1)] show ?thesis by (cases "tags = []") (auto intro: worm_write_tags)
qed

lemma worm_delete_latest:
  assumes worm: "worm b k v B u db" and B: "B \<noteq> []"
    and del: "delete_latest_in_tx vid now b' k' pre w cluster db = Inr (old, db')"
  shows "worm b k v B u db' \<and> B \<notin> set (blobs_of old)"
proof -
  have safe: "safe b k v B u db" using worm by (simp add: worm_def)
  have lock: "get_versioning_state db b = Enabled" using worm by (simp add: worm_def lock_bucket_enabled)
  show ?thesis using del
  proof (cases rule: delete_latest_cases)
    case 1
    then have other: "b' \<noteq> b" using lock by auto
    have s: "safe b k v B u (delete_where (of_key b' k') db)"
      "\<And>s. safe b k v B u (update_where (of_key b' k') (entomb now s) (db\<lparr>object_seq := s\<rparr>))"
      using other safe B by (auto intro!: safe_delete_where safe_entombed simp: retained_def of_key_def)
    have "blob_id x \<noteq> B" if "old = Some x" for x
      using 1(2) other that
      by (intro safe_blob [OF safe, where P = "\<lambda>x. of_key b' k' x \<and> is_latest (obj x)"])
        (auto simp: delete_unversioned_def Let_def fetch_latest_object_def of_key_def)
    then have "B \<notin> set (blobs_of old)" by (auto simp: blobs_of_def split: option.splits)
    with 1(2) s worm safe show ?thesis
      by (auto simp: delete_unversioned_def Let_def next_object_seq_def safe_tags
          intro!: worm_frame [of b k v B u _ db] safe_recompute split: if_splits)
  next
    case 2
    have "safe b k v B u (append_row (delete_marker b' k' now w (Some vid)) (clear_latest b' k' db))"
      using B by (intro safe_append safe_clear safe) (auto simp: delete_marker_def)
    with 2 worm show ?thesis by (auto simp: blobs_of_def intro: worm_frame)
  next
    case 3
    have s: "safe b k v B u (append_row (delete_marker b' k' now w None) (drop_null_version b' k' db))"
      using B by (intro safe_append safe_drop_null safe) (auto simp: delete_marker_def)
    have "blob_id x \<noteq> B" if "old = Some x" for x
      using 3(2) that
      by (intro safe_blob [OF safe, where P = "\<lambda>x. of_key b' k' x \<and> version_id (obj x) = None \<and>
          \<not> is_tombstone (obj x)"]) (auto simp: fetch_null_version_def)
    then have "B \<notin> set (blobs_of old)" by (auto simp: blobs_of_def split: option.splits)
    with 3(3) s worm show ?thesis by (auto intro: worm_frame)
  qed
qed

lemma worm_delete_version:
  assumes worm: "worm b k v B u db" and B: "B \<noteq> []" and other: "\<not> (b' = b \<and> k' = k \<and> v' = v)"
    and del: "delete_version_in_tx now b' k' v' pre cluster db = Inr (old, db')"
  shows "worm b k v B u db' \<and> (\<forall>x. old = Some x \<longrightarrow> blob_id x \<noteq> B)"
proof -
  let ?P = "\<lambda>x. of_key b' k' x \<and> named_version v' x"
  have safe: "safe b k v B u db" using worm by (simp add: worm_def)
  have spared: "\<not> ?P x" if "retained b k v B u x" for x
    using that other by (auto simp: retained_def of_key_def named_version_def split: if_splits)
  have s: "safe b k v B u (delete_where ?P db)"
    "\<And>s. safe b k v B u (update_where ?P (entomb now s) (db\<lparr>object_seq := s\<rparr>))"
    using safe B spared by (auto intro!: safe_delete_where safe_entombed)
  have "worm b k v B u (remove_version now b' k' v' cluster db)"
    using s worm by (auto simp: remove_version_def Let_def next_object_seq_def safe_tags
        intro!: worm_frame [of b k v B u _ db] safe_recompute)
  moreover have "blob_id x \<noteq> B" if "get_object_version b' k' v' db = Some x" for x
    using other
    by (intro safe_blob [OF safe that [unfolded get_object_version_def]])
      (auto simp: of_key_def named_version_def split: if_splits)
  ultimately show ?thesis
    using del worm by (auto simp: delete_version_in_tx_def Let_def split: option.splits if_splits)
qed

lemma worm_batch:
  assumes "worm b k v B u db" "B \<noteq> []"
    and "\<forall>e \<in> set es. \<not> (b' = b \<and> be_key (fst e) = k \<and> be_version_id (fst e) = Some v)"
    and "delete_objects_if b' w cluster es db = (rs, db')"
  shows "worm b k v B u db' \<and> (\<forall>old \<in> Inr -` set rs. B \<notin> set (blobs_of old))"
  using assms
proof (induction es arbitrary: db rs)
  case Nil
  then show ?case by auto
next
  case (Cons e es)
  obtain entry vid now where e: "e = (entry, vid, now)" by (cases e)
  show ?case
  proof (cases "delete_entry b' w cluster e db")
    case (Inl err)
    then show ?thesis using Cons by (auto simp: apfst_def map_prod_def split: prod.splits)
  next
    case (Inr res)
    obtain old db1 where res: "res = (old, db1)" by (cases res)
    have "worm b k v B u db1 \<and> B \<notin> set (blobs_of old)"
    proof (cases "be_version_id entry")
      case None
      then show ?thesis using worm_delete_latest [OF Cons(2,3)] Inr e res by (auto simp: delete_entry_def)
    next
      case (Some v')
      then have other: "\<not> (b' = b \<and> be_key entry = k \<and> v' = v)" using Cons(4) e by auto
      have "delete_version_in_tx now b' (be_key entry) v' (be_pre entry) cluster db = Inr (old, db1)"
        using Some Inr e res by (simp add: delete_entry_def)
      from worm_delete_version [OF Cons(2,3) other this] show ?thesis by (auto simp: blobs_of_def split: option.splits)
    qed
    moreover obtain rs1 where "delete_objects_if b' w cluster es db1 = (rs1, db')" "rs = Inr old # rs1"
      using Cons(5) Inr res by (cases "delete_objects_if b' w cluster es db1") auto
    ultimately show ?thesis using Cons(1) [of db1 rs1] Cons(3,4) by auto
  qed
qed

subsection \<open>The version a request reads\<close>

lemma same_row:
  assumes "object_wf db" "x \<in> set (objects db)" "y \<in> set (objects db)" "of_key b k x" "of_key b k y"
    and "version_id (obj x) = version_id (obj y) \<or> is_latest (obj x) \<and> is_latest (obj y)"
  shows "x = y"
proof -
  have xy: "x \<in> set (rows_of b k db)" "y \<in> set (rows_of b k db)" using assms(2-5) by (simp_all add: rows_of_def)
  have ok: "key_ok (rows_of b k db)" by (rule object_wf_key [OF assms(1)])
  from assms(6) show ?thesis
  proof
    assume "version_id (obj x) = version_id (obj y)"
    then show ?thesis using ok xy by (auto simp: key_ok_def distinct_map inj_on_def)
  next
    assume "is_latest (obj x) \<and> is_latest (obj y)"
    then show ?thesis using ok xy unfolding key_ok_def by blast
  qed
qed

text \<open>A request that addresses the version, by its id or as the latest, reads the retained row.\<close>

lemma reads_retained:
  assumes wf: "object_wf db" and x: "x \<in> set (objects db)" "retained b k v B u x" "addressed b k vsn x"
    and v: "v \<noteq> ''null''" and r: "read_version b k vsn db = Some r"
  shows "r = object_columns (obj x)"
proof -
  have "\<exists>y \<in> set (objects db). of_key b k y \<and>
      (version_id (obj x) = version_id (obj y) \<or> is_latest (obj x) \<and> is_latest (obj y)) \<and> r = object_columns (obj y)"
  proof (cases vsn)
    case None
    then show ?thesis using r x(3)
      by (auto simp: read_version_def get_object_def addressed_def dest!: query_row_SomeD)
  next
    case (Some w)
    then have "w = v" using x(2,3) by (simp add: addressed_def retained_def)
    then show ?thesis using r x(2) v Some
      by (auto simp: read_version_def get_object_version_def named_version_def retained_def dest!: query_row_SomeD)
  qed
  moreover have "of_key b k x" using x(2) by (simp add: retained_def)
  ultimately show ?thesis using same_row [OF wf x(1)] by blast
qed

lemma reads_version:
  assumes "object_wf db" "x \<in> set (objects db)" "retained b k v B u x" "v \<noteq> ''null''"
  shows "get_object_version b k v db = Some (object_columns (obj x))"
proof -
  have "find (\<lambda>x. of_key b k x \<and> named_version v x \<and> \<not> is_tombstone (obj x)) (objects db) \<noteq> None"
    using assms by (auto simp: find_None_iff retained_def named_version_def)
  then obtain r where "get_object_version b k v db = Some r" by (auto simp: get_object_version_def query_row_def)
  then show ?thesis
    using reads_retained [OF assms(1-3) _ assms(4), of "Some v" r] assms(3)
    by (simp add: read_version_def addressed_def retained_def)
qed

lemma retained_blocks:
  assumes "retained b k v B u x" "now < u"
  shows "check_object_lock_allows_delete now hs (obj x) = Some AccessDenied"
    "check_object_lock_allows_delete_batch now (obj x) = Some AccessDenied" "is_object_locked now (obj x)"
  using assms by (auto simp: retained_def check_object_lock_allows_delete_def
      check_object_lock_allows_delete_batch_def is_object_locked_def split: option.splits)

subsection \<open>The requests as steps\<close>

text \<open>Ids of new versions and blobs are drawn at random and are new.\<close>

definition fresh_blob :: "string \<Rightarrow> object_db \<Rightarrow> bool" where
  "fresh_blob i db \<longleftrightarrow> list_all (\<lambda>x. blob_id (obj x) \<noteq> i) (objects db)"

text \<open>
  One request at time \<open>now\<close>, answered with working lookups, with the blobs it deletes. The lifecycle
  worker expires a row of the table.
\<close>

inductive lock_request :: "bool \<Rightarrow> timestamp \<Rightarrow> string list \<Rightarrow> object_db \<Rightarrow> object_db \<Rightarrow> bool" for cluster where
  req_put: "put_object rfc3339 json limit vid now hs r tags db = Some (a, gone, db') \<Longrightarrow> fresh_vid vid db \<Longrightarrow>
     fresh_blob (blob_id r) db \<Longrightarrow> lock_request cluster now gone db db'"
| req_delete: "delete_object httpdate vid now hs w cluster b k vsn
       (Inr (Option.bind vsn (\<lambda>v. get_object_version b k v db))) db = (ao, gone, db') \<Longrightarrow> fresh_vid vid db \<Longrightarrow>
     lock_request cluster now gone db db'"
| req_delete_batch: "delete_objects date now w cluster b es (\<lambda>k v. Inr (get_object_version b k v db)) db = (ab, gone, db') \<Longrightarrow>
     batch_fresh b w cluster (batch_of (map (apfst (batch_check date now (\<lambda>k v. Inr (get_object_version b k v db)))) es)) db \<Longrightarrow>
     lock_request cluster now gone db db'"
| req_retention: "put_object_retention rfc3339 now hs b k vsn xml db = (au, gone, db') \<Longrightarrow>
     lock_request cluster now gone db db'"
| req_hold: "put_object_legal_hold now b k vsn xmlh db = (au, gone, db') \<Longrightarrow> lock_request cluster now gone db db'"
| req_versioning: "put_bucket_versioning now b status db = (au, gone, db') \<Longrightarrow> lock_request cluster now gone db db'"
| req_lock_config: "put_object_lock_configuration ser now b lx db = (au, gone, db') \<Longrightarrow>
     lock_request cluster now gone db db'"
| req_create_bucket: "create_bucket ser now hs b own db = (au, gone, db') \<Longrightarrow> lock_request cluster now gone db db'"
| req_delete_bucket: "delete_bucket_request b db = (au, gone, db') \<Longrightarrow> lock_request cluster now gone db db'"
| req_expire: "expire_object vid now cluster versioned b r db = (gone, db') \<Longrightarrow> fresh_vid vid db \<Longrightarrow>
     lock_request cluster now gone db db'"
| req_expire_noncurrent: "expire_noncurrent_version now cluster b (obj x) db = (gone, db') \<Longrightarrow>
     x \<in> set (objects db) \<Longrightarrow> of_key b (key (obj x)) x \<Longrightarrow> lock_request cluster now gone db db'"

subsubsection \<open>Deletes\<close>

lemma worm_row: "worm b k v B u db \<Longrightarrow> \<exists>x \<in> set (objects db). retained b k v B u x"
  by (auto simp: worm_def safe_def list_ex_iff)

lemma columns_check [simp]:
  "check_object_lock_allows_delete now hs (object_columns r) = check_object_lock_allows_delete now hs r"
  "check_object_lock_allows_delete_batch now (object_columns r) = check_object_lock_allows_delete_batch now r"
  by (simp_all add: check_object_lock_allows_delete_def check_object_lock_allows_delete_batch_def)

lemma delete_object_outcome:
  assumes "delete_object httpdate vid now hs w cluster b' k' vsn look db = (a, gone, db')"
  obtains "db' = db" "gone = []"
    | old pre where "vsn = None" "delete_latest_in_tx vid now b' k' pre w cluster db = Inr (old, db')" "gone = blobs_of old"
    | old pre v' where "vsn = Some v'" "delete_version_in_tx now b' k' v' pre cluster db = Inr (old, db')"
      "gone = blobs_of old"
      "\<And>r. look = Inr (Some r) \<Longrightarrow> is_delete_marker r \<or> check_object_lock_allows_delete now hs r = None"
  using assms unfolding delete_object_def Let_def delete_object_if_def delete_object_version_if_def
  by (auto split: option.splits sum.splits prod.splits if_splits)

lemma worm_req_delete:
  assumes worm: "worm b k v B u db" and wf: "object_wf db" and v: "v \<noteq> ''null''" and B: "B \<noteq> []" and now: "now < u"
    and del: "delete_object httpdate vid now hs w cluster b' k' vsn
      (Inr (Option.bind vsn (\<lambda>v. get_object_version b' k' v db))) db = (a, gone, db')"
  shows "worm b k v B u db' \<and> B \<notin> set gone"
  using del
proof (cases rule: delete_object_outcome)
  case 1
  then show ?thesis using worm by simp
next
  case (2 old pre)
  then show ?thesis using worm_delete_latest [OF worm B] by blast
next
  case (3 old pre v')
  obtain x where x: "x \<in> set (objects db)" "retained b k v B u x" using worm_row [OF worm] by blast
  have "\<not> (b' = b \<and> k' = k \<and> v' = v)"
  proof
    assume "b' = b \<and> k' = k \<and> v' = v"
    then show False using 3(1,4) reads_version [OF wf x v] retained_blocks [OF x(2) now] x(2)
      by (auto simp: retained_def)
  qed
  from worm_delete_version [OF worm B this 3(2)] show ?thesis using 3(3) by (auto simp: blobs_of_def split: option.splits)
qed

lemma orphaned_iff: "i \<in> set (orphaned_blobs rs) \<longleftrightarrow> (\<exists>old. Inr old \<in> set rs \<and> i \<in> set (blobs_of old) \<and> i \<noteq> [])"
  unfolding orphaned_blobs_def by (force split: sum.splits)

lemma merge_results_Inr: "Inr old \<in> set (merge_results cs rs) \<Longrightarrow> Inr old \<in> set rs"
  by (induction cs rs rule: merge_results.induct) (auto simp: batch_result_def split: sum.splits)

lemma batch_check_passed:
  assumes "batch_check date now look d = Inr e" "be_version_id e = Some v" "look (be_key e) v = Inr (Some r)"
  shows "is_delete_marker r \<or> check_object_lock_allows_delete_batch now r = None"
  using assms by (auto simp: batch_check_def split: option.splits if_splits)

lemma batch_of_in: "e \<in> set (batch_of cs) \<Longrightarrow> (Inr (fst e), snd e) \<in> set cs"
  by (induction cs rule: batch_of.induct) auto

lemma worm_req_delete_batch:
  assumes worm: "worm b k v B u db" and wf: "object_wf db" and v: "v \<noteq> ''null''" and B: "B \<noteq> []" and now: "now < u"
    and del: "delete_objects date now w cluster b' es (\<lambda>k v. Inr (get_object_version b' k v db)) db = (a, gone, db')"
  shows "worm b k v B u db' \<and> B \<notin> set gone"
proof -
  let ?look = "\<lambda>k v. Inr (get_object_version b' k v db)"
  let ?cs = "map (apfst (batch_check date now ?look)) es"
  obtain x where x: "x \<in> set (objects db)" "retained b k v B u x" using worm_row [OF worm] by blast
  have "\<not> (b' = b \<and> be_key (fst e) = k \<and> be_version_id (fst e) = Some v)" if e: "e \<in> set (batch_of ?cs)" for e
  proof
    assume same: "b' = b \<and> be_key (fst e) = k \<and> be_version_id (fst e) = Some v"
    obtain d where "batch_check date now ?look d = Inr (fst e)" using batch_of_in [OF e] by auto
    then show False
      using same batch_check_passed [of date now ?look d "fst e" v "object_columns (obj x)"]
        reads_version [OF wf x v] retained_blocks(2) [OF x(2) now] x(2) by (auto simp: retained_def)
  qed
  moreover obtain rs db1 where run: "delete_objects_if b' w cluster (batch_of ?cs) db = (rs, db1)" by fastforce
  ultimately have "worm b k v B u db1" "\<forall>old \<in> Inr -` set rs. B \<notin> set (blobs_of old)"
    using worm_batch [OF worm B _ run] by blast+
  moreover have "db' = db \<and> gone = [] \<or> db' = db1 \<and> gone = orphaned_blobs (merge_results ?cs rs)"
    using del run unfolding delete_objects_def Let_def by (auto split: option.splits if_splits)
  ultimately show ?thesis using worm merge_results_Inr [of _ ?cs rs] by (auto simp: orphaned_iff)
qed

subsubsection \<open>Locks, puts and buckets\<close>

lemma worm_in_place:
  assumes worm: "worm b k v B u db"
    and f: "\<And>x. x \<in> set (objects db) \<Longrightarrow> retained b k v B u x \<Longrightarrow> P x \<Longrightarrow> retained b k v B u (x\<lparr>obj := f (obj x)\<rparr>)"
    and same: "\<And>r. blob_id (f r) = blob_id r \<and> bucket (f r) = bucket r \<and> key (f r) = key r \<and> version_id (f r) = version_id r"
  shows "worm b k v B u (snd (update_in_place P f db))"
proof -
  let ?s = "Suc (object_seq db)"
  let ?db1 = "update_where P (\<lambda>x. x\<lparr>obj := f (obj x), seq := ?s\<rparr>) (db\<lparr>object_seq := ?s\<rparr>)"
  have "safe b k v B u ?db1"
  proof (rule safe_update_where)
    show "safe b k v B u (db\<lparr>object_seq := ?s\<rparr>)" using worm by (simp add: worm_def safe_def)
    show "retained b k v B u (x\<lparr>obj := f (obj x), seq := ?s\<rparr>)"
      if "x \<in> set (objects (db\<lparr>object_seq := ?s\<rparr>))" "retained b k v B u x" "P x" for x
      using f [of x] that by (simp add: retained_def of_key_def)
  qed (use same in \<open>simp_all add: of_key_def\<close>)
  with worm show ?thesis
    by (auto simp: update_in_place_def next_object_seq_def Let_def intro: worm_frame)
qed

lemma worm_retention:
  assumes worm: "worm b k v B u db" and wf: "object_wf db" and v: "v \<noteq> ''null''" and now: "now < u"
    and put: "put_object_retention rfc3339 now hs b' k' vsn xml db = (a, gone, db')"
  shows "worm b k v B u db' \<and> gone = []"
proof (cases "check_retention rfc3339 now hs b' k' vsn xml db")
  case (Inl code)
  then show ?thesis using put worm by (simp add: put_object_retention_def)
next
  case (Inr new)
  obtain m t where new: "new = (m, t)" by (cases new)
  obtain r where r: "read_version b' k' vsn db = Some r" "\<not> retention_refuses now hs r m t"
    using Inr new by (auto simp: check_retention_def split: option.splits sum.splits if_splits prod.splits)
  have kept: "m = ''COMPLIANCE'' \<and> u \<le> t"
    if x: "x \<in> set (objects db)" "retained b k v B u x" "addressed b' k' vsn x" for x
  proof -
    have "b' = b \<and> k' = k" using x(2,3) by (auto simp: retained_def addressed_def of_key_def)
    then have "r = object_columns (obj x)" using reads_retained [OF wf x(1,2) _ v] x(3) r(1) by blast
    then show ?thesis using r(2) x(2) now by (auto simp: retained_def retention_refuses_def split: option.splits)
  qed
  have "worm b k v B u (snd (set_object_retention now b' k' vsn (Some m) (Some t) db))"
    unfolding set_object_retention_def
    by (rule worm_in_place [OF worm]) (use kept in \<open>auto simp: retained_def of_key_def\<close>)
  then show ?thesis
    using put Inr new by (auto simp: put_object_retention_def store_retention_def split: prod.splits)
qed

lemma worm_hold:
  assumes worm: "worm b k v B u db" and put: "put_object_legal_hold now b' k' vsn xml db = (a, gone, db')"
  shows "worm b k v B u db' \<and> gone = []"
proof -
  have "worm b k v B u (snd (set_object_legal_hold now b' k' vsn h db))" for h
    unfolding set_object_legal_hold_def
    by (rule worm_in_place [OF worm]) (auto simp: retained_def of_key_def)
  then show ?thesis
    using put worm unfolding put_object_legal_hold_def
    by (auto split: option.splits sum.splits prod.splits) (metis snd_conv)+
qed

lemma worm_req_put:
  assumes worm: "worm b k v B u db" and new: "fresh_blob (blob_id r) db"
    and put: "put_object rfc3339 json limit vid now hs r tags db = Some (a, gone, db')"
  shows "worm b k v B u db' \<and> B \<notin> set gone"
proof -
  obtain x where "x \<in> set (objects db)" "blob_id (obj x) = B" using worm_row [OF worm] by (auto simp: retained_def)
  then have B: "blob_id r \<noteq> B" using new by (auto simp: fresh_blob_def list_all_iff)
  obtain lock where "resolve_object_lock_headers rfc3339 json limit hs db (bucket r) now = Some lock"
    using put by (auto simp: put_object_def split: option.splits)
  then have out: "(case put_object_tagged_if vid (new_record hs now lock r) (write_precondition hs) tags db of
      Inl e \<Rightarrow> (Inl (cas_code e), if cas_code e = PreconditionFailed \<or> cas_code e = NoSuchKey then [blob_id r] else [], db)
    | Inr ((old, v), db') \<Rightarrow> (Inr v, case old of Some x \<Rightarrow> [blob_id x] | None \<Rightarrow> [], db')) = (a, gone, db')"
    using put by (simp add: put_object_def)
  consider "db' = db" "set gone \<subseteq> {blob_id r}"
    | old w where "put_object_tagged_if vid (new_record hs now lock r) (write_precondition hs) tags db = Inr ((old, w), db')"
      "gone = (case old of Some x \<Rightarrow> [blob_id x] | None \<Rightarrow> [])"
    using out by (auto split: sum.splits if_splits prod.splits)
  then show ?thesis
  proof cases
    case 1
    then show ?thesis using worm B by auto
  next
    case (2 old w)
    have "blob_id (new_record hs now lock r) \<noteq> B" using B by (simp add: new_record_def split: prod.splits)
    with worm_put [OF worm _ 2(1)] 2(2) show ?thesis by (auto split: option.splits)
  qed
qed

lemma worm_tables:
  assumes "worm b k v B u db" "lock_bucket b (db\<lparr>tables := ct\<rparr>)"
  shows "worm b k v B u (db\<lparr>tables := ct\<rparr>)"
  using assms by (simp add: worm_def safe_def)

lemma worm_set_config:
  assumes "worm b k v B u db" "b' = b \<Longrightarrow> n = ''versioning'' \<Longrightarrow> c = ''Enabled''"
  shows "worm b k v B u (set_config now b' n c db)"
proof -
  have "objects (set_config now b' n c db) = objects db" by (simp add: set_config_def)
  moreover have "lock_bucket b (set_config now b' n c db)"
    using assms by (auto simp: worm_def lock_bucket_def get_set_config head_set_config)
  ultimately show ?thesis using assms(1) by (simp add: worm_def safe_def)
qed

lemma worm_not_empty: "worm b k v B u db \<Longrightarrow> \<not> bucket_is_empty b db"
  using worm_row by (fastforce simp: bucket_is_empty_def list_ex_iff retained_def of_key_def)

lemma worm_versioning:
  assumes "worm b k v B u db" "put_bucket_versioning now b' status db = (a, gone, db')"
  shows "worm b k v B u db' \<and> gone = []"
proof -
  have "c = ''Enabled''" if "b' = b" "c \<noteq> ''Enabled'' \<longrightarrow> c = ''Suspended''"
    "c = ''Suspended'' \<longrightarrow> get_bucket_config b' ''object_lock'' (tables db) = None" for c
    using that assms(1) by (auto simp: worm_def lock_bucket_def)
  then show ?thesis using assms
    by (auto simp: put_bucket_versioning_def split: option.splits if_splits intro!: worm_set_config)
qed

lemma worm_lock_config:
  assumes "worm b k v B u db" "put_object_lock_configuration ser now b' xml db = (a, gone, db')"
  shows "worm b k v B u db' \<and> gone = []"
  using assms
  by (auto simp: put_object_lock_configuration_def Let_def split: option.splits sum.splits if_splits
      intro!: worm_set_config)

lemma worm_create_bucket:
  assumes worm: "worm b k v B u db" and req: "create_bucket ser now hs b' own db = (a, gone, db')"
  shows "worm b k v B u db' \<and> gone = []"
proof (cases "create_bucket_owned now b' own (tables db)")
  case (Inl e)
  then show ?thesis using req worm by (auto simp: create_bucket_def split: option.splits)
next
  case (Inr ct)
  have "lock_bucket b (db\<lparr>tables := ct\<rparr>)"
    using Inr worm by (auto simp: create_bucket_owned_def worm_def lock_bucket_def head_bucket_def
        get_bucket_config_def entity_map_snoc split: if_splits)
  then have "worm b k v B u (db\<lparr>tables := ct\<rparr>)" by (rule worm_tables [OF worm])
  then show ?thesis using req Inr worm
    by (auto simp: create_bucket_def Let_def split: if_splits option.splits intro!: worm_set_config)
qed

lemma worm_delete_bucket:
  assumes worm: "worm b k v B u db" and req: "delete_bucket_request b' db = (a, gone, db')"
  shows "worm b k v B u db' \<and> gone = []"
proof (cases "bucket_is_empty b' db")
  case True
  then have "b' \<noteq> b" using worm_not_empty [OF worm] by blast
  then have "lock_bucket b (db\<lparr>tables := snd (delete_bucket b' (tables db))\<rparr>)"
    using worm by (simp add: worm_def lock_bucket_def delete_bucket_def head_bucket_def get_bucket_config_def entity_map_remove)
  from worm_tables [OF worm this] show ?thesis
    using req worm by (auto simp: delete_bucket_request_def split: option.splits if_splits prod.splits)
next
  case False
  then show ?thesis using req worm by (auto simp: delete_bucket_request_def split: option.splits)
qed

subsubsection \<open>Expiration\<close>

lemma worm_expire:
  assumes "worm b k v B u db" "B \<noteq> []" "expire_object vid now cluster versioned b' r db = (gone, db')"
  shows "worm b k v B u db' \<and> B \<notin> set gone"
  using assms worm_delete_latest [OF assms(1,2)]
  by (fastforce simp: expire_object_def delete_object_if_def split: sum.splits prod.splits if_splits)

lemma worm_expire_noncurrent:
  assumes worm: "worm b k v B u db" and wf: "object_wf db" and B: "B \<noteq> []" and now: "now < u"
    and req: "expire_noncurrent_version now cluster b' (obj x) db = (gone, db')"
    and x: "x \<in> set (objects db)" "of_key b' (key (obj x)) x"
  shows "worm b k v B u db' \<and> B \<notin> set gone"
proof (cases "version_id (obj x) = None \<or> is_object_locked now (obj x)")
  case True
  then show ?thesis using req worm by (auto simp: expire_noncurrent_version_def split: option.splits)
next
  case False
  then obtain v' where v': "version_id (obj x) = Some v'" by auto
  obtain y where y: "y \<in> set (objects db)" "retained b k v B u y" using worm_row [OF worm] by blast
  have other: "\<not> (b' = b \<and> key (obj x) = k \<and> v' = v)"
  proof
    assume "b' = b \<and> key (obj x) = k \<and> v' = v"
    then have "x = y" using same_row [OF wf x(1) y(1)] x(2) y(2) v' by (auto simp: retained_def)
    then show False using False retained_blocks(3) [OF y(2) now] by simp
  qed
  show ?thesis
  proof (cases "delete_version_in_tx now b' (key (obj x)) v' default_delete_pre cluster db")
    case (Inl e)
    then show ?thesis using False v' req worm
      by (simp add: expire_noncurrent_version_def delete_object_version_if_def)
  next
    case (Inr res)
    obtain old db1 where res: "res = (old, db1)" by (cases res)
    from worm_delete_version [OF worm B other Inr [unfolded res]] show ?thesis
      using False v' req Inr res
      by (auto simp: expire_noncurrent_version_def delete_object_version_if_def split: option.splits if_splits)
  qed
qed

subsection \<open>Every sequence of requests\<close>

lemma lock_request_worm:
  assumes "lock_request cluster now gone db db'" "worm b k v B u db" "object_wf db" "v \<noteq> ''null''" "B \<noteq> []" "now < u"
  shows "worm b k v B u db' \<and> B \<notin> set gone"
  using assms
proof (cases rule: lock_request.cases)
  case req_put
  then show ?thesis using worm_req_put [OF assms(2)] by blast
next
  case req_delete
  then show ?thesis using worm_req_delete [OF assms(2-6)] by blast
next
  case req_delete_batch
  then show ?thesis using worm_req_delete_batch [OF assms(2-6)] by blast
next
  case req_retention
  then show ?thesis using worm_retention [OF assms(2-4,6)] by fastforce
next
  case req_hold
  then show ?thesis using worm_hold [OF assms(2)] by fastforce
next
  case req_versioning
  then show ?thesis using worm_versioning [OF assms(2)] by fastforce
next
  case req_lock_config
  then show ?thesis using worm_lock_config [OF assms(2)] by fastforce
next
  case req_create_bucket
  then show ?thesis using worm_create_bucket [OF assms(2)] by fastforce
next
  case req_delete_bucket
  then show ?thesis using worm_delete_bucket [OF assms(2)] by fastforce
next
  case req_expire
  then show ?thesis using worm_expire [OF assms(2,5)] by blast
next
  case req_expire_noncurrent
  then show ?thesis using worm_expire_noncurrent [OF assms(2,3,5,6)] by blast
qed

lemma object_wf_config: "object_wf db \<Longrightarrow> object_wf (set_config now b n c db)"
  by (simp add: set_config_def object_wf_tables)

lemma object_wf_retention:
  "object_wf db \<Longrightarrow> put_object_retention rfc3339 now hs b k vsn xml db = (a, gone, db') \<Longrightarrow> object_wf db'"
  using object_wf_in_place_ops(1) [of db now b k vsn]
  by (auto simp: put_object_retention_def store_retention_def split: sum.splits prod.splits) (metis snd_conv)+

lemma object_wf_hold:
  "object_wf db \<Longrightarrow> put_object_legal_hold now b k vsn xml db = (a, gone, db') \<Longrightarrow> object_wf db'"
  using object_wf_in_place_ops(2) [of db now b k vsn]
  by (auto simp: put_object_legal_hold_def split: option.splits sum.splits prod.splits) (metis snd_conv)+

lemma object_wf_delete_request:
  assumes "object_wf db" "fresh_vid vid db" "delete_object httpdate vid now hs w cluster b k vsn look db = (a, gone, db')"
  shows "object_wf db'"
  using assms(3)
  by (cases rule: delete_object_outcome)
    (use assms(1,2) in \<open>auto intro: object_wf_delete_latest object_wf_delete_version\<close>)

lemma object_wf_delete_batch:
  assumes "object_wf db" "delete_objects date now w cluster b es look db = (a, gone, db')"
    and "batch_fresh b w cluster (batch_of (map (apfst (batch_check date now look)) es)) db"
  shows "object_wf db'"
  using assms object_wf_batch [OF assms(1,3)]
  by (auto simp: delete_objects_def Let_def split: option.splits if_splits prod.splits)

lemma object_wf_put_request:
  assumes "object_wf db" "fresh_vid vid db" "put_object rfc3339 json limit vid now hs r tags db = Some (a, gone, db')"
  shows "object_wf db'"
  using assms by (auto simp: put_object_def split: option.splits sum.splits prod.splits intro: object_wf_put)

lemma lock_request_wf:
  assumes "lock_request cluster now gone db db'" "object_wf db"
  shows "object_wf db'"
  using assms(1)
proof (cases rule: lock_request.cases)
  case req_put
  then show ?thesis using object_wf_put_request [OF assms(2)] by blast
next
  case req_delete
  then show ?thesis using object_wf_delete_request [OF assms(2)] by blast
next
  case req_delete_batch
  then show ?thesis using object_wf_delete_batch [OF assms(2)] by blast
next
  case req_retention
  then show ?thesis using object_wf_retention [OF assms(2)] by blast
next
  case req_hold
  then show ?thesis using object_wf_hold [OF assms(2)] by blast
next
  case req_versioning
  then show ?thesis using assms(2) by (auto simp: put_bucket_versioning_def object_wf_config split: option.splits if_splits)
next
  case req_lock_config
  then show ?thesis using assms(2)
    by (auto simp: put_object_lock_configuration_def object_wf_config Let_def split: option.splits if_splits sum.splits)
next
  case req_create_bucket
  then show ?thesis using assms(2)
    by (auto simp: create_bucket_def object_wf_config object_wf_tables Let_def split: if_splits sum.splits option.splits)
next
  case req_delete_bucket
  then show ?thesis using assms(2)
    by (auto simp: delete_bucket_request_def object_wf_tables split: option.splits if_splits prod.splits)
next
  case req_expire
  then show ?thesis using assms(2)
    by (auto simp: expire_object_def delete_object_if_def split: sum.splits prod.splits intro: object_wf_delete_latest)
next
  case req_expire_noncurrent
  then show ?thesis using assms(2)
    by (auto simp: expire_noncurrent_version_def delete_object_version_if_def
        split: option.splits sum.splits prod.splits if_splits intro: object_wf_delete_version)
qed

text \<open>A history: the time of each request and the blobs it deleted.\<close>

inductive lock_history :: "bool \<Rightarrow> (timestamp \<times> string list) list \<Rightarrow> object_db \<Rightarrow> object_db \<Rightarrow> bool" for cluster where
  history_start: "lock_history cluster [] db db"
| history_step: "lock_request cluster now gone db db1 \<Longrightarrow> lock_history cluster log db1 db' \<Longrightarrow>
     lock_history cluster ((now, gone) # log) db db'"

lemma lock_history_worm:
  assumes "lock_history cluster log db db'" "worm b k v B u db" "object_wf db" "v \<noteq> ''null''" "B \<noteq> []"
    and "\<forall>q \<in> set log. fst q < u"
  shows "worm b k v B u db' \<and> object_wf db' \<and> (\<forall>q \<in> set log. B \<notin> set (snd q))"
  using assms
proof (induction rule: lock_history.induct)
  case (history_step now gone db db1 log db')
  have "worm b k v B u db1 \<and> B \<notin> set gone"
    using lock_request_worm [OF history_step(1,4,5,6,7)] history_step(8) by simp
  then show ?case using history_step lock_request_wf [OF history_step(1,5)] by simp
qed simp


end
