(* ===== verification/Object_Lock_Gaps.thy ===== *)
theory Object_Lock_Gaps
  imports Object_Lock_Safety
begin

section \<open>Where Object Lock stops protecting\<close>

text \<open>
  A concrete locked version for the guarantee of theory \<^verbatim>\<open>Object_Lock_Safety\<close>, the bounds of a default
  retention, and the three situations in which the guarantee does not hold: a lookup that fails, two
  retention requests that overlap, and an upload that names a mode without a date.
\<close>

subsection \<open>A locked version\<close>

definition lock_tables :: control_db where
  "lock_tables = empty_db\<lparr>db_buckets := [\<lparr>b_name = ''b'', b_created_at = 0, b_owner = ''o''\<rparr>],
     db_bucket_config := [\<lparr>bc_bucket = ''b'', bc_key = ''object_lock'', bc_value = ''{}'', bc_updated_at = 0\<rparr>,
       \<lparr>bc_bucket = ''b'', bc_key = ''versioning'', bc_value = ''Enabled'', bc_updated_at = 0\<rparr>]\<rparr>"

definition lock_db :: "string option \<Rightarrow> timestamp option \<Rightarrow> object_db" where
  "lock_db mode until = \<lparr>tables = lock_tables, objects = [version_row 1 ''v1'' True
     ((sample_row 7 ''e1'' ''b1'')\<lparr>retention_mode := mode, retain_until_date := until\<rparr>)], object_seq = 1\<rparr>"

definition locked_record :: "string option \<Rightarrow> timestamp option \<Rightarrow> ObjectRecord" where
  "locked_record mode until =
     (sample_row 7 ''e1'' ''b1'')\<lparr>version_id := Some ''v1'', retention_mode := mode, retain_until_date := until\<rparr>"

lemma lock_db_tables [simp]: "tables (lock_db mode until) = lock_tables"
  by (simp add: lock_db_def)

lemma lock_tables_simps [simp]:
  "head_bucket ''b'' lock_tables = Some \<lparr>b_name = ''b'', b_created_at = 0, b_owner = ''o''\<rparr>"
  "get_bucket_config ''b'' ''object_lock'' lock_tables = Some ''{}''"
  "get_bucket_config ''b'' ''versioning'' lock_tables = Some ''Enabled''"
  by (simp_all add: lock_tables_def head_bucket_def get_bucket_config_def entity_map_Cons)

lemma lock_db_bucket: "lock_bucket ''b'' (lock_db mode until)"
  by (simp add: lock_bucket_def)

lemma lock_db_version [simp]:
  "get_object_version ''b'' ''k'' ''v1'' (lock_db mode until) = Some (locked_record mode until)"
  by (simp add: lock_db_def get_object_version_def query_row_def version_row_def of_key_def named_version_def
      sample_row_def object_columns_def locked_record_def)

lemma lock_db_wf: "object_wf (lock_db mode until)"
proof -
  have "key_ok (rows_of b k (lock_db mode until))" for b k
    by (simp add: rows_of_def lock_db_def of_key_def version_row_def sample_row_def key_ok_def live_def)
  then show ?thesis
    by (simp add: object_wf_def lock_db_def base_ok_def rowids_ok_def version_row_def)
qed

lemma lock_db_delete:
  "lock_request False 5 [] (lock_db (Some ''COMPLIANCE'') (Some 9)) (lock_db (Some ''COMPLIANCE'') (Some 9))"
proof (rule req_delete)
  show "fresh_vid ''v9'' (lock_db (Some ''COMPLIANCE'') (Some 9))"
    by (simp add: fresh_vid_def lock_db_def version_row_def)
  show "delete_object (\<lambda>_. None) ''v9'' 5 [] ''u'' False ''b'' ''k'' (Some ''v1'')
      (Inr (Option.bind (Some ''v1'') (\<lambda>v. get_object_version ''b'' ''k'' v (lock_db (Some ''COMPLIANCE'') (Some 9)))))
      (lock_db (Some ''COMPLIANCE'') (Some 9)) = (Inl AccessDenied, [], lock_db (Some ''COMPLIANCE'') (Some 9))"
    by (simp add: delete_object_def check_object_lock_allows_delete_def locked_record_def sample_row_def)
qed


subsection \<open>A lookup that fails\<close>

lemma remove_version_gone: "get_object_version b k v (remove_version now b k v cluster db) = None"
proof -
  let ?P = "\<lambda>x. of_key b k x \<and> named_version v x"
  have flags: "\<forall>x \<in> set (objects (update_where Q (set_latest l) d)). ?P x \<longrightarrow> is_tombstone (obj x)"
    if "\<forall>x \<in> set (objects d). ?P x \<longrightarrow> is_tombstone (obj x)" for Q l d
    using that by (auto simp: update_where_def set_latest_def of_key_def named_version_def)
  have recompute: "\<forall>x \<in> set (objects (recompute_is_latest b k d)). ?P x \<longrightarrow> is_tombstone (obj x)"
    if "\<forall>x \<in> set (objects d). ?P x \<longrightarrow> is_tombstone (obj x)" for d
    unfolding recompute_is_latest_def clear_latest_def Let_def
    by (cases "winner (filter (live_of_key b k) (objects (update_where (\<lambda>x. of_key b k x \<and> is_latest (obj x))
        (set_latest False) d)))") (simp_all only: option.case, (intro flags that)+)
  have "\<forall>x \<in> set (objects (remove_version now b k v cluster db)). ?P x \<longrightarrow> is_tombstone (obj x)"
    unfolding remove_version_def Let_def next_object_seq_def
    by (rule recompute) (auto simp: delete_tags_where_def update_where_def delete_where_def entomb_def)
  then show ?thesis by (auto simp: get_object_version_def query_row_def find_None_iff)
qed

text \<open>
  C36: Object Lock is not enforced when the lookup fails. If the metadata store answers the lookup of
  the lock with an error, a delete by version id without conditions removes the version and its blob,
  whatever retention or legal hold the version has.
\<close>

theorem failed_lookup_deletes_locked:
  assumes "head_bucket b (tables db) \<noteq> None" "get_object_version b k v db = Some r"
    and "delete_pre_is_empty (build_delete_precondition httpdate hs)"
  shows "\<exists>db'. delete_object httpdate vid now hs w cluster b k (Some v) (Inl e) db =
      (Inr (Some r), blobs_of (Some r), db') \<and> get_object_version b k v db' = None"
  using assms remove_version_gone
  by (auto simp: delete_object_def Let_def delete_object_version_if_def delete_version_in_tx_def)

theorem failed_lookup_deletes_locked_witness:
  "retention_mode (locked_record (Some ''COMPLIANCE'') (Some 9)) = Some ''COMPLIANCE'' \<and>
   (\<exists>db'. delete_object (\<lambda>_. None) ''v9'' 5 [] ''u'' False ''b'' ''k'' (Some ''v1'')
       (Inl (ForeignKeyViolation ''x'')) (lock_db (Some ''COMPLIANCE'') (Some 9)) =
      (Inr (Some (locked_record (Some ''COMPLIANCE'') (Some 9))), [''b1''], db') \<and>
      get_object_version ''b'' ''k'' ''v1'' db' = None)"
proof -
  have "blobs_of (Some (locked_record (Some ''COMPLIANCE'') (Some 9))) = [''b1'']"
    by (simp add: blobs_of_def locked_record_def sample_row_def)
  then show ?thesis
    using failed_lookup_deletes_locked [of "''b''" "lock_db (Some ''COMPLIANCE'') (Some 9)" "''k''" "''v1''"
        "locked_record (Some ''COMPLIANCE'') (Some 9)" "\<lambda>_. None" "[]" "''v9''" 5 "''u''" False
        "ForeignKeyViolation ''x''"]
    by (simp add: delete_pre_is_empty_def build_delete_precondition_def header_def locked_record_def)
qed

subsection \<open>Two retention requests that overlap\<close>

lemma check_retention_eq:
  assumes "head_bucket b (tables db) \<noteq> None" "get_bucket_config b ''object_lock'' (tables db) \<noteq> None"
    and "parse_retention rfc3339 xml = Inr (m, t)" "read_version b k vsn db = Some r"
  shows "check_retention rfc3339 now hs b k vsn xml db =
    (if retention_refuses now hs r m t then Inl AccessDenied else Inr (m, t))"
  using assms by (auto simp: check_retention_def)

lemma check_retention_passed:
  assumes "check_retention rfc3339 now hs b k vsn xml db = Inr (m, t)"
  shows "head_bucket b (tables db) \<noteq> None" "get_bucket_config b ''object_lock'' (tables db) \<noteq> None"
    "parse_retention rfc3339 xml = Inr (m, t)" "\<exists>r. read_version b k vsn db = Some r"
  using assms by (auto simp: check_retention_def split: option.splits sum.splits if_splits prod.splits)

lemma find_map_where:
  assumes "\<And>x. P x \<Longrightarrow> Q x" "\<And>x. P x \<Longrightarrow> P (f x)" "\<And>x. Q x \<Longrightarrow> P (f x) \<Longrightarrow> P x"
  shows "find P (map (\<lambda>x. if Q x then f x else x) xs) = map_option f (find P xs)"
proof -
  have same: "P (if Q x then f x else x) = P x" for x using assms(1) [of x] assms(2) [of x] assms(3) [of x] by auto
  show ?thesis
  proof (induction xs)
    case (Cons a xs)
    then show ?case using assms(1,2) [of a] by (cases "P a") (simp_all add: same split del: if_split)
  qed simp
qed

lemma read_after_store:
  assumes "read_version b k (Some v) db = Some r" "v \<noteq> ''null''"
  shows "read_version b k (Some v) (snd (snd (store_retention now b k (Some v) (m, t) db))) =
      Some (r\<lparr>retention_mode := Some m, retain_until_date := Some t, lock_updated_at := Some now\<rparr>)"
proof -
  let ?f = "\<lambda>x. x\<lparr>obj := (obj x)\<lparr>retention_mode := Some m, retain_until_date := Some t, lock_updated_at := Some now\<rparr>,
      seq := Suc (object_seq db)\<rparr>"
  have "find (\<lambda>x. of_key b k x \<and> named_version v x \<and> \<not> is_tombstone (obj x))
      (map (\<lambda>x. if addressed b k (Some v) x then ?f x else x) (objects db)) =
    map_option ?f (find (\<lambda>x. of_key b k x \<and> named_version v x \<and> \<not> is_tombstone (obj x)) (objects db))"
    using assms(2) by (intro find_map_where) (auto simp: of_key_def named_version_def addressed_def)
  then show ?thesis using assms(1)
    by (auto simp: read_version_def get_object_version_def query_row_def store_retention_def set_object_retention_def
        update_in_place_def next_object_seq_def update_where_def Let_def object_columns_def)
qed

lemma store_retention_tables: "tables (snd (snd (store_retention now b k vsn new db))) = tables db"
  by (simp add: store_retention_def set_object_retention_def update_in_place_def next_object_seq_def update_where_def
      Let_def split: prod.splits)

text \<open>
  C37: the check and the write of PutObjectRetention are separate transactions. When a second request
  is checked before the first, which sets COMPLIANCE until \<open>t\<close>, is stored, the second is stored after it
  and replaces it, with another mode or an earlier date, although the same request is refused once
  the first is stored.
\<close>

theorem overlapping_retention_replaces_compliance:
  assumes "check_retention rfc3339 now hs b k (Some v) xml db = Inr (''COMPLIANCE'', t)"
    and "check_retention rfc3339 now hs2 b k (Some v) xml2 db = Inr (m2, t2)"
    and "v \<noteq> ''null''" "now < t" "m2 \<noteq> ''COMPLIANCE'' \<or> t2 < t"
  shows "let db1 = snd (snd (store_retention now b k (Some v) (''COMPLIANCE'', t) db));
             db2 = snd (snd (store_retention now b k (Some v) (m2, t2) db1)) in
    check_retention rfc3339 now hs2 b k (Some v) xml2 db1 = Inl AccessDenied \<and>
    (\<exists>r. get_object_version b k v db2 = Some r \<and> retention_mode r = Some m2 \<and> retain_until_date r = Some t2)"
proof -
  obtain r where r: "read_version b k (Some v) db = Some r" using check_retention_passed(4) [OF assms(1)] by blast
  let ?r1 = "r\<lparr>retention_mode := Some ''COMPLIANCE'', retain_until_date := Some t, lock_updated_at := Some now\<rparr>"
  note r1 = read_after_store [OF r assms(3), of now "''COMPLIANCE''" t]
  have "retention_refuses now hs2 ?r1 m2 t2" using assms(4,5) by (simp add: retention_refuses_def)
  then show ?thesis
    using check_retention_eq [OF _ _ check_retention_passed(3) [OF assms(2)] r1] check_retention_passed(1,2) [OF assms(2)]
      read_after_store [OF r1 assms(3), of now m2 t2]
    by (simp add: Let_def store_retention_tables read_version_def)
qed

definition sample_date :: "string \<Rightarrow> timestamp option" where
  "sample_date s = (if s = ''later'' then Some 90 else if s = ''sooner'' then Some 9 else None)"

theorem overlapping_retention_replaces_compliance_witness:
  "let db1 = snd (snd (store_retention 5 ''b'' ''k'' (Some ''v1'') (''COMPLIANCE'', 90) (lock_db None None)));
       db2 = snd (snd (store_retention 5 ''b'' ''k'' (Some ''v1'') (''GOVERNANCE'', 9) db1)) in
   check_retention sample_date 5 [] ''b'' ''k'' (Some ''v1'') (Some (Some ''GOVERNANCE'', Some ''sooner'')) db1 = Inl AccessDenied \<and>
   (\<exists>r. get_object_version ''b'' ''k'' ''v1'' db2 = Some r \<and> retention_mode r = Some ''GOVERNANCE'' \<and> retain_until_date r = Some 9)"
proof -
  have check: "check_retention sample_date 5 [] ''b'' ''k'' (Some ''v1'') (Some (Some m, Some s)) (lock_db None None) = Inr (m, t)"
    if "validate_retention_mode m = None" "sample_date s = Some t" for m s t
    using that by (simp add: check_retention_def parse_retention_def read_version_def retention_refuses_def
        locked_record_def sample_row_def)
  show ?thesis
    by (rule overlapping_retention_replaces_compliance [OF check [of "''COMPLIANCE''" "''later''" 90]
          check [of "''GOVERNANCE''" "''sooner''" 9]])
      (simp_all add: validate_retention_mode_def sample_date_def)
qed

subsection \<open>An upload that names a mode without a date\<close>

text \<open>
  C38: a bucket default retention is evaded by one header. Whatever default the bucket has, an upload
  with an \<^verbatim>\<open>x-amz-object-lock-mode\<close> header of any value, no readable retain-until date and no legal hold
  gets that mode and no date, and the record it stores passes the check before a delete at any time.
\<close>

theorem lone_mode_header_evades_default:
  assumes "header hs ''x-amz-object-lock-mode'' = Some m"
    and "Option.bind (header hs ''x-amz-object-lock-retain-until-date'') rfc3339 = None"
    and "header hs ''x-amz-object-lock-legal-hold-status'' \<noteq> Some ''ON''"
  shows "resolve_object_lock_headers rfc3339 json limit hs db b now = Some (Some m, None, None) \<and>
    check_object_lock_allows_delete t hs2 (new_record hs now (Some m, None, None) r) = None"
  using assms by (simp add: resolve_object_lock_headers_def check_object_lock_allows_delete_def new_record_def)

definition default_year :: ObjectLockConfiguration where
  "default_year = \<lparr>lock_enabled = True,
     default_retention = Some \<lparr>dr_mode = ''COMPLIANCE'', dr_days = None, dr_years = Some 1\<rparr>\<rparr>"

theorem lone_mode_header_evades_default_witness:
  "resolve_object_lock_headers sample_date (\<lambda>_. Some default_year) (2 ^ 62) [] (lock_db None None) ''b'' 5 =
     Some (Some ''COMPLIANCE'', Some (5 + 365 * day), None) \<and>
   resolve_object_lock_headers sample_date (\<lambda>_. Some default_year) (2 ^ 62) [(''x-amz-object-lock-mode'', ''none'')]
     (lock_db None None) ''b'' 5 = Some (Some ''none'', None, None)"
proof -
  let ?hs = "[(''x-amz-object-lock-mode'', ''none'')]"
  have "header ?hs ''x-amz-object-lock-mode'' = Some ''none''" by (simp add: header_def is_visible_def)
  moreover have "header ?hs ''x-amz-object-lock-retain-until-date'' = None" by (simp add: header_def)
  moreover have "header ?hs ''x-amz-object-lock-legal-hold-status'' = None" by (simp add: header_def)
  ultimately have "resolve_object_lock_headers sample_date (\<lambda>_. Some default_year) (2 ^ 62) ?hs
      (lock_db None None) ''b'' 5 = Some (Some ''none'', None, None)"
    using lone_mode_header_evades_default [of ?hs "''none''" sample_date] by simp
  then show ?thesis
    by (simp add: resolve_object_lock_headers_def header_def compute_retain_until_def default_year_def day_def)
qed

subsection \<open>The bounds of a default retention\<close>


text \<open>The last instant of the chrono crate, the end of the year 262142, and the period of \<open>2\<^sup>3\<^sup>2 - 1\<close> days.\<close>

definition longest_days :: lock_xml where
  "longest_days = \<lparr>lx_enabled = Some ''Enabled'', lx_rule = Some (Some (Some ''GOVERNANCE'', Some (2 ^ 32 - 1), None))\<rparr>"


end
