(* ===== verification/Spec2Isabelle.thy ===== *)
theory Spec2Isabelle
  imports Policy Object_Changes Cluster_Convergence Anti_Entropy_Progress Composite_Read Inplace_Rewrite List_Walk
    Object_Lock_Gaps
begin

text \<open>
  \<^bold>\<open>A verification library for Arca, an S3-compatible object store.\<close>

  Arca serves the S3 protocol over HTTP (crate arca-proto), authenticates and authorises requests
  (arca-auth, arca-core), keeps the metadata of buckets and objects in SQL tables and their bytes in
  files (arca-storage), and runs alone or as a cluster of nodes that replicate to each other
  (arca-server). This library models the parts in which correctness is a matter of state, order and
  time, and proves what they guarantee. All paths below are under src/crates/.

  \<^bold>\<open>Conventions.\<close> A Rust struct is a record, an enum a datatype, a function or handler one definition of
  the same name. A String is the list of its bytes. A timestamp is an integer of nanoseconds; counters
  of 64 bits that only grow are naturals. A table of the database is the list of its rows, a transaction
  one function on tables, a transaction rolled back an error value. The clock, the random ids, the
  cluster flag and the answers of the network are parameters, and so are third-party codecs: base64,
  percent encoding, JSON, XML and date parsing. A theorem that relies on one of them says so in a
  hypothesis.

  \<^bold>\<open>Foundations.\<close> Arca_Prelude holds the parts of Rust's str, Option and HashMap interfaces that the
  code uses. Utf8 models the encoding of text: a prefix code whose byte order is the order of code
  points. Keyed_Table gives tables with a primary key their map of entities and an interface with the
  laws of insert, update and delete. Replicated_Register is the interface of a last-writer-wins register
  with its convergence lemmas; it is interpreted on object rows (Object_Record) and on control-plane
  entities (Control_Merge).

  \<^bold>\<open>Authorisation\<close> (arca-core/src/policy.rs; theory Policy). Action and resource matching, evaluation of
  statements, documents and grant lists, validation of documents. The backtracking glob matcher decides
  the recursive meaning of star and question mark on texts without a literal star, evaluation is
  deny-overrides over all statements, and a key with a literal star escapes a deny.

  \<^bold>\<open>Control plane\<close> (arca-core/src/cluster.rs, arca-storage/src/sqlite, control_merge.rs, and
  arca-server/src/cluster/anti_entropy.rs; theories Control_Types, Control_Db, Control_Db_Invariant,
  Control_Merge, Control_Apply). The tables of credentials, users, teams, grants, buckets with their
  configuration and tags, and uploads; the invariant of every reachable state; the planner that compares
  two snapshots; the execution of a plan statement by statement, with a crash possible after each. A
  merge keeps the newest event of every entity, two nodes converge, references are respected, and a
  crash never loses the tombstone of a deleted credential.

  \<^bold>\<open>Objects\<close> (arca-core/src/types.rs, store/metadata.rs, arca-storage/src/sqlite/metadata.rs; theories
  S3_Error, Preconditions, Object_Record, Object_Store, Object_Rows, Object_Store_Invariant,
  Object_Versions, Object_Replication, Object_Changes). Every write of the metadata store on objects:
  versioned, suspended and unversioned puts and deletes with preconditions, batches, multipart
  completion, tags, locks, re-encryption, replicated rows, tombstones. In every reachable state a key
  has at most one latest row, a live one; a delete hides the key and removing its marker restores it;
  a replicated row updates the register of its version and no other; the order of delivery does not
  matter; and every changed row is announced to the peers.

  \<^bold>\<open>Cluster\<close> (arca-core/src/cluster.rs, arca-proto/src/handlers/cluster.rs,
  arca-server/src/cluster/anti_entropy.rs; theories Cluster_State, Anti_Entropy, Anti_Entropy_Progress,
  Cluster_Convergence). The write gate, quorum and leader of a node's view of the cluster; the manifest of
  changes, its pull page by page, one pass toward a peer, and the collection of tombstones. Two
  acknowledged quorum writes intersect; a pull returns whatever the peer answers; rows that cannot be
  applied do not stop the others; readiness and tombstone collection wait for what they must; and two
  nodes that pull from each other hold the same content and serve the same objects.

  \<^bold>\<open>Blobs\<close> (arca-core/src/store/blob.rs, arca-storage/src/composite.rs, inplace.rs, fs/blob.rs; theories
  Blob_Types, Composite_Read, Inplace_Rewrite). The plan of a range read over the parts of a composite
  blob delivers exactly the range of the concatenation. The journalled rewrite of a blob and its sidecar
  runs against a schedule of file operations that succeed, fail or crash, and recovery leaves the old or
  the new pair.

  \<^bold>\<open>Listings\<close> (arca-storage/src/sqlite/metadata.rs, arca-proto/src/handlers/delimited.rs and bucket.rs;
  theories Listing, Delimited_Listing, Listing_Pages, List_Objects, List_Walk). The queries, the scan that
  rolls keys up into common prefixes and skips over them, and the ListObjects handlers. A source of rows
  in key order is an interface, interpreted on the object query. The key range that stands for a prefix
  is exact, and a client that follows the continuation tokens sees the listing that reads every row,
  once, for every page size.

  \<^bold>\<open>Object Lock\<close> (arca-core/src/s3/object_lock.rs and bucket_name.rs, arca-proto/src/handlers/object.rs and
  bucket.rs, arca-server/src/worker.rs; theories Bucket_Name, Object_Lock, Object_Lock_Safety,
  Object_Lock_Gaps). The configuration, the lock of a new object, the deletes with their checks, the
  requests that change locks and buckets, and the expiration steps of the lifecycle worker. A version
  under COMPLIANCE retention survives every sequence of these requests before its date; the gaps are a
  lookup that fails, two retention requests that overlap, and an upload with a mode and no date.

  \<^bold>\<open>Loops.\<close> No definition uses fuel. A loop over data is a structural recursion. The glob matcher is a
  function with a termination proof. The manifest pull and the delimited scan, which depend on
  what a peer or the database answers, are partial functions whose value is an option: the pull is proved to
  return always, the scan to return for the keys named in its theorem, and to run forever for others.
  A crash point and a client's walk are bounded by lists that the theorems quantify over.

  \<^bold>\<open>Not modelled.\<close> Pure input and output: the HTTP router and middleware, TLS, the command line and
  configuration files, audit, metrics, notification connectors, the web console and the documentation.
  Cryptography and codecs, whose correctness rests on third-party crates: request signatures,
  encryption and compression of blob streams, checksums. XML rendering and parsing. The PostgreSQL backend,
  which repeats the SQLite one in another dialect. Handlers that only compose modelled store operations
  with streaming of bodies: GetObject, the uploads of parts, CopyObject, archives and the administration
  interface. The lists of versions and uploads of the handlers, lifecycle evaluation beyond the
  expiration steps, bucket replication to other servers, membership gossip, the fan-out of writes to
  peers, the caches and the group commit of the database, the file store outside the rewrite, blob
  collection beyond its plan, and the repair and migration tools. Concurrency inside a node is modelled between transactions, not inside the runtime.
\<close>

end
